(* ===== verification/Go_Prelude.thy ===== *)
theory Go_Prelude
  imports Main "HOL-Library.Word" "HOL-Library.List_Lexorder" "HOL-Library.Char_ord"
begin

text \<open>
  What the other theories share: Go's outcomes (a call returns or panics), calls that read and
  change the outside world, error values with wrapping, fixed-width integers, maps with string
  keys kept as sorted association lists, and the lemmas and collections their proofs use.
\<close>

named_theorems go_run \<comment> \<open>how a sequence of calls runs, one call at a time\<close>
named_theorems task_norm \<comment> \<open>what the JSON round trip does to each part of a task\<close>
named_theorems db_simps \<comment> \<open>how one Redis command changes each part of the store\<close>

section \<open>Integers\<close>

type_synonym i32 = "32 word"
type_synonym i64 = "64 word"
type_synonym duration = i64   \<comment> \<open>\<open>time.Duration\<close>: nanoseconds in an \<open>int64\<close>\<close>
type_synonym time = int       \<comment> \<open>\<open>time.Time\<close>: the instant, in nanoseconds since the epoch\<close>

definition Second :: int where "Second = 1000000000"
definition Millisecond :: int where "Millisecond = 1000000"
definition Minute :: int where "Minute = 60 * Second"
definition Hour :: int where "Hour = 60 * Minute"

definition dur :: "int \<Rightarrow> duration" where
  "dur n = word_of_int n"

text \<open>\<open>Time.Unix()\<close>: the seconds since the epoch, rounded down.\<close>

definition unix :: "time \<Rightarrow> int" where
  "unix t = t div Second"

lemma unix_mono: "s \<le> t \<Longrightarrow> unix s \<le> unix t"
  by (simp add: unix_def Second_def zdiv_mono1)

lemma unix_le_iff: "unix s \<le> unix t \<longleftrightarrow> s div 1000000000 \<le> t div 1000000000"
  by (simp add: unix_def Second_def)

lemma unix_bounds: "unix t * Second \<le> t \<and> t < unix t * Second + Second"
  by (simp add: unix_def Second_def) presburger

text \<open>Go's \<open>/\<close> and \<open>%\<close> on signed integers truncate towards zero.\<close>

definition go_div :: "int \<Rightarrow> int \<Rightarrow> int" where
  "go_div a b = sgn a * sgn b * (\<bar>a\<bar> div \<bar>b\<bar>)"

lemma go_div_pos [simp]: "0 \<le> a \<Longrightarrow> 0 < b \<Longrightarrow> go_div a b = a div b"
  by (cases "a = 0") (auto simp: go_div_def sgn_if)

lemma sint_word_of_int_range:
  "- (2 ^ 31) \<le> n \<Longrightarrow> n < 2 ^ 31 \<Longrightarrow> sint (word_of_int n :: i32) = n"
  by (simp add: sint_sbintrunc' signed_take_bit_int_eq_self)

lemma sint_word_of_int_range64:
  "- (2 ^ 63) \<le> n \<Longrightarrow> n < 2 ^ 63 \<Longrightarrow> sint (word_of_int n :: i64) = n"
  by (simp add: sint_sbintrunc' signed_take_bit_int_eq_self)

lemma word_of_int_sint32 [simp]: "(word_of_int (sint (x :: i32)) :: i32) = x"
  by simp

lemma sint32_range: "- (2 ^ 31) \<le> sint (x :: i32) \<and> sint x < 2 ^ 31"
  using sint_range_size [of x] by (simp add: word_size)

lemma sint64_range: "- (2 ^ 63) \<le> sint (x :: i64) \<and> sint x < 2 ^ 63"
  using sint_range_size [of x] by (simp add: word_size)

section \<open>Errors\<close>

text \<open>
  A Go \<open>error\<close> is one of the package's sentinel values, a text, or a text wrapping another error
  (\<open>fmt.Errorf\<close> with \<open>%w\<close>). \<open>errors.Is\<close> looks through the wrapping; \<open>Error()\<close> is the text.
\<close>

datatype go_error =
    ErrText string
  | ErrWrap string go_error
  | ErrDuplicateTask
  | ErrTaskRetried
  | ErrTaskDead
  | ErrTaskNotFound
  | RedisNil
  | ContextCanceled
  | DeadlineExceeded
  | SqlNoRows

fun error_text :: "go_error \<Rightarrow> string" where
  "error_text (ErrText s) = s"
| "error_text (ErrWrap s e) = s @ error_text e"
| "error_text ErrDuplicateTask = ''duplicate task: unique key already exists''"
| "error_text ErrTaskRetried = ''task scheduled for retry''"
| "error_text ErrTaskDead = ''task moved to dead letter queue''"
| "error_text ErrTaskNotFound = ''task not found''"
| "error_text RedisNil = ''redis: nil''"
| "error_text ContextCanceled = ''context canceled''"
| "error_text DeadlineExceeded = ''context deadline exceeded''"
| "error_text SqlNoRows = ''sql: no rows in result set''"

fun errors_is :: "go_error \<Rightarrow> go_error \<Rightarrow> bool" where
  "errors_is (ErrWrap s e) target = (ErrWrap s e = target \<or> errors_is e target)"
| "errors_is e target = (e = target)"

lemma errors_is_refl [simp]: "errors_is e e"
  by (cases e) auto

text \<open>\<open>strings.Contains\<close> and \<open>strings.HasSuffix\<close>.\<close>

fun has_prefix :: "string \<Rightarrow> string \<Rightarrow> bool" where
  "has_prefix s [] = True"
| "has_prefix [] (p # ps) = False"
| "has_prefix (c # s) (p # ps) = (c = p \<and> has_prefix s ps)"

fun contains :: "string \<Rightarrow> string \<Rightarrow> bool" where
  "contains [] p = (p = [])"
| "contains (c # s) p = (has_prefix (c # s) p \<or> contains s p)"

definition has_suffix :: "string \<Rightarrow> string \<Rightarrow> bool" where
  "has_suffix s p = has_prefix (rev s) (rev p)"

lemma has_prefix_append: "has_prefix s p \<longleftrightarrow> (\<exists>r. s = p @ r)"
  by (induction s p rule: has_prefix.induct) auto

lemma contains_iff: "contains s p \<longleftrightarrow> (\<exists>u v. s = u @ p @ v)"
proof (induction s p rule: contains.induct)
  case (1 p)
  then show ?case by simp
next
  case (2 c s p)
  show ?case
  proof
    assume "contains (c # s) p"
    then consider "has_prefix (c # s) p" | "contains s p" by auto
    then show "\<exists>u v. c # s = u @ p @ v"
    proof cases
      case 1
      then show ?thesis by (metis append_Nil has_prefix_append)
    next
      case 2
      with "2.IH" obtain u v where "s = u @ p @ v" by blast
      then have "c # s = (c # u) @ p @ v" by simp
      then show ?thesis by blast
    qed
  next
    assume "\<exists>u v. c # s = u @ p @ v"
    then obtain u v where uv: "c # s = u @ p @ v" by blast
    show "contains (c # s) p"
    proof (cases u)
      case Nil
      with uv have "has_prefix (c # s) p" by (auto simp: has_prefix_append)
      then show ?thesis by simp
    next
      case (Cons d u')
      with uv have "s = u' @ p @ v" by simp
      with "2.IH" show ?thesis by auto
    qed
  qed
qed

section \<open>Calls on the outside world\<close>

text \<open>
  A Go function that talks to Redis, to the database, to the clock or to a user's handler is a
  state transformer over the world \<open>'w\<close> it acts on. It returns a value or panics; a panic keeps
  what the world had become.
\<close>

datatype 'a outcome = Ret 'a | Panic string

type_synonym ('w, 'a) go = "'w \<Rightarrow> 'a outcome \<times> 'w"

definition go_return :: "'a \<Rightarrow> ('w, 'a) go" where
  "go_return a = (\<lambda>w. (Ret a, w))"

definition go_panic :: "string \<Rightarrow> ('w, 'a) go" where
  "go_panic s = (\<lambda>w. (Panic s, w))"

definition go_bind :: "('w, 'a) go \<Rightarrow> ('a \<Rightarrow> ('w, 'b) go) \<Rightarrow> ('w, 'b) go" where
  "go_bind m f = (\<lambda>w. case m w of (Ret a, w') \<Rightarrow> f a w' | (Panic s, w') \<Rightarrow> (Panic s, w'))"

text \<open>A library call that cannot panic.\<close>

definition go_lift :: "('w \<Rightarrow> 'a \<times> 'w) \<Rightarrow> ('w, 'a) go" where
  "go_lift m = (\<lambda>w. case m w of (a, w') \<Rightarrow> (Ret a, w'))"

text \<open>\<open>for _, x := range xs\<close> with the variables the body updates as the accumulator.\<close>

fun go_fold :: "('a \<Rightarrow> 's \<Rightarrow> ('w, 's) go) \<Rightarrow> 'a list \<Rightarrow> 's \<Rightarrow> ('w, 's) go" where
  "go_fold f [] s = go_return s"
| "go_fold f (x # xs) s = go_bind (f x s) (\<lambda>s'. go_fold f xs s')"

text \<open>A deferred recover: a panic of the body becomes a value.\<close>

definition go_recover :: "('w, 'a) go \<Rightarrow> (string \<Rightarrow> 'a) \<Rightarrow> ('w, 'a) go" where
  "go_recover m f = (\<lambda>w. case m w of (Ret a, w') \<Rightarrow> (Ret a, w') | (Panic s, w') \<Rightarrow> (Ret (f s), w'))"

lemma go_return_run [simp, go_run]: "go_return a w = (Ret a, w)"
  by (simp add: go_return_def)

lemma go_panic_run [simp, go_run]: "go_panic s w = (Panic s, w)"
  by (simp add: go_panic_def)

lemma go_lift_run [go_run]: "m w = (a, w') \<Longrightarrow> go_lift m w = (Ret a, w')"
  by (simp add: go_lift_def)

lemma go_lift_iff: "go_lift m w = (r, w') \<longleftrightarrow> (\<exists>a. m w = (a, w') \<and> r = Ret a)"
  by (auto simp: go_lift_def split: prod.splits)

lemma go_bind_Ret [go_run]: "m w = (Ret a, w') \<Longrightarrow> go_bind m f w = f a w'"
  by (simp add: go_bind_def)

lemma go_bind_Panic [go_run]: "m w = (Panic s, w') \<Longrightarrow> go_bind m f w = (Panic s, w')"
  by (simp add: go_bind_def)

lemma go_bind_lift [go_run]: "m w = (a, w') \<Longrightarrow> go_bind (go_lift m) f w = f a w'"
  by (simp add: go_bind_def go_lift_def)

lemma go_bind_lift_case:
  "go_bind (go_lift m) f w = (case m w of (a, w') \<Rightarrow> f a w')"
  by (simp add: go_bind_def go_lift_def split: prod.splits)

lemma go_bind_Ret_iff:
  "go_bind m f w = (Ret b, w') \<longleftrightarrow> (\<exists>a w1. m w = (Ret a, w1) \<and> f a w1 = (Ret b, w'))"
  by (auto simp: go_bind_def split: prod.splits outcome.splits)

lemma go_bind_Ret_E:
  assumes "go_bind m f w = (Ret b, w')"
  obtains a w1 where "m w = (Ret a, w1)" and "f a w1 = (Ret b, w')"
  using assms by (auto simp: go_bind_Ret_iff)

lemma go_bind_Panic_iff:
  "go_bind m f w = (Panic s, w') \<longleftrightarrow>
     m w = (Panic s, w') \<or> (\<exists>a w1. m w = (Ret a, w1) \<and> f a w1 = (Panic s, w'))"
  by (auto simp: go_bind_def split: prod.splits outcome.splits)

lemma go_bind_return [simp]: "go_bind (go_return a) f = f a"
  by (simp add: go_bind_def fun_eq_iff)

lemma go_bind_panic [simp]: "go_bind (go_panic s) f = go_panic s"
  by (simp add: go_bind_def fun_eq_iff)

text \<open>The simplifier contracts the two run equations above, so the bind laws are needed in this form too.\<close>

lemma go_bind_Pair_Ret [simp]: "go_bind (Pair (Ret a)) f = f a"
  by (simp add: go_bind_def fun_eq_iff)

lemma go_bind_Pair_Panic [simp]: "go_bind (Pair (Panic s)) f = Pair (Panic s)"
  by (simp add: go_bind_def fun_eq_iff)

lemma go_bind_assoc: "go_bind (go_bind m f) g = go_bind m (\<lambda>a. go_bind (f a) g)"
  by (auto simp: go_bind_def fun_eq_iff split: prod.splits outcome.splits)

lemma go_fold_append:
  "go_fold f (xs @ ys) s = go_bind (go_fold f xs s) (\<lambda>s'. go_fold f ys s')"
proof (induction xs arbitrary: s)
  case Nil
  then show ?case by simp
next
  case (Cons x xs)
  then have "go_fold f (xs @ ys) = (\<lambda>s. go_bind (go_fold f xs s) (go_fold f ys))"
    by (simp add: fun_eq_iff)
  then show ?case by (simp add: go_bind_assoc)
qed

text \<open>
  The loop rule: a relation between the elements still to come, the accumulator and the world
  that holds at the start and that every iteration keeps holds when the loop has run.
\<close>

lemma go_fold_invariant:
  assumes "I xs s w" and "go_fold f xs s w = (Ret s', w')"
    and "\<And>x ys s w s' w'. I (x # ys) s w \<Longrightarrow> f x s w = (Ret s', w') \<Longrightarrow> I ys s' w'"
  shows "I [] s' w'"
  using assms(1,2)
proof (induction xs arbitrary: s w)
  case Nil
  then show ?case by simp
next
  case (Cons x xs)
  from Cons.prems(2) obtain s1 w1 where "f x s w = (Ret s1, w1)" and "go_fold f xs s1 w1 = (Ret s', w')"
    by (auto simp: go_bind_Ret_iff)
  with Cons show ?case by (blast intro: assms(3))
qed

section \<open>Maps with string keys\<close>

text \<open>
  A Go \<open>map[string]string\<close> is a sorted association list without repeated keys: a unique
  representation, listed in the order in which \<open>encoding/json\<close> prints it.
\<close>

type_synonym 'v gomap = "(string \<times> 'v) list"

fun map_put :: "string \<Rightarrow> 'v \<Rightarrow> 'v gomap \<Rightarrow> 'v gomap" where
  "map_put k v [] = [(k, v)]"
| "map_put k v ((k', v') # m) =
     (if k < k' then (k, v) # (k', v') # m
      else if k = k' then (k, v) # m
      else (k', v') # map_put k v m)"

definition gomap_ok :: "'v gomap \<Rightarrow> bool" where
  "gomap_ok m \<longleftrightarrow> sorted_wrt (<) (map fst m)"

lemma map_of_map_put [simp]: "map_of (map_put k v m) = (map_of m)(k \<mapsto> v)"
  by (induction k v m rule: map_put.induct) (auto simp: fun_eq_iff)

lemma set_keys_map_put [simp]: "fst ` set (map_put k v m) = insert k (fst ` set m)"
  by (induction k v m rule: map_put.induct) auto

lemma gomap_ok_Nil [simp, intro]: "gomap_ok []"
  by (simp add: gomap_ok_def)

lemma gomap_ok_single [simp]: "gomap_ok [p]"
  by (simp add: gomap_ok_def)

lemma gomap_ok_map_put [intro]: "gomap_ok m \<Longrightarrow> gomap_ok (map_put k v m)"
proof (induction k v m rule: map_put.induct)
  case (1 k v)
  then show ?case by (simp add: gomap_ok_def)
next
  case (2 k v k' v' m)
  show ?case
  proof (cases "k < k'")
    case True
    with "2.prems" show ?thesis by (auto simp: gomap_ok_def)
  next
    case False
    with "2.prems" show ?thesis
    proof (cases "k = k'")
      case True
      with "2.prems" show ?thesis by (auto simp: gomap_ok_def)
    next
      case neq: False
      with False have gt: "k' < k" by simp
      from "2.prems" have "gomap_ok m" by (simp add: gomap_ok_def)
      with False neq "2.IH" have "gomap_ok (map_put k v m)" by simp
      with "2.prems" gt show ?thesis by (auto simp: gomap_ok_def)
    qed
  qed
qed

lemma map_put_last: "gomap_ok (m @ [(k, v)]) \<Longrightarrow> map_put k v m = m @ [(k, v)]"
proof (induction m)
  case Nil
  then show ?case by simp
next
  case (Cons p m)
  obtain k' v' where p: "p = (k', v')" by (cases p)
  from Cons.prems p have "k' < k" and "gomap_ok (m @ [(k, v)])"
    by (auto simp: gomap_ok_def)
  with Cons.IH p show ?case by auto
qed

lemma gomap_ok_take: "gomap_ok (m @ m') \<Longrightarrow> gomap_ok m"
  by (simp add: gomap_ok_def sorted_wrt_append)

lemma gomap_ok_distinct: "gomap_ok m \<Longrightarrow> distinct (map fst m)"
  by (simp add: gomap_ok_def strict_sorted_iff)

text \<open>The representation is unique.\<close>

lemma gomap_eqI:
  assumes "gomap_ok m" and "gomap_ok m'" and "map_of m = map_of m'"
  shows "m = m'"
proof (rule map_sorted_distinct_set_unique [where f = fst])
  have d: "distinct (map fst m)" "distinct (map fst m')" using assms by (simp_all add: gomap_ok_distinct)
  then have s: "set m = set m'" using assms(3) map_of_inject_set by blast
  with d show "inj_on fst (set m \<union> set m')" "set m = set m'" "distinct (map fst m)" "distinct (map fst m')"
    by (simp_all add: distinct_map)
  show "sorted (map fst m)" "sorted (map fst m')"
    using assms(1,2) by (simp_all add: gomap_ok_def strict_sorted_iff)
qed

section \<open>Decimal numbers\<close>

text \<open>\<open>strconv.Itoa\<close> and \<open>%d\<close> print, \<open>fmt.Sscanf(s, "%d", _)\<close> and \<open>strconv.Atoi\<close> read.\<close>

definition digit :: "nat \<Rightarrow> char" where
  "digit d = char_of (48 + d)"

fun show_nat :: "nat \<Rightarrow> string" where
  "show_nat n = (if n < 10 then [digit n] else show_nat (n div 10) @ [digit (n mod 10)])"

declare show_nat.simps [simp del]

definition show_int :: "int \<Rightarrow> string" where
  "show_int n = (if n < 0 then CHR ''-'' # show_nat (nat (- n)) else show_nat (nat n))"

definition is_digit :: "char \<Rightarrow> bool" where
  "is_digit c = (let n = of_char c :: nat in 48 \<le> n \<and> n \<le> 57)"

fun read_digits :: "nat \<Rightarrow> string \<Rightarrow> nat" where
  "read_digits acc [] = acc"
| "read_digits acc (c # cs) =
     (if is_digit c then read_digits (10 * acc + (of_char c - 48)) cs else acc)"

text \<open>The number at the front of the text; \<open>None\<close> when there is no digit.\<close>

definition sscanf_int :: "string \<Rightarrow> int option" where
  "sscanf_int s = (case s of
      [] \<Rightarrow> None
    | c # cs \<Rightarrow>
        if c = CHR ''-'' \<and> cs \<noteq> [] \<and> is_digit (hd cs) then Some (- int (read_digits 0 cs))
        else if is_digit c then Some (int (read_digits 0 s)) else None)"

lemma of_char_digit [simp]: "d < 10 \<Longrightarrow> of_char (digit d) = 48 + d"
  by (simp add: digit_def)

lemma is_digit_digit [simp]: "d < 10 \<Longrightarrow> is_digit (digit d)"
  by (simp add: is_digit_def)

lemma show_nat_digits: "list_all is_digit (show_nat n) \<and> show_nat n \<noteq> []"
proof (induction n rule: show_nat.induct)
  case (1 n)
  then show ?case by (simp add: show_nat.simps [of n])
qed

lemma read_digits_append:
  "list_all is_digit xs \<Longrightarrow> read_digits acc (xs @ ys) = read_digits (read_digits acc xs) ys"
  by (induction acc xs rule: read_digits.induct) auto

lemma read_show_nat [simp]: "read_digits 0 (show_nat n) = n"
proof (induction n rule: show_nat.induct)
  case (1 n)
  show ?case
  proof (cases "n < 10")
    case True
    then show ?thesis by (subst show_nat.simps) simp
  next
    case False
    with 1 have ih: "read_digits 0 (show_nat (n div 10)) = n div 10" by simp
    have "list_all is_digit (show_nat (n div 10))" using show_nat_digits by blast
    with False ih show ?thesis by (subst show_nat.simps) (simp add: read_digits_append)
  qed
qed

lemma show_nat_inj: "show_nat m = show_nat n \<longleftrightarrow> m = n"
  by (metis read_show_nat)

lemma hd_show_nat: "is_digit (hd (show_nat n)) \<and> hd (show_nat n) \<noteq> CHR ''-''"
proof -
  obtain c cs where c: "show_nat n = c # cs" "is_digit c"
    using show_nat_digits [of n] by (cases "show_nat n") auto
  moreover have "\<not> is_digit CHR ''-''" by (simp add: is_digit_def)
  ultimately show ?thesis by auto
qed

lemma sscanf_show_int [simp]: "sscanf_int (show_int n) = Some n"
proof (cases "n < 0")
  case True
  then show ?thesis
    using show_nat_digits [of "nat (- n)"] hd_show_nat [of "nat (- n)"]
    by (simp add: show_int_def sscanf_int_def)
next
  case False
  obtain c cs where c: "show_nat (nat n) = c # cs"
    using show_nat_digits [of "nat n"] by (cases "show_nat (nat n)") auto
  with hd_show_nat [of "nat n"] have "is_digit c" "c \<noteq> CHR ''-''" by simp_all
  with c False read_show_nat [of "nat n"] show ?thesis
    by (simp add: show_int_def sscanf_int_def del: read_digits.simps)
qed

end
