(* ===== verification/Task_Types.thy ===== *)
theory Task_Types
  imports Go_Prelude
begin

text \<open>
  The data of \<^verbatim>\<open>types/types.go\<close>: task states, the task stored in Redis with its options and its
  run-time metadata, and the records that describe queues, consumer groups and consumers. A nil
  pointer is \<open>None\<close>. JSON values are trees: \<open>JTime t\<close> is the string that \<open>time.Time\<close> prints for the
  instant \<open>t\<close>, \<open>JStr\<close> any other string, \<open>JInt n\<close> a number written as a plain integer and \<open>JFrac\<close>
  one written with a fraction or an exponent. A text stored in Redis is the compact text of such a
  tree (\<open>JsonText\<close>) or a text that is not JSON (\<open>PlainText\<close>). Strings are valid UTF-8.
\<close>

section \<open>JSON\<close>

datatype jnum = JInt int | JFrac string

datatype json =
    JNull
  | JBool bool
  | JNum jnum
  | JStr string
  | JTime time
  | JArr "json list"
  | JObj "(string \<times> json) list"

datatype bulk = JsonText json | PlainText string

text \<open>
  \<open>json.RawMessage\<close>, a byte slice: empty, the text of a JSON value, or bytes that are not JSON.
\<close>

datatype RawMessage = RawEmpty | RawJson json | RawInvalid string

section \<open>Task states\<close>

text \<open>A \<open>TaskState\<close> is a string; the database and other producers can hold any.\<close>

type_synonym TaskState = string

definition TaskStateUnspecified :: TaskState where "TaskStateUnspecified = ''''"
definition TaskStatePending :: TaskState where "TaskStatePending = ''pending''"
definition TaskStateScheduled :: TaskState where "TaskStateScheduled = ''scheduled''"
definition TaskStateActive :: TaskState where "TaskStateActive = ''active''"
definition TaskStateCompleted :: TaskState where "TaskStateCompleted = ''completed''"
definition TaskStateFailed :: TaskState where "TaskStateFailed = ''failed''"
definition TaskStateRetry :: TaskState where "TaskStateRetry = ''retry''"
definition TaskStateDead :: TaskState where "TaskStateDead = ''dead''"
definition TaskStateCancelled :: TaskState where "TaskStateCancelled = ''cancelled''"

lemmas task_state_defs =
  TaskStateUnspecified_def TaskStatePending_def TaskStateScheduled_def TaskStateActive_def
  TaskStateCompleted_def TaskStateFailed_def TaskStateRetry_def TaskStateDead_def
  TaskStateCancelled_def

section \<open>Tasks\<close>

record TaskOptions =
  Queue :: string
  MaxRetry :: i32
  Timeout :: duration
  ProcessAt :: "time option"
  Priority :: i32
  UniqueKey :: string
  UniqueTTL :: duration
  Labels :: "string gomap option"

record TaskMetadata =
  State :: TaskState
  CreatedAt :: "time option"
  StartedAt :: "time option"
  CompletedAt :: "time option"
  RetryCount :: i32
  LastError :: string
  WorkerID :: string
  ConsumerGroup :: string
  TraceID :: string
  StreamMsgID :: string

record TaskProto =
  ID :: string
  Type :: string
  Payload :: RawMessage
  Options :: "TaskOptions option"
  Metadata :: "TaskMetadata option"

text \<open>The zero values: \<open>&types.TaskOptions{}\<close>, \<open>&types.TaskMetadata{}\<close>, \<open>&types.TaskProto{}\<close>.\<close>

definition zero_options :: TaskOptions where
  "zero_options = \<lparr>Queue = '''', MaxRetry = 0, Timeout = 0, ProcessAt = None, Priority = 0,
     UniqueKey = '''', UniqueTTL = 0, Labels = None\<rparr>"

definition zero_metadata :: TaskMetadata where
  "zero_metadata = \<lparr>State = '''', CreatedAt = None, StartedAt = None, CompletedAt = None,
     RetryCount = 0, LastError = '''', WorkerID = '''', ConsumerGroup = '''', TraceID = '''',
     StreamMsgID = ''''\<rparr>"

definition zero_proto :: TaskProto where
  "zero_proto = \<lparr>ID = '''', Type = '''', Payload = RawEmpty, Options = None, Metadata = None\<rparr>"

text \<open>\<open>if proto.Metadata == nil { proto.Metadata = &types.TaskMetadata{} }\<close>, and an update under it.\<close>

definition metadata_or_zero :: "TaskProto \<Rightarrow> TaskMetadata" where
  "metadata_or_zero t = (case Metadata t of None \<Rightarrow> zero_metadata | Some m \<Rightarrow> m)"

definition options_or_zero :: "TaskProto \<Rightarrow> TaskOptions" where
  "options_or_zero t = (case Options t of None \<Rightarrow> zero_options | Some r \<Rightarrow> r)"

section \<open>Descriptions of tasks, queues and consumers\<close>

record TaskInfo =
  ti_ID :: string
  ti_Queue :: string
  ti_State :: TaskState
  ti_ProcessAt :: "time option"

record QueueInfo =
  qi_Name :: string
  qi_Pending :: int
  qi_Active :: int
  qi_Scheduled :: int
  qi_Retry :: int
  qi_Dead :: int
  qi_Completed :: int
  qi_Processed :: int
  qi_Failed :: int

record ConsumerGroupInfo =
  cg_Name :: string
  cg_Consumers :: int
  cg_Pending :: int
  cg_LastDeliveredID :: string

record ConsumerInfo =
  ci_Name :: string
  ci_Pending :: int
  ci_Idle :: int       \<comment> \<open>milliseconds\<close>
  ci_Inactive :: int   \<comment> \<open>milliseconds\<close>

end
