(* ===== verification/Json_Codec.thy ===== *)
theory Json_Codec
  imports Task_Types
begin

text \<open>
  The wire form of a task: what \<open>json.Marshal\<close> and \<open>json.Unmarshal\<close> make of the struct tags of
  \<^verbatim>\<open>types/types.go\<close>. Marshalling drops the empty fields tagged \<open>omitempty\<close>, refuses a payload that
  is not JSON and an instant whose year is not between 0 and 9999; unmarshalling takes the fields
  in any order, matches their names without regard to case, ignores the ones it does not know,
  leaves a field alone on null (and sets a pointer or a map to nil), and fails on a value of the
  wrong type or out of the range of its integer type. The last section proves the round trip.
\<close>

section \<open>Marshalling\<close>

definition str_field :: "string \<Rightarrow> string \<Rightarrow> (string \<times> json) list" where
  "str_field k s = (if s = '''' then [] else [(k, JStr s)])"

definition int_field :: "string \<Rightarrow> int \<Rightarrow> (string \<times> json) list" where
  "int_field k n = (if n = 0 then [] else [(k, JNum (JInt n))])"

definition time_field :: "string \<Rightarrow> time option \<Rightarrow> (string \<times> json) list" where
  "time_field k t = (case t of None \<Rightarrow> [] | Some x \<Rightarrow> [(k, JTime x)])"

definition labels_field :: "string \<Rightarrow> string gomap option \<Rightarrow> (string \<times> json) list" where
  "labels_field k m = (case m of
      None \<Rightarrow> []
    | Some kvs \<Rightarrow> if kvs = [] then [] else [(k, JObj (map (\<lambda>(x, v). (x, JStr v)) kvs))])"

definition payload_field :: "string \<Rightarrow> RawMessage \<Rightarrow> (string \<times> json) list" where
  "payload_field k p = (case p of RawJson j \<Rightarrow> [(k, j)] | _ \<Rightarrow> [])"

definition json_options :: "TaskOptions \<Rightarrow> json" where
  "json_options r = JObj
     (str_field ''queue'' (Queue r) @
      int_field ''max_retry'' (sint (MaxRetry r)) @
      int_field ''timeout'' (sint (Timeout r)) @
      time_field ''process_at'' (ProcessAt r) @
      int_field ''priority'' (sint (Priority r)) @
      str_field ''unique_key'' (UniqueKey r) @
      int_field ''unique_ttl'' (sint (UniqueTTL r)) @
      labels_field ''labels'' (Labels r))"

definition json_metadata :: "TaskMetadata \<Rightarrow> json" where
  "json_metadata m = JObj
     (str_field ''state'' (State m) @
      time_field ''created_at'' (CreatedAt m) @
      time_field ''started_at'' (StartedAt m) @
      time_field ''completed_at'' (CompletedAt m) @
      int_field ''retry_count'' (sint (RetryCount m)) @
      str_field ''last_error'' (LastError m) @
      str_field ''worker_id'' (WorkerID m) @
      str_field ''consumer_group'' (ConsumerGroup m) @
      str_field ''trace_id'' (TraceID m) @
      str_field ''stream_msg_id'' (StreamMsgID m))"

definition json_task :: "TaskProto \<Rightarrow> json" where
  "json_task t = JObj
     ([(''id'', JStr (ID t)), (''type'', JStr (Type t))] @
      payload_field ''payload'' (Payload t) @
      (case Options t of None \<Rightarrow> [] | Some r \<Rightarrow> [(''options'', json_options r)]) @
      (case Metadata t of None \<Rightarrow> [] | Some m \<Rightarrow> [(''metadata'', json_metadata m)]))"

text \<open>Years 0 to 9999: from -62167219200 to 253402300799 seconds after the epoch.\<close>

definition time_printable :: "time option \<Rightarrow> bool" where
  "time_printable t = (case t of None \<Rightarrow> True
     | Some x \<Rightarrow> -62167219200 \<le> unix x \<and> unix x \<le> 253402300799)"

definition times_printable :: "TaskProto \<Rightarrow> bool" where
  "times_printable t =
     ((case Options t of None \<Rightarrow> True | Some r \<Rightarrow> time_printable (ProcessAt r)) \<and>
      (case Metadata t of None \<Rightarrow> True | Some m \<Rightarrow>
         time_printable (CreatedAt m) \<and> time_printable (StartedAt m) \<and> time_printable (CompletedAt m)))"

definition payload_valid :: "TaskProto \<Rightarrow> bool" where
  "payload_valid t = (case Payload t of RawInvalid s \<Rightarrow> False | _ \<Rightarrow> True)"

definition marshal_task :: "TaskProto \<Rightarrow> go_error + json" where
  "marshal_task t =
     (if \<not> payload_valid t then Inl (ErrText ''json: error calling MarshalJSON for type json.RawMessage'')
      else if \<not> times_printable t then Inl (ErrText ''json: error calling MarshalJSON for type *time.Time'')
      else Inr (json_task t))"

section \<open>Unmarshalling\<close>

definition lower_char :: "char \<Rightarrow> char" where
  "lower_char c = (let n = of_char c :: nat in if 65 \<le> n \<and> n \<le> 90 then char_of (n + 32) else c)"

definition fold_key :: "string \<Rightarrow> string" where
  "fold_key k = map lower_char k"

fun dec_str :: "json \<Rightarrow> string \<Rightarrow> string option" where
  "dec_str (JStr s) old = Some s"
| "dec_str JNull old = Some old"
| "dec_str _ old = None"

fun dec_i32 :: "json \<Rightarrow> i32 \<Rightarrow> i32 option" where
  "dec_i32 (JNum (JInt n)) old =
     (if - (2 ^ 31) \<le> n \<and> n < 2 ^ 31 then Some (word_of_int n) else None)"
| "dec_i32 JNull old = Some old"
| "dec_i32 _ old = None"

fun dec_i64 :: "json \<Rightarrow> i64 \<Rightarrow> i64 option" where
  "dec_i64 (JNum (JInt n)) old =
     (if - (2 ^ 63) \<le> n \<and> n < 2 ^ 63 then Some (word_of_int n) else None)"
| "dec_i64 JNull old = Some old"
| "dec_i64 _ old = None"

fun dec_time :: "json \<Rightarrow> time option \<Rightarrow> time option option" where
  "dec_time (JTime t) old = (if time_printable (Some t) then Some (Some t) else None)"
| "dec_time JNull old = Some None"
| "dec_time _ old = None"

text \<open>The fields of an object in the order of the text, each decoded into the struct so far.\<close>

fun decode_fields :: "(string \<Rightarrow> json \<Rightarrow> 's \<Rightarrow> 's option) \<Rightarrow> (string \<times> json) list \<Rightarrow> 's \<Rightarrow> 's option" where
  "decode_fields f [] s = Some s"
| "decode_fields f ((k, j) # kvs) s = Option.bind (f (fold_key k) j s) (decode_fields f kvs)"

fun dec_entries :: "(string \<times> json) list \<Rightarrow> string gomap \<Rightarrow> string gomap option" where
  "dec_entries [] m = Some m"
| "dec_entries ((k, j) # kvs) m = Option.bind (dec_str j '''') (\<lambda>s. dec_entries kvs (map_put k s m))"

fun dec_labels :: "json \<Rightarrow> string gomap option \<Rightarrow> string gomap option option" where
  "dec_labels (JObj kvs) old =
     map_option Some (dec_entries kvs (case old of None \<Rightarrow> [] | Some m \<Rightarrow> m))"
| "dec_labels JNull old = Some None"
| "dec_labels _ old = None"

definition options_field :: "string \<Rightarrow> json \<Rightarrow> TaskOptions \<Rightarrow> TaskOptions option" where
  "options_field k j r =
     (if k = ''queue'' then map_option (\<lambda>x. r\<lparr>Queue := x\<rparr>) (dec_str j (Queue r))
      else if k = ''max_retry'' then map_option (\<lambda>x. r\<lparr>MaxRetry := x\<rparr>) (dec_i32 j (MaxRetry r))
      else if k = ''timeout'' then map_option (\<lambda>x. r\<lparr>Timeout := x\<rparr>) (dec_i64 j (Timeout r))
      else if k = ''process_at'' then map_option (\<lambda>x. r\<lparr>ProcessAt := x\<rparr>) (dec_time j (ProcessAt r))
      else if k = ''priority'' then map_option (\<lambda>x. r\<lparr>Priority := x\<rparr>) (dec_i32 j (Priority r))
      else if k = ''unique_key'' then map_option (\<lambda>x. r\<lparr>UniqueKey := x\<rparr>) (dec_str j (UniqueKey r))
      else if k = ''unique_ttl'' then map_option (\<lambda>x. r\<lparr>UniqueTTL := x\<rparr>) (dec_i64 j (UniqueTTL r))
      else if k = ''labels'' then map_option (\<lambda>x. r\<lparr>Labels := x\<rparr>) (dec_labels j (Labels r))
      else Some r)"

definition metadata_field :: "string \<Rightarrow> json \<Rightarrow> TaskMetadata \<Rightarrow> TaskMetadata option" where
  "metadata_field k j m =
     (if k = ''state'' then map_option (\<lambda>x. m\<lparr>State := x\<rparr>) (dec_str j (State m))
      else if k = ''created_at'' then map_option (\<lambda>x. m\<lparr>CreatedAt := x\<rparr>) (dec_time j (CreatedAt m))
      else if k = ''started_at'' then map_option (\<lambda>x. m\<lparr>StartedAt := x\<rparr>) (dec_time j (StartedAt m))
      else if k = ''completed_at'' then map_option (\<lambda>x. m\<lparr>CompletedAt := x\<rparr>) (dec_time j (CompletedAt m))
      else if k = ''retry_count'' then map_option (\<lambda>x. m\<lparr>RetryCount := x\<rparr>) (dec_i32 j (RetryCount m))
      else if k = ''last_error'' then map_option (\<lambda>x. m\<lparr>LastError := x\<rparr>) (dec_str j (LastError m))
      else if k = ''worker_id'' then map_option (\<lambda>x. m\<lparr>WorkerID := x\<rparr>) (dec_str j (WorkerID m))
      else if k = ''consumer_group'' then map_option (\<lambda>x. m\<lparr>ConsumerGroup := x\<rparr>) (dec_str j (ConsumerGroup m))
      else if k = ''trace_id'' then map_option (\<lambda>x. m\<lparr>TraceID := x\<rparr>) (dec_str j (TraceID m))
      else if k = ''stream_msg_id'' then map_option (\<lambda>x. m\<lparr>StreamMsgID := x\<rparr>) (dec_str j (StreamMsgID m))
      else Some m)"

fun dec_options :: "json \<Rightarrow> TaskOptions option \<Rightarrow> TaskOptions option option" where
  "dec_options (JObj kvs) old =
     map_option Some (decode_fields options_field kvs (case old of None \<Rightarrow> zero_options | Some r \<Rightarrow> r))"
| "dec_options JNull old = Some None"
| "dec_options _ old = None"

fun dec_metadata :: "json \<Rightarrow> TaskMetadata option \<Rightarrow> TaskMetadata option option" where
  "dec_metadata (JObj kvs) old =
     map_option Some (decode_fields metadata_field kvs (case old of None \<Rightarrow> zero_metadata | Some m \<Rightarrow> m))"
| "dec_metadata JNull old = Some None"
| "dec_metadata _ old = None"

definition task_field :: "string \<Rightarrow> json \<Rightarrow> TaskProto \<Rightarrow> TaskProto option" where
  "task_field k j t =
     (if k = ''id'' then map_option (\<lambda>x. t\<lparr>ID := x\<rparr>) (dec_str j (ID t))
      else if k = ''type'' then map_option (\<lambda>x. t\<lparr>Type := x\<rparr>) (dec_str j (Type t))
      else if k = ''payload'' then Some (t\<lparr>Payload := RawJson j\<rparr>)
      else if k = ''options'' then map_option (\<lambda>x. t\<lparr>Options := x\<rparr>) (dec_options j (Options t))
      else if k = ''metadata'' then map_option (\<lambda>x. t\<lparr>Metadata := x\<rparr>) (dec_metadata j (Metadata t))
      else Some t)"

text \<open>\<open>json.Unmarshal([]byte(data), task)\<close> into a fresh \<open>TaskProto\<close>.\<close>

fun unmarshal_task :: "bulk \<Rightarrow> go_error + TaskProto" where
  "unmarshal_task (PlainText s) = Inl (ErrText ''invalid character looking for beginning of value'')"
| "unmarshal_task (JsonText j) = (case j of
      JNull \<Rightarrow> Inr zero_proto
    | JObj kvs \<Rightarrow> (case decode_fields task_field kvs zero_proto of
          None \<Rightarrow> Inl (ErrText ''json: cannot unmarshal'')
        | Some t \<Rightarrow> Inr t)
    | _ \<Rightarrow> Inl (ErrText ''json: cannot unmarshal''))"

section \<open>The round trip\<close>

text \<open>
  What a task becomes on the wire and back: an empty non-nil label map is dropped. \<open>task_wf\<close> says
  that the label map is represented the way every operation of the model keeps it.
\<close>

definition norm_options :: "TaskOptions \<Rightarrow> TaskOptions" where
  "norm_options r = (if Labels r = Some [] then r\<lparr>Labels := None\<rparr> else r)"

definition norm_task :: "TaskProto \<Rightarrow> TaskProto" where
  "norm_task t = t\<lparr>Options := map_option norm_options (Options t)\<rparr>"

definition options_wf :: "TaskOptions \<Rightarrow> bool" where
  "options_wf r = (case Labels r of None \<Rightarrow> True | Some m \<Rightarrow> gomap_ok m)"

definition task_wf :: "TaskProto \<Rightarrow> bool" where
  "task_wf t = (case Options t of None \<Rightarrow> True | Some r \<Rightarrow> options_wf r)"

lemma fold_key_tags [simp]:
  "fold_key ''id'' = ''id''" "fold_key ''type'' = ''type''" "fold_key ''payload'' = ''payload''"
  "fold_key ''options'' = ''options''" "fold_key ''metadata'' = ''metadata''"
  "fold_key ''queue'' = ''queue''" "fold_key ''max_retry'' = ''max_retry''"
  "fold_key ''timeout'' = ''timeout''" "fold_key ''process_at'' = ''process_at''"
  "fold_key ''priority'' = ''priority''" "fold_key ''unique_key'' = ''unique_key''"
  "fold_key ''unique_ttl'' = ''unique_ttl''" "fold_key ''labels'' = ''labels''"
  "fold_key ''state'' = ''state''" "fold_key ''created_at'' = ''created_at''"
  "fold_key ''started_at'' = ''started_at''" "fold_key ''completed_at'' = ''completed_at''"
  "fold_key ''retry_count'' = ''retry_count''" "fold_key ''last_error'' = ''last_error''"
  "fold_key ''worker_id'' = ''worker_id''" "fold_key ''consumer_group'' = ''consumer_group''"
  "fold_key ''trace_id'' = ''trace_id''" "fold_key ''stream_msg_id'' = ''stream_msg_id''"
  by code_simp+

lemma decode_fields_append:
  "decode_fields f (kvs @ kvs') s = Option.bind (decode_fields f kvs s) (decode_fields f kvs')"
  by (induction f kvs s rule: decode_fields.induct) (auto split: Option.bind_splits)

text \<open>Decoding the field that \<open>str_field\<close> and its kin printed stores the value, printed or not.\<close>

lemma decode_str_field:
  assumes "f (fold_key k) (JStr x) s = Some s'" and "x = '''' \<Longrightarrow> s' = s"
  shows "decode_fields f (str_field k x @ kvs) s = decode_fields f kvs s'"
  using assms by (simp add: str_field_def)

lemma decode_i32_field:
  assumes "f (fold_key k) (JNum (JInt (sint (x :: i32)))) s = Some s'" and "x = 0 \<Longrightarrow> s' = s"
  shows "decode_fields f (int_field k (sint x) @ kvs) s = decode_fields f kvs s'"
  using assms by (simp add: int_field_def signed_eq_0_iff)

lemma decode_i64_field:
  assumes "f (fold_key k) (JNum (JInt (sint (x :: i64)))) s = Some s'" and "x = 0 \<Longrightarrow> s' = s"
  shows "decode_fields f (int_field k (sint x) @ kvs) s = decode_fields f kvs s'"
  using assms by (simp add: int_field_def signed_eq_0_iff)

lemma decode_time_field:
  assumes "time_printable x" and "\<And>t. time_printable (Some t) \<Longrightarrow> f (fold_key k) (JTime t) s = Some (upd t)"
  shows "decode_fields f (time_field k x @ kvs) s =
    decode_fields f kvs (case x of None \<Rightarrow> s | Some t \<Rightarrow> upd t)"
  using assms by (cases x) (simp_all add: time_field_def)

lemma dec_i32_sint [simp]: "dec_i32 (JNum (JInt (sint x))) old = Some x"
  using sint32_range [of x] by simp

lemma dec_i64_sint [simp]: "dec_i64 (JNum (JInt (sint x))) old = Some x"
  using sint64_range [of x] by simp

declare dec_i32.simps(1) [simp del] dec_i64.simps(1) [simp del]

lemma dec_entries_append:
  "dec_entries (kvs @ kvs') m = Option.bind (dec_entries kvs m) (dec_entries kvs')"
  by (induction kvs m rule: dec_entries.induct) (auto split: Option.bind_splits)

lemma dec_entries_print: "gomap_ok m \<Longrightarrow> dec_entries (map (\<lambda>(x, v). (x, JStr v)) m) [] = Some m"
proof (induction m rule: rev_induct)
  case Nil
  then show ?case by simp
next
  case (snoc p m)
  obtain k v where p: "p = (k, v)" by (cases p)
  from snoc.prems have "gomap_ok m" by (rule gomap_ok_take)
  with snoc p show ?case by (simp add: dec_entries_append map_put_last)
qed

lemma decode_labels_field:
  assumes "Labels r = None" and "case l of None \<Rightarrow> True | Some m \<Rightarrow> gomap_ok m"
  shows "decode_fields options_field (labels_field ''labels'' l) r =
    Some (r\<lparr>Labels := if l = Some [] then None else l\<rparr>)"
proof (cases l)
  case None
  have "r\<lparr>Labels := None\<rparr> = r" using assms(1) by (cases r) simp
  with None show ?thesis by (simp add: labels_field_def)
next
  case (Some m)
  have "r\<lparr>Labels := None\<rparr> = r" using assms(1) by (cases r) simp
  with Some assms show ?thesis
    by (simp add: labels_field_def options_field_def dec_entries_print)
qed

lemmas decode_print = decode_str_field decode_i32_field decode_i64_field decode_time_field decode_labels_field

lemma decode_options:
  assumes "options_wf r" and "time_printable (ProcessAt r)"
  shows "dec_options (json_options r) None = Some (Some (norm_options r))"
proof (cases r)
  case (fields q mr to pa pr uk ut l)
  with assms have "case l of None \<Rightarrow> True | Some m \<Rightarrow> gomap_ok m" and "time_printable pa"
    by (simp_all add: options_wf_def)
  with fields show ?thesis
    by (simp add: json_options_def zero_options_def norm_options_def decode_print options_field_def
        split: option.split)
qed

lemma decode_metadata:
  assumes "time_printable (CreatedAt m)" "time_printable (StartedAt m)" "time_printable (CompletedAt m)"
  shows "dec_metadata (json_metadata m) None = Some (Some m)"
proof (cases m)
  case (fields st ca sa co rc le wi cg ti sm)
  with assms have "time_printable ca" "time_printable sa" "time_printable co" by simp_all
  with fields show ?thesis
    using decode_str_field [of metadata_field "''stream_msg_id''" sm _ _ "[]"]
    by (simp add: json_metadata_def zero_metadata_def decode_print metadata_field_def
        split: option.split)
qed

lemma decode_json_task:
  assumes "task_wf t" and "payload_valid t" and "times_printable t"
  shows "unmarshal_task (JsonText (json_task t)) = Inr (norm_task t)"
proof (cases t)
  case (fields i ty p r m)
  with assms have "\<And>r'. r = Some r' \<Longrightarrow> options_wf r' \<and> time_printable (ProcessAt r')"
    and "\<And>s. p \<noteq> RawInvalid s"
    and "\<And>m'. m = Some m' \<Longrightarrow> time_printable (CreatedAt m') \<and> time_printable (StartedAt m') \<and>
      time_printable (CompletedAt m')"
    by (auto simp: task_wf_def payload_valid_def times_printable_def)
  with fields show ?thesis
    by (cases p; cases r; cases m)
      (simp_all add: json_task_def zero_proto_def norm_task_def payload_field_def task_field_def
        decode_options decode_metadata)
qed



lemma marshal_Inr: "marshal_task t = Inr j \<longleftrightarrow> payload_valid t \<and> times_printable t \<and> j = json_task t"
  by (auto simp: marshal_task_def)

text \<open>What unmarshals is well formed and marshals again: the decoders refuse everything else.\<close>

lemma decode_fields_invariant:
  assumes "\<And>k j s s'. f k j s = Some s' \<Longrightarrow> P s \<Longrightarrow> P s'"
  shows "decode_fields f kvs s = Some s' \<Longrightarrow> P s \<Longrightarrow> P s'"
proof (induction kvs arbitrary: s)
  case Nil
  then show ?case by simp
next
  case (Cons kv kvs)
  obtain k j where kv: "kv = (k, j)" by (cases kv)
  with Cons.prems obtain s1 where s1: "f (fold_key k) j s = Some s1" "decode_fields f kvs s1 = Some s'"
    by (auto simp: Option.bind_eq_Some_conv)
  from assms [OF s1(1) Cons.prems(2)] have "P s1" .
  with Cons.IH s1(2) show ?case by blast
qed

lemma dec_time_printable: "dec_time j old = Some x \<Longrightarrow> time_printable x"
  by (cases "(j, old)" rule: dec_time.cases) (auto simp: time_printable_def split: if_splits)

lemma dec_entries_ok: "dec_entries kvs m = Some m' \<Longrightarrow> gomap_ok m \<Longrightarrow> gomap_ok m'"
  by (induction kvs m rule: dec_entries.induct) (auto simp: Option.bind_eq_Some_conv gomap_ok_map_put)

definition options_good :: "TaskOptions \<Rightarrow> bool" where
  "options_good r \<longleftrightarrow> options_wf r \<and> time_printable (ProcessAt r)"

definition metadata_good :: "TaskMetadata \<Rightarrow> bool" where
  "metadata_good m \<longleftrightarrow>
     time_printable (CreatedAt m) \<and> time_printable (StartedAt m) \<and> time_printable (CompletedAt m)"

definition task_good :: "TaskProto \<Rightarrow> bool" where
  "task_good t \<longleftrightarrow> task_wf t \<and> payload_valid t \<and> times_printable t"

lemma dec_labels_ok:
  "dec_labels j l = Some l' \<Longrightarrow> case l of None \<Rightarrow> True | Some m \<Rightarrow> gomap_ok m \<Longrightarrow>
   case l' of None \<Rightarrow> True | Some m \<Rightarrow> gomap_ok m"
  by (cases "(j, l)" rule: dec_labels.cases) (auto dest!: dec_entries_ok split: option.splits)

lemma options_field_good: "options_field k j r = Some r' \<Longrightarrow> options_good r \<Longrightarrow> options_good r'"
  using dec_labels_ok [of j "Labels r"]
  by (auto simp: options_field_def options_good_def options_wf_def split: if_splits
      dest: dec_time_printable)

lemma metadata_field_good: "metadata_field k j m = Some m' \<Longrightarrow> metadata_good m \<Longrightarrow> metadata_good m'"
  by (auto simp: metadata_field_def metadata_good_def split: if_splits dest: dec_time_printable)

lemma task_good_iff:
  "task_good t \<longleftrightarrow> payload_valid t \<and>
     (case Options t of None \<Rightarrow> True | Some r \<Rightarrow> options_good r) \<and>
     (case Metadata t of None \<Rightarrow> True | Some m \<Rightarrow> metadata_good m)"
  by (auto simp: task_good_def task_wf_def times_printable_def options_good_def metadata_good_def
      split: option.splits)

lemma zero_good: "options_good zero_options" "metadata_good zero_metadata"
  by (simp_all add: options_good_def metadata_good_def options_wf_def time_printable_def
      zero_options_def zero_metadata_def)

lemma dec_options_good:
  "dec_options j r = Some r' \<Longrightarrow> case r of None \<Rightarrow> True | Some x \<Rightarrow> options_good x \<Longrightarrow>
   case r' of None \<Rightarrow> True | Some x \<Rightarrow> options_good x"
  by (cases "(j, r)" rule: dec_options.cases)
    (auto simp: zero_good dest!: decode_fields_invariant [where P = options_good, rotated]
      intro: options_field_good split: option.splits)

lemma dec_metadata_good:
  "dec_metadata j m = Some m' \<Longrightarrow> case m of None \<Rightarrow> True | Some x \<Rightarrow> metadata_good x \<Longrightarrow>
   case m' of None \<Rightarrow> True | Some x \<Rightarrow> metadata_good x"
  by (cases "(j, m)" rule: dec_metadata.cases)
    (auto simp: zero_good dest!: decode_fields_invariant [where P = metadata_good, rotated]
      intro: metadata_field_good split: option.splits)

lemma task_field_good: "task_field k j t = Some t' \<Longrightarrow> task_good t \<Longrightarrow> task_good t'"
  using dec_options_good [of j "Options t"] dec_metadata_good [of j "Metadata t"]
  by (auto simp: task_field_def task_good_iff payload_valid_def split: if_splits)

lemma unmarshal_good: "unmarshal_task b = Inr t \<Longrightarrow> task_good t"
proof -
  assume "unmarshal_task b = Inr t"
  moreover have zero: "task_good zero_proto"
    by (simp add: task_good_iff zero_proto_def payload_valid_def)
  moreover have "decode_fields task_field kvs zero_proto = Some t \<Longrightarrow> task_good t" for kvs
    by (rule decode_fields_invariant [where f = task_field and P = task_good, OF _ _ zero])
      (auto intro: task_field_good)
  ultimately show ?thesis
    by (cases b rule: unmarshal_task.cases) (auto split: json.splits option.splits)
qed

declare unmarshal_task.simps [simp del]

lemma good_marshals: "task_good t \<Longrightarrow> marshal_task t = Inr (json_task t)"
  by (simp add: task_good_def marshal_Inr)

text \<open>
  C20. A task that marshals comes back from its own text unchanged, except that an empty label map
  comes back as no map; every integer, time and string of the options and the metadata survives.
\<close>

theorem marshal_unmarshal:
  assumes "task_wf t" and "marshal_task t = Inr j"
  shows "unmarshal_task (JsonText j) = Inr (norm_task t)"
  using assms by (simp add: marshal_Inr decode_json_task)

definition demo_task :: TaskProto where
  "demo_task = \<lparr>ID = ''t1'', Type = ''email:send'', Payload = RawJson (JObj [(''to'', JStr ''u'')]),
     Options = Some (zero_options\<lparr>Queue := ''critical'', MaxRetry := 5, Timeout := dur 30000000000,
       ProcessAt := Some 1700000000000000000, Labels := Some [(''a'', ''1''), (''b'', ''2'')]\<rparr>),
     Metadata = Some (zero_metadata\<lparr>State := TaskStatePending, CreatedAt := Some 1600000000000000000\<rparr>)\<rparr>"

lemma demo_task_wf [simp]: "task_wf demo_task"
  by (simp add: task_wf_def options_wf_def demo_task_def zero_options_def gomap_ok_def)

lemma demo_task_marshals [simp]: "marshal_task demo_task = Inr (json_task demo_task)"
  by (simp add: marshal_task_def payload_valid_def times_printable_def time_printable_def demo_task_def
      zero_options_def zero_metadata_def unix_def Second_def)

theorem marshal_unmarshal_witness:
  "marshal_task demo_task = Inr (json_task demo_task) \<and>
   unmarshal_task (JsonText (json_task demo_task)) = Inr (norm_task demo_task)"
  using marshal_unmarshal [OF demo_task_wf demo_task_marshals] by simp

end
