(* ===== verification/Task_Api.thy ===== *)
theory Task_Api
  imports Json_Codec
begin

text \<open>
  \<^verbatim>\<open>task.go\<close>: making a task, reading it through the nil checks of the accessors, and the options.
  A \<open>Task\<close> is a pointer to its \<open>TaskProto\<close>, so an option is a function from the proto to the changed
  proto. A fresh identifier (\<open>uuid.NewString\<close>) and the clock are arguments.
\<close>

type_synonym TaskOption = "TaskProto \<Rightarrow> TaskProto"

section \<open>Constructors\<close>

definition new_proto :: "string \<Rightarrow> time \<Rightarrow> string \<Rightarrow> RawMessage \<Rightarrow> TaskProto" where
  "new_proto uuid now taskType payload = \<lparr>ID = uuid, Type = taskType, Payload = payload,
     Options = Some (zero_options\<lparr>Queue := ''default'', MaxRetry := 3\<rparr>),
     Metadata = Some (zero_metadata\<lparr>State := TaskStatePending, CreatedAt := Some now\<rparr>)\<rparr>"

definition NewTaskFromBytes ::
  "string \<Rightarrow> time \<Rightarrow> string \<Rightarrow> RawMessage \<Rightarrow> TaskOption list \<Rightarrow> TaskProto" where
  "NewTaskFromBytes uuid now taskType payload opts =
     fold (\<lambda>opt t. opt t) opts (new_proto uuid now taskType payload)"

text \<open>\<open>marshalled\<close> is what \<open>json.Marshal(payload)\<close> returns for the caller's value.\<close>

definition NewTask ::
  "string \<Rightarrow> time \<Rightarrow> string \<Rightarrow> (go_error + json) \<Rightarrow> TaskOption list \<Rightarrow> go_error + TaskProto" where
  "NewTask uuid now taskType marshalled opts = (case marshalled of
      Inl err \<Rightarrow> Inl err
    | Inr data \<Rightarrow> Inr (fold (\<lambda>opt t. opt t) opts (new_proto uuid now taskType (RawJson data))))"

section \<open>Accessors\<close>

definition task_Queue :: "TaskProto \<Rightarrow> string" where
  "task_Queue t = (case Options t of
      None \<Rightarrow> ''default''
    | Some r \<Rightarrow> if Queue r \<noteq> '''' then Queue r else ''default'')"

definition task_State :: "TaskProto \<Rightarrow> TaskState" where
  "task_State t = (case Metadata t of None \<Rightarrow> TaskStatePending | Some m \<Rightarrow> State m)"

definition task_RetryCount :: "TaskProto \<Rightarrow> int" where
  "task_RetryCount t = (case Metadata t of None \<Rightarrow> 0 | Some m \<Rightarrow> sint (RetryCount m))"

definition task_MaxRetry :: "TaskProto \<Rightarrow> int" where
  "task_MaxRetry t = (case Options t of None \<Rightarrow> 3 | Some r \<Rightarrow> sint (MaxRetry r))"

definition task_LastError :: "TaskProto \<Rightarrow> string" where
  "task_LastError t = (case Metadata t of None \<Rightarrow> '''' | Some m \<Rightarrow> LastError m)"

definition task_Labels :: "TaskProto \<Rightarrow> string gomap option" where
  "task_Labels t = (case Options t of None \<Rightarrow> None | Some r \<Rightarrow> Labels r)"

section \<open>Options\<close>

definition with_options :: "(TaskOptions \<Rightarrow> TaskOptions) \<Rightarrow> TaskOption" where
  "with_options f t = t\<lparr>Options := Some (f (options_or_zero t))\<rparr>"

definition WithQueue :: "string \<Rightarrow> TaskOption" where
  "WithQueue queue = with_options (\<lambda>r. r\<lparr>Queue := queue\<rparr>)"

text \<open>\<open>int32(n)\<close> keeps the low 32 bits of the \<open>int\<close>.\<close>

definition WithMaxRetry :: "int \<Rightarrow> TaskOption" where
  "WithMaxRetry n = with_options (\<lambda>r. r\<lparr>MaxRetry := word_of_int n\<rparr>)"

definition WithTimeout :: "duration \<Rightarrow> TaskOption" where
  "WithTimeout d = with_options (\<lambda>r. r\<lparr>Timeout := d\<rparr>)"

definition WithProcessAt :: "time \<Rightarrow> TaskOption" where
  "WithProcessAt at t =
     (let t1 = with_options (\<lambda>r. r\<lparr>ProcessAt := Some at\<rparr>) t
      in t1\<lparr>Metadata := Some ((metadata_or_zero t1)\<lparr>State := TaskStateScheduled\<rparr>)\<rparr>)"

definition WithProcessIn :: "time \<Rightarrow> duration \<Rightarrow> TaskOption" where
  "WithProcessIn now d = WithProcessAt (now + sint d)"

definition WithPriority :: "int \<Rightarrow> TaskOption" where
  "WithPriority priority = with_options (\<lambda>r. r\<lparr>Priority := word_of_int priority\<rparr>)"

definition WithUniqueKey :: "string \<Rightarrow> duration \<Rightarrow> TaskOption" where
  "WithUniqueKey key ttl = with_options (\<lambda>r. r\<lparr>UniqueKey := key, UniqueTTL := ttl\<rparr>)"

definition WithLabels :: "string gomap option \<Rightarrow> TaskOption" where
  "WithLabels labels = with_options (\<lambda>r. r\<lparr>Labels := labels\<rparr>)"

definition WithLabel :: "string \<Rightarrow> string \<Rightarrow> TaskOption" where
  "WithLabel key val = with_options (\<lambda>r.
     r\<lparr>Labels := Some (map_put key val (case Labels r of None \<Rightarrow> [] | Some m \<Rightarrow> m))\<rparr>)"

text \<open>The options this package exports; \<open>WithLabels\<close> takes any Go map.\<close>

inductive task_option :: "TaskOption \<Rightarrow> bool" where
  "task_option (WithQueue q)"
| "task_option (WithMaxRetry n)"
| "task_option (WithTimeout d)"
| "task_option (WithProcessAt at)"
| "task_option (WithProcessIn now d)"
| "task_option (WithPriority p)"
| "task_option (WithUniqueKey k ttl)"
| "(\<And>m. labels = Some m \<Longrightarrow> gomap_ok m) \<Longrightarrow> task_option (WithLabels labels)"
| "task_option (WithLabel k v)"

lemmas task_option_defs =
  WithQueue_def WithMaxRetry_def WithTimeout_def WithProcessAt_def WithProcessIn_def
  WithPriority_def WithUniqueKey_def WithLabels_def WithLabel_def with_options_def

section \<open>What options keep\<close>

definition same_identity :: "TaskProto \<Rightarrow> TaskProto \<Rightarrow> bool" where
  "same_identity t t' \<longleftrightarrow> ID t' = ID t \<and> Type t' = Type t \<and> Payload t' = Payload t"

text \<open>What holds of every task the constructors make: both structs are there, the label map is
  well formed and a task has \<open>ProcessAt\<close> exactly when its state is scheduled.\<close>

definition task_built :: "TaskProto \<Rightarrow> bool" where
  "task_built t \<longleftrightarrow> task_wf t \<and>
     (\<exists>r m. Options t = Some r \<and> Metadata t = Some m \<and> RetryCount m = 0 \<and>
        State m = (if ProcessAt r = None then TaskStatePending else TaskStateScheduled))"

lemma options_wf_or_zero: "task_wf t \<Longrightarrow> options_wf (options_or_zero t)"
  by (auto simp: task_wf_def options_or_zero_def options_wf_def zero_options_def split: option.splits)

lemma task_option_identity: "task_option f \<Longrightarrow> same_identity t (f t)"
  by (induction f rule: task_option.induct) (auto simp: same_identity_def task_option_defs Let_def)

lemma task_option_built: "task_option f \<Longrightarrow> task_built t \<Longrightarrow> task_built (f t)"
proof (induction f rule: task_option.induct)
  case (9 k v)
  then show ?case
    by (auto simp: task_built_def task_option_defs task_wf_def options_wf_def options_or_zero_def
        intro!: gomap_ok_map_put split: option.splits)
qed (auto simp: task_built_def task_option_defs Let_def task_wf_def options_wf_def options_or_zero_def
    metadata_or_zero_def split: option.splits)

lemma fold_options_built:
  "list_all task_option opts \<Longrightarrow> task_built t \<Longrightarrow>
   task_built (fold (\<lambda>opt t. opt t) opts t) \<and> same_identity t (fold (\<lambda>opt t. opt t) opts t)"
proof (induction opts arbitrary: t)
  case Nil
  then show ?case by (simp add: same_identity_def)
next
  case (Cons f opts)
  then have "task_built (f t)" and "same_identity t (f t)"
    by (auto intro: task_option_built task_option_identity)
  with Cons show ?case by (auto simp: same_identity_def)
qed

lemma new_proto_built: "task_built (new_proto uuid now ty p)"
  by (simp add: task_built_def new_proto_def task_wf_def options_wf_def zero_options_def zero_metadata_def)

text \<open>
  Every task built by a constructor with any sequence of the package's options carries the
  identifier, type and payload it was given, has both its option and its metadata struct, is in state
  scheduled when a process time was set and pending when none was, and has used no retry.
\<close>

theorem NewTaskFromBytes_built:
  assumes "list_all task_option opts"
  shows "let t = NewTaskFromBytes uuid now ty p opts in
    ID t = uuid \<and> Type t = ty \<and> Payload t = p \<and> task_built t"
  using fold_options_built [OF assms new_proto_built, of uuid now ty p]
  by (simp add: NewTaskFromBytes_def Let_def same_identity_def new_proto_def)

theorem NewTaskFromBytes_built_witness:
  "let t = NewTaskFromBytes ''u1'' 5 ''email'' RawEmpty [WithMaxRetry 7, WithProcessAt 9] in
     ID t = ''u1'' \<and> Type t = ''email'' \<and> Payload t = RawEmpty \<and> task_built t"
  by (rule NewTaskFromBytes_built) (simp add: task_option.intros)

end
