(* ===== verification/Serve_Mux.thy ===== *)
theory Serve_Mux
  imports Task_Types
begin

text \<open>
  \<^verbatim>\<open>handler.go\<close>: the task handlers by task type. Registration panics on a nil handler, on an empty
  type and on a type registered before; looking up an unknown type gives nil (\<open>None\<close>).
\<close>

record 'h ServeMux =
  handlers :: "'h gomap"

definition NewServeMux :: "'h ServeMux" where
  "NewServeMux = \<lparr>handlers = []\<rparr>"

definition mux_Handle :: "string \<Rightarrow> 'h option \<Rightarrow> 'h ServeMux \<Rightarrow> 'h ServeMux outcome" where
  "mux_Handle taskType handler m = (case handler of
      None \<Rightarrow> Panic ''strego: nil handler''
    | Some h \<Rightarrow>
        if taskType = '''' then Panic ''strego: empty task type''
        else if map_of (handlers m) taskType \<noteq> None
        then Panic (''strego: multiple registrations for '' @ taskType)
        else Ret (m\<lparr>handlers := map_put taskType h (handlers m)\<rparr>))"

definition mux_Handler :: "'h ServeMux \<Rightarrow> string \<Rightarrow> 'h option" where
  "mux_Handler m taskType = map_of (handlers m) taskType"

definition mux_Types :: "'h ServeMux \<Rightarrow> string list" where
  "mux_Types m = map fst (handlers m)"

text \<open>A program's registrations, in order; the first panic stops it.\<close>

fun mux_register :: "(string \<times> 'h option) list \<Rightarrow> 'h ServeMux \<Rightarrow> 'h ServeMux outcome" where
  "mux_register [] m = Ret m"
| "mux_register ((ty, h) # regs) m = (case mux_Handle ty h m of
      Panic s \<Rightarrow> Panic s
    | Ret m' \<Rightarrow> mux_register regs m')"

definition mux_ok :: "'h ServeMux \<Rightarrow> bool" where
  "mux_ok m \<longleftrightarrow> gomap_ok (handlers m) \<and> '''' \<notin> set (map fst (handlers m))"

lemma mux_Handle_Ret_iff:
  "mux_Handle ty h m = Ret m' \<longleftrightarrow>
     (\<exists>f. h = Some f \<and> ty \<noteq> '''' \<and> mux_Handler m ty = None \<and>
          m' = m\<lparr>handlers := map_put ty f (handlers m)\<rparr>)"
  by (auto simp: mux_Handle_def mux_Handler_def split: option.splits)

lemma mux_Handler_New [simp]: "mux_Handler NewServeMux ty = None"
  by (simp add: mux_Handler_def NewServeMux_def)

lemma mux_Handle_ok: "mux_ok m \<Longrightarrow> mux_Handle ty h m = Ret m' \<Longrightarrow> mux_ok m'"
  unfolding mux_Handle_Ret_iff mux_ok_def by (elim exE conjE) (simp add: gomap_ok_map_put)

lemma mux_Handle_lookup:
  "mux_Handle ty h m = Ret m' \<Longrightarrow> mux_Handler m' ty' = (if ty' = ty then h else mux_Handler m ty')"
  by (auto simp: mux_Handle_Ret_iff mux_Handler_def)

lemma mux_register_lookup:
  "mux_register regs m = Ret m' \<Longrightarrow> mux_ok m \<Longrightarrow>
     mux_ok m' \<and> distinct (map fst regs) \<and>
     (\<forall>ty. mux_Handler m' ty = (case map_of regs ty of None \<Rightarrow> mux_Handler m ty | Some h \<Rightarrow> h)) \<and>
     (\<forall>ty \<in> set (map fst regs). mux_Handler m ty = None)"
proof (induction regs arbitrary: m)
  case Nil
  then show ?case by simp
next
  case (Cons r regs)
  obtain ty h where r: "r = (ty, h)" by (cases r)
  from Cons.prems r obtain m1 where m1: "mux_Handle ty h m = Ret m1" and reg: "mux_register regs m1 = Ret m'"
    by (auto split: outcome.splits)
  have ih: "mux_ok m' \<and> distinct (map fst regs) \<and>
     (\<forall>ty. mux_Handler m' ty = (case map_of regs ty of None \<Rightarrow> mux_Handler m1 ty | Some h \<Rightarrow> h)) \<and>
     (\<forall>ty \<in> set (map fst regs). mux_Handler m1 ty = None)"
    by (rule Cons.IH [OF reg mux_Handle_ok [OF Cons.prems(2) m1]])
  from m1 have h: "h \<noteq> None" and none: "mux_Handler m ty = None"
    by (auto simp: mux_Handle_Ret_iff)
  have lk: "mux_Handler m1 ty' = (if ty' = ty then h else mux_Handler m ty')" for ty'
    by (rule mux_Handle_lookup [OF m1])
  with ih h have notin: "ty \<notin> set (map fst regs)" by auto
  have "mux_Handler m' ty' = (case map_of (r # regs) ty' of None \<Rightarrow> mux_Handler m ty' | Some h' \<Rightarrow> h')" for ty'
  proof (cases "ty' = ty")
    case True
    from notin have "map_of regs ty = None" by (simp add: map_of_eq_None_iff)
    with ih lk True r show ?thesis by simp
  next
    case False
    with ih lk r show ?thesis by (simp split: option.split)
  qed
  moreover have "\<forall>ty' \<in> set (map fst (r # regs)). mux_Handler m ty' = None"
  proof
    fix ty' assume "ty' \<in> set (map fst (r # regs))"
    then consider "ty' = ty" | "ty' \<in> set (map fst regs)" using r by auto
    then show "mux_Handler m ty' = None"
    proof cases
      case 1
      with none show ?thesis by simp
    next
      case 2
      with notin have "ty' \<noteq> ty" by auto
      with 2 ih have "mux_Handler m1 ty' = None" by blast
      with lk \<open>ty' \<noteq> ty\<close> show ?thesis by simp
    qed
  qed
  ultimately show ?case using ih notin r by simp
qed

lemma mux_register_some:
  "mux_register regs m = Ret m' \<Longrightarrow> (ty, h) \<in> set regs \<Longrightarrow> h \<noteq> None"
  by (induction regs m rule: mux_register.induct)
    (auto simp: mux_Handle_Ret_iff split: outcome.splits)

text \<open>
  A multiplexer that a program filled without a panic dispatches every registered type to the
  handler given for it and every other type to nil; no type was registered twice, none is empty, and
  \<open>Types\<close> lists exactly the registered ones, each once.
\<close>

theorem mux_register_dispatch:
  assumes "mux_register regs NewServeMux = Ret m"
  shows "mux_Handler m ty = (case map_of regs ty of None \<Rightarrow> None | Some h \<Rightarrow> h) \<and>
    distinct (map fst regs) \<and> '''' \<notin> set (mux_Types m) \<and> distinct (mux_Types m) \<and>
    set (mux_Types m) = set (map fst regs)"
proof -
  have ok: "mux_ok (NewServeMux :: 'a ServeMux)" by (simp add: mux_ok_def NewServeMux_def)
  have reg: "mux_ok m \<and> distinct (map fst regs)"
    and lk: "\<And>ty. mux_Handler m ty = (case map_of regs ty of None \<Rightarrow> None | Some h \<Rightarrow> h)"
    using mux_register_lookup [OF assms ok] by (simp_all split: option.split)
  have "ty \<in> set (mux_Types m) \<longleftrightarrow> ty \<in> set (map fst regs)" for ty
  proof -
    have "ty \<in> set (mux_Types m) \<longleftrightarrow> mux_Handler m ty \<noteq> None"
      by (simp add: mux_Types_def mux_Handler_def map_of_eq_None_iff)
    also have "\<dots> \<longleftrightarrow> map_of regs ty \<noteq> None"
      using mux_register_some [OF assms] by (auto simp: lk split: option.splits dest: map_of_SomeD)
    also have "\<dots> \<longleftrightarrow> ty \<in> set (map fst regs)" by (simp add: map_of_eq_None_iff)
    finally show ?thesis .
  qed
  then have "set (mux_Types m) = set (map fst regs)" by blast
  with reg lk show ?thesis
    by (auto simp: mux_ok_def mux_Types_def gomap_ok_distinct)
qed

theorem mux_register_dispatch_witness:
  "mux_Handler (NewServeMux\<lparr>handlers := [(''a'', 1), (''b'', 2)]\<rparr>) ''b'' = Some (2 :: nat)"
  using mux_register_dispatch [of "[(''b'', Some 2), (''a'', Some (1 :: nat))]" _ "''b''"]
  by (simp add: mux_Handle_def NewServeMux_def)

end
