(* ===== verification/Json_Canon.thy ===== *)
theory Json_Canon
  imports Json_Codec "HOL-Library.Multiset"
begin

text \<open>
  JSON values up to the order of the fields of an object: \<open>canon\<close> sorts the fields by name, and two
  values are the same when their canonical forms are equal. A task decodes to the same task, up to the
  order inside its payload, from every text that is the same in this sense, as long as no field name is
  repeated. The Lua scripts, whose tables have no order, need this.
\<close>

section \<open>The canonical form\<close>

fun canon :: "json \<Rightarrow> json" where
  "canon (JArr js) = JArr (map canon js)"
| "canon (JObj kvs) = JObj (sort_key fst (map (\<lambda>(k, j). (k, canon j)) kvs))"
| "canon j = j"

definition json_same :: "json \<Rightarrow> json \<Rightarrow> bool" where
  "json_same j j' \<longleftrightarrow> canon j = canon j'"

definition canon_field :: "string \<times> json \<Rightarrow> string \<times> json" where
  "canon_field = (\<lambda>(k, j). (k, canon j))"

lemma canon_JObj: "canon (JObj kvs) = JObj (sort_key fst (map canon_field kvs))"
  by (simp add: canon_field_def)

declare canon.simps(2) [simp del] canon_JObj [simp]

lemma fst_canon_field [simp]: "fst (canon_field x) = fst x" and snd_canon_field [simp]: "snd (canon_field x) = canon (snd x)"
  by (simp_all add: canon_field_def split: prod.split)

lemma fst_o_canon_field [simp]: "fst \<circ> canon_field = fst"
  by (simp add: fun_eq_iff)

lemma sort_key_distinct_eq:
  assumes "set xs = set ys" and "distinct (map fst xs)" and "distinct (map fst ys)"
  shows "sort_key fst xs = sort_key fst (ys :: (string \<times> 'a) list)"
proof (rule map_sorted_distinct_set_unique [where f = fst])
  show "inj_on fst (set (sort_key fst xs) \<union> set (sort_key fst ys))"
    using assms by (simp add: distinct_map)
  show "distinct (map fst (sort_key fst xs))" "distinct (map fst (sort_key fst ys))"
    using assms by (simp_all add: distinct_map)
qed (use assms in simp_all)

text \<open>Two objects without repeated names are the same when they have the same fields.\<close>

lemma json_same_JObj:
  assumes "distinct (map fst kvs)"
  shows "json_same (JObj kvs) (JObj kvs') \<longleftrightarrow>
    distinct (map fst kvs') \<and> set (map canon_field kvs) = set (map canon_field kvs')"
proof
  assume "json_same (JObj kvs) (JObj kvs')"
  then have eq: "sort_key fst (map canon_field kvs) = sort_key fst (map canon_field kvs')"
    by (simp add: json_same_def)
  then have "mset (map canon_field kvs) = mset (map canon_field kvs')" by (metis mset_sort)
  then have m: "mset (map fst (map canon_field kvs)) = mset (map fst (map canon_field kvs'))"
    and s: "set (map canon_field kvs) = set (map canon_field kvs')"
    by (metis mset_map, metis set_mset_mset)
  from m have "mset (map fst kvs) = mset (map fst kvs')" by simp
  with assms have "distinct (map fst kvs')" using mset_eq_imp_distinct_iff by blast
  with s show "distinct (map fst kvs') \<and> set (map canon_field kvs) = set (map canon_field kvs')" by blast
next
  assume r: "distinct (map fst kvs') \<and> set (map canon_field kvs) = set (map canon_field kvs')"
  have "sort_key fst (map canon_field kvs) = sort_key fst (map canon_field kvs')"
    by (rule sort_key_distinct_eq) (use r assms in simp_all)
  then show "json_same (JObj kvs) (JObj kvs')" by (simp add: json_same_def)
qed

lemma json_same_refl [simp]: "json_same j j"
  and json_same_sym: "json_same j j' \<Longrightarrow> json_same j' j"
  and json_same_trans: "json_same j j' \<Longrightarrow> json_same j' j'' \<Longrightarrow> json_same j j''"
  by (simp_all add: json_same_def)

lemma json_same_JObjD: "json_same (JObj kvs) j \<Longrightarrow> \<exists>kvs'. j = JObj kvs'"
  by (cases j) (auto simp: json_same_def)

lemma json_same_field:
  assumes "json_same (JObj kvs) (JObj kvs')" and "distinct (map fst kvs)"
  shows "rel_option json_same (map_of kvs k) (map_of kvs' k)"
proof -
  have d: "distinct (map fst kvs')" and s: "set (map canon_field kvs) = set (map canon_field kvs')"
    using assms json_same_JObj by blast+
  have "map_of (map canon_field xs) k = map_option canon (map_of xs k)" for xs
    by (induction xs) (auto simp: canon_field_def)
  moreover have "map_of (map canon_field kvs) = map_of (map canon_field kvs')"
    using s d assms(2) by (subst map_of_inject_set) simp_all
  ultimately have "map_option canon (map_of kvs k) = map_option canon (map_of kvs' k)" by metis
  then show ?thesis
    by (cases "map_of kvs k"; cases "map_of kvs' k") (auto simp: json_same_def)
qed

section \<open>Decoding does not see the order\<close>

text \<open>Fields with different names are decoded into different places.\<close>

definition commuting :: "(string \<Rightarrow> json \<Rightarrow> 's \<Rightarrow> 's option) \<Rightarrow> bool" where
  "commuting f \<longleftrightarrow> (\<forall>k j k' j' s. k \<noteq> k' \<longrightarrow>
     Option.bind (f k j s) (f k' j') = Option.bind (f k' j' s) (f k j))"

abbreviation field_keys :: "(string \<times> json) list \<Rightarrow> string list" where
  "field_keys kvs \<equiv> map (\<lambda>x. fold_key (fst x)) kvs"

lemma decode_fields_Cons:
  "decode_fields f ((k, j) # kvs) = (\<lambda>s. Option.bind (f (fold_key k) j s) (decode_fields f kvs))"
  by (simp add: fun_eq_iff)

lemma decode_fields_move:
  assumes "commuting f" and "fold_key k \<notin> set (field_keys kvs)"
  shows "decode_fields f (kvs @ (k, j) # kvs') s = decode_fields f ((k, j) # kvs @ kvs') s"
  using assms(2)
proof (induction kvs arbitrary: s)
  case Nil
  then show ?case by simp
next
  case (Cons x kvs)
  obtain k1 j1 where x: "x = (k1, j1)" by (cases x)
  with Cons.prems have neq: "fold_key k1 \<noteq> fold_key k" and "fold_key k \<notin> set (field_keys kvs)" by auto
  with Cons.IH have ih: "decode_fields f (kvs @ (k, j) # kvs') = decode_fields f ((k, j) # kvs @ kvs')"
    by (auto simp: fun_eq_iff)
  have "Option.bind (f (fold_key k1) j1 s) (\<lambda>s. Option.bind (f (fold_key k) j s) g) =
      Option.bind (f (fold_key k) j s) (\<lambda>s. Option.bind (f (fold_key k1) j1 s) g)" for g
    using assms(1) neq unfolding commuting_def Option.bind_assoc [symmetric] by metis
  from this [of "decode_fields f (kvs @ kvs')"] show ?case by (simp add: x ih decode_fields_Cons)
qed

lemma decode_fields_mset:
  assumes "commuting f"
  shows "mset kvs = mset kvs' \<Longrightarrow> distinct (field_keys kvs) \<Longrightarrow> decode_fields f kvs s = decode_fields f kvs' s"
proof (induction kvs arbitrary: kvs' s)
  case Nil
  then show ?case by simp
next
  case (Cons x kvs)
  obtain k j where x: "x = (k, j)" by (cases x)
  from Cons.prems(1) have "x \<in> set kvs'" by (metis list.set_intros(1) set_mset_mset)
  then obtain us vs where split: "kvs' = us @ x # vs" by (meson split_list)
  with Cons.prems(1) have m: "mset kvs = mset (us @ vs)" by simp
  have "distinct (field_keys kvs')"
    using Cons.prems mset_eq_imp_distinct_iff [of "field_keys (x # kvs)" "field_keys kvs'"]
    by (metis mset_map)
  with split x have "fold_key k \<notin> set (field_keys us)" by auto
  then have "decode_fields f kvs' s = decode_fields f ((k, j) # us @ vs) s"
    unfolding split x by (rule decode_fields_move [OF assms])
  moreover have "decode_fields f kvs = decode_fields f (us @ vs)"
    using Cons.IH [OF m] Cons.prems(2) by (simp add: fun_eq_iff)
  ultimately show ?case by (simp add: x)
qed

text \<open>The fields of the structs as enumerations, so that the pairs of different fields can be tried out.\<close>

datatype options_tag = OQueue | OMaxRetry | OTimeout | OProcessAt | OPriority | OUniqueKey | OUniqueTTL | OLabels

datatype metadata_tag = MState | MCreatedAt | MStartedAt | MCompletedAt | MRetryCount | MLastError | MWorkerID
  | MConsumerGroup | MTraceID | MStreamMsgID

datatype task_tag = TID | TType | TPayload | TOptions | TMetadata

definition tag_of :: "(string \<times> 'a) list \<Rightarrow> string \<Rightarrow> 'a option" where
  "tag_of tags k = map_of tags k"

definition options_tags :: "(string \<times> options_tag) list" where
  "options_tags = [(''queue'', OQueue), (''max_retry'', OMaxRetry), (''timeout'', OTimeout), (''process_at'', OProcessAt),
     (''priority'', OPriority), (''unique_key'', OUniqueKey), (''unique_ttl'', OUniqueTTL), (''labels'', OLabels)]"

definition metadata_tags :: "(string \<times> metadata_tag) list" where
  "metadata_tags = [(''state'', MState), (''created_at'', MCreatedAt), (''started_at'', MStartedAt),
     (''completed_at'', MCompletedAt), (''retry_count'', MRetryCount), (''last_error'', MLastError),
     (''worker_id'', MWorkerID), (''consumer_group'', MConsumerGroup), (''trace_id'', MTraceID),
     (''stream_msg_id'', MStreamMsgID)]"

definition task_tags :: "(string \<times> task_tag) list" where
  "task_tags = [(''id'', TID), (''type'', TType), (''payload'', TPayload), (''options'', TOptions), (''metadata'', TMetadata)]"

lemma tag_of_inj:
  assumes "distinct (map snd tags)" and "tag_of tags k = Some t" and "tag_of tags k' = Some t"
  shows "k = k'"
proof -
  from assms have "(k, t) \<in> set tags" "(k', t) \<in> set tags" by (auto simp: tag_of_def dest: map_of_SomeD)
  with assms(1) show ?thesis by (metis eq_key_imp_eq_value inj_on_eq_iff distinct_map prod.inject snd_conv)
qed

fun put_options :: "options_tag \<Rightarrow> json \<Rightarrow> TaskOptions \<Rightarrow> TaskOptions option" where
  "put_options OQueue j r = map_option (\<lambda>x. r\<lparr>Queue := x\<rparr>) (dec_str j (Queue r))"
| "put_options OMaxRetry j r = map_option (\<lambda>x. r\<lparr>MaxRetry := x\<rparr>) (dec_i32 j (MaxRetry r))"
| "put_options OTimeout j r = map_option (\<lambda>x. r\<lparr>Timeout := x\<rparr>) (dec_i64 j (Timeout r))"
| "put_options OProcessAt j r = map_option (\<lambda>x. r\<lparr>ProcessAt := x\<rparr>) (dec_time j (ProcessAt r))"
| "put_options OPriority j r = map_option (\<lambda>x. r\<lparr>Priority := x\<rparr>) (dec_i32 j (Priority r))"
| "put_options OUniqueKey j r = map_option (\<lambda>x. r\<lparr>UniqueKey := x\<rparr>) (dec_str j (UniqueKey r))"
| "put_options OUniqueTTL j r = map_option (\<lambda>x. r\<lparr>UniqueTTL := x\<rparr>) (dec_i64 j (UniqueTTL r))"
| "put_options OLabels j r = map_option (\<lambda>x. r\<lparr>Labels := x\<rparr>) (dec_labels j (Labels r))"

lemma options_field_tag: "options_field k j r =
    (case tag_of options_tags k of None \<Rightarrow> Some r | Some x \<Rightarrow> put_options x j r)"
  by (simp add: options_field_def tag_of_def options_tags_def)

fun put_metadata :: "metadata_tag \<Rightarrow> json \<Rightarrow> TaskMetadata \<Rightarrow> TaskMetadata option" where
  "put_metadata MState j m = map_option (\<lambda>x. m\<lparr>State := x\<rparr>) (dec_str j (State m))"
| "put_metadata MCreatedAt j m = map_option (\<lambda>x. m\<lparr>CreatedAt := x\<rparr>) (dec_time j (CreatedAt m))"
| "put_metadata MStartedAt j m = map_option (\<lambda>x. m\<lparr>StartedAt := x\<rparr>) (dec_time j (StartedAt m))"
| "put_metadata MCompletedAt j m = map_option (\<lambda>x. m\<lparr>CompletedAt := x\<rparr>) (dec_time j (CompletedAt m))"
| "put_metadata MRetryCount j m = map_option (\<lambda>x. m\<lparr>RetryCount := x\<rparr>) (dec_i32 j (RetryCount m))"
| "put_metadata MLastError j m = map_option (\<lambda>x. m\<lparr>LastError := x\<rparr>) (dec_str j (LastError m))"
| "put_metadata MWorkerID j m = map_option (\<lambda>x. m\<lparr>WorkerID := x\<rparr>) (dec_str j (WorkerID m))"
| "put_metadata MConsumerGroup j m = map_option (\<lambda>x. m\<lparr>ConsumerGroup := x\<rparr>) (dec_str j (ConsumerGroup m))"
| "put_metadata MTraceID j m = map_option (\<lambda>x. m\<lparr>TraceID := x\<rparr>) (dec_str j (TraceID m))"
| "put_metadata MStreamMsgID j m = map_option (\<lambda>x. m\<lparr>StreamMsgID := x\<rparr>) (dec_str j (StreamMsgID m))"

lemma metadata_field_tag: "metadata_field k j m =
    (case tag_of metadata_tags k of None \<Rightarrow> Some m | Some x \<Rightarrow> put_metadata x j m)"
  by (simp add: metadata_field_def tag_of_def metadata_tags_def)

fun put_task :: "task_tag \<Rightarrow> json \<Rightarrow> TaskProto \<Rightarrow> TaskProto option" where
  "put_task TID j t = map_option (\<lambda>x. t\<lparr>ID := x\<rparr>) (dec_str j (ID t))"
| "put_task TType j t = map_option (\<lambda>x. t\<lparr>Type := x\<rparr>) (dec_str j (Type t))"
| "put_task TPayload j t = Some (t\<lparr>Payload := RawJson j\<rparr>)"
| "put_task TOptions j t = map_option (\<lambda>x. t\<lparr>Options := x\<rparr>) (dec_options j (Options t))"
| "put_task TMetadata j t = map_option (\<lambda>x. t\<lparr>Metadata := x\<rparr>) (dec_metadata j (Metadata t))"

lemma task_field_tag: "task_field k j t =
    (case tag_of task_tags k of None \<Rightarrow> Some t | Some x \<Rightarrow> put_task x j t)"
  by (simp add: task_field_def tag_of_def task_tags_def)

lemma commuting_tags:
  assumes inj: "distinct (map snd tags)"
    and f: "\<And>k j s. f k j s = (case tag_of tags k of None \<Rightarrow> Some s | Some t \<Rightarrow> g t j s)"
    and g: "\<And>t t' j j' s. t \<noteq> t' \<Longrightarrow> Option.bind (g t j s) (g t' j') = Option.bind (g t' j' s) (g t j)"
  shows "commuting f"
  unfolding commuting_def
proof (intro allI impI)
  fix k j k' j' s
  assume neq: "(k :: string) \<noteq> k'"
  show "Option.bind (f k j s) (f k' j') = Option.bind (f k' j' s) (f k j)"
  proof (cases "tag_of tags k")
    case None
    then have "f k j = Some" by (simp add: f fun_eq_iff)
    then show ?thesis by simp
  next
    case (Some t)
    note t = this
    show ?thesis
    proof (cases "tag_of tags k'")
      case None
      then have "f k' j' = Some" by (simp add: f fun_eq_iff)
      then show ?thesis by simp
    next
      case (Some t')
      with t neq have "t \<noteq> t'" using tag_of_inj [OF inj] by blast
      moreover have "f k j = g t j" "f k' j' = g t' j'" using t Some by (simp_all add: f fun_eq_iff)
      ultimately show ?thesis using g by simp
    qed
  qed
qed

lemma options_field_commuting: "commuting options_field"
proof (rule commuting_tags [OF _ options_field_tag])
  show "distinct (map snd options_tags)" by (simp add: options_tags_def)
  show "Option.bind (put_options x j r) (put_options x' j') = Option.bind (put_options x' j' r) (put_options x j)"
    if "x \<noteq> x'" for x x' j j' r
    using that by (cases x; cases x'; simp add: map_option_case split: option.split)
qed

lemma metadata_field_commuting: "commuting metadata_field"
proof (rule commuting_tags [OF _ metadata_field_tag])
  show "distinct (map snd metadata_tags)" by (simp add: metadata_tags_def)
  show "Option.bind (put_metadata x j r) (put_metadata x' j') = Option.bind (put_metadata x' j' r) (put_metadata x j)"
    if "x \<noteq> x'" for x x' j j' r
    using that by (cases x; cases x'; simp add: map_option_case split: option.split)
qed

lemma task_field_commuting: "commuting task_field"
proof (rule commuting_tags [OF _ task_field_tag])
  show "distinct (map snd task_tags)" by (simp add: task_tags_def)
  show "Option.bind (put_task x j r) (put_task x' j') = Option.bind (put_task x' j' r) (put_task x j)"
    if "x \<noteq> x'" for x x' j j' r
    using that by (cases x; cases x'; simp add: map_option_case split: option.split)
qed

section \<open>Decoding the canonical form\<close>

text \<open>No name is repeated, up to case in the structs, in a task, its options, its metadata and its labels.\<close>

definition labels_keys_ok :: "json \<Rightarrow> bool" where
  "labels_keys_ok j = (case j of JObj kvs \<Rightarrow> distinct (map fst kvs) | _ \<Rightarrow> True)"

definition object_keys_ok :: "(string \<Rightarrow> json \<Rightarrow> bool) \<Rightarrow> json \<Rightarrow> bool" where
  "object_keys_ok P j = (case j of
      JObj kvs \<Rightarrow> distinct (field_keys kvs) \<and> (\<forall>x \<in> set kvs. P (fold_key (fst x)) (snd x))
    | _ \<Rightarrow> True)"

definition options_keys_ok :: "json \<Rightarrow> bool" where
  "options_keys_ok = object_keys_ok (\<lambda>k j. k = ''labels'' \<longrightarrow> labels_keys_ok j)"

definition metadata_keys_ok :: "json \<Rightarrow> bool" where
  "metadata_keys_ok = object_keys_ok (\<lambda>k j. True)"

definition task_keys_ok :: "json \<Rightarrow> bool" where
  "task_keys_ok = object_keys_ok (\<lambda>k j. (k = ''options'' \<longrightarrow> options_keys_ok j) \<and> (k = ''metadata'' \<longrightarrow> metadata_keys_ok j))"

lemma distinct_sort_key_map:
  "distinct (map f (sort_key g xs)) = distinct (map f xs)"
  by (metis mset_eq_imp_distinct_iff mset_map mset_sort)

lemma labels_keys_ok_canon [simp]: "labels_keys_ok (canon j) = labels_keys_ok j"
  by (cases j) (auto simp: labels_keys_ok_def distinct_sort_key_map)

lemma object_keys_ok_canon:
  assumes "\<And>k j. P k (canon j) = P k j"
  shows "object_keys_ok P (canon j) = object_keys_ok P j"
  using assms by (cases j) (auto simp: object_keys_ok_def distinct_sort_key_map comp_def)

lemma keys_ok_canon [simp]:
  "options_keys_ok (canon j) = options_keys_ok j" "metadata_keys_ok (canon j) = metadata_keys_ok j"
  "task_keys_ok (canon j) = task_keys_ok j"
proof -
  show o: "options_keys_ok (canon j) = options_keys_ok j" for j
    unfolding options_keys_ok_def by (rule object_keys_ok_canon) simp
  show m: "metadata_keys_ok (canon j) = metadata_keys_ok j" for j
    unfolding metadata_keys_ok_def by (rule object_keys_ok_canon) simp
  show "task_keys_ok (canon j) = task_keys_ok j"
    unfolding task_keys_ok_def by (rule object_keys_ok_canon) (simp add: o m)
qed

lemma dec_canon [simp]:
  "dec_str (canon j) = dec_str j" "dec_i32 (canon j) = dec_i32 j" "dec_i64 (canon j) = dec_i64 j"
  "dec_time (canon j) = dec_time j"
  by (cases j; simp add: fun_eq_iff)+

text \<open>Decoding the sorted canonical fields is decoding the fields with canonical values.\<close>

lemma decode_fields_sorted:
  assumes "commuting f" and "distinct (field_keys kvs)"
  shows "decode_fields f (sort_key fst (map canon_field kvs)) s = decode_fields f (map canon_field kvs) s"
  by (rule decode_fields_mset [OF assms(1), symmetric]) (use assms(2) in \<open>simp_all add: comp_def\<close>)

lemma decode_fields_canon:
  assumes "\<And>x s. x \<in> set kvs \<Longrightarrow> I s \<Longrightarrow> f (fold_key (fst x)) (canon (snd x)) s = f (fold_key (fst x)) (snd x) s"
    and "\<And>k j s s'. f k j s = Some s' \<Longrightarrow> I s \<Longrightarrow> I s'" and "I s"
  shows "decode_fields f (map canon_field kvs) s = decode_fields f kvs s"
  using assms(1,3)
proof (induction kvs arbitrary: s)
  case (Cons x kvs)
  obtain k j where x: "x = (k, j)" by (cases x)
  have head: "f (fold_key k) (canon j) s = f (fold_key k) j s" using Cons.prems(1) [of x s] Cons.prems(2) x by simp
  show ?case
  proof (cases "f (fold_key k) j s")
    case None
    with head show ?thesis by (simp add: x canon_field_def)
  next
    case (Some s1)
    then have "I s1" using Cons.prems(2) by (rule assms(2))
    then have "decode_fields f (map canon_field kvs) s1 = decode_fields f kvs s1"
      by (intro Cons.IH) (use Cons.prems(1) in auto)
    with head Some show ?thesis by (simp add: x canon_field_def)
  qed
qed simp

lemma dec_entries_canon: "dec_entries (map canon_field kvs) m = dec_entries kvs m"
proof (induction kvs m rule: dec_entries.induct)
  case (2 k j kvs m)
  then show ?case by (cases "dec_str j ''''") (simp_all add: canon_field_def)
qed simp

lemma map_put_commute:
  assumes "gomap_ok m" and "k \<noteq> k'"
  shows "map_put k v (map_put k' v' m) = map_put k' v' (map_put k v m)"
  by (rule gomap_eqI) (use assms in \<open>auto intro: gomap_ok_map_put\<close>)

lemma dec_entries_move:
  assumes "k \<notin> fst ` set kvs"
  shows "gomap_ok m \<Longrightarrow> dec_entries (kvs @ (k, j) # kvs') m = dec_entries ((k, j) # kvs @ kvs') m"
  using assms
proof (induction kvs arbitrary: m)
  case (Cons x kvs)
  obtain k1 j1 where x: "x = (k1, j1)" by (cases x)
  with Cons.prems have neq: "k1 \<noteq> k" by auto
  show ?case
  proof (cases "dec_str j1 ''''")
    case (Some s1)
    have "gomap_ok (map_put k1 s1 m)" using Cons.prems(1) by (rule gomap_ok_map_put)
    with Cons neq Some x show ?thesis
      by (cases "dec_str j ''''") (simp_all add: map_put_commute)
  qed (cases "dec_str j ''''"; simp add: x)
qed simp

lemma dec_entries_mset:
  "mset kvs = mset kvs' \<Longrightarrow> distinct (map fst kvs) \<Longrightarrow> gomap_ok m \<Longrightarrow> dec_entries kvs m = dec_entries kvs' m"
proof (induction kvs arbitrary: kvs' m)
  case (Cons x kvs)
  obtain k j where x: "x = (k, j)" by (cases x)
  from Cons.prems(1) have "x \<in> set kvs'" by (metis list.set_intros(1) set_mset_mset)
  then obtain us vs where split: "kvs' = us @ x # vs" by (meson split_list)
  with Cons.prems(1) have m: "mset kvs = mset (us @ vs)" by simp
  have "distinct (map fst kvs')"
    using Cons.prems mset_eq_imp_distinct_iff [of "map fst (x # kvs)" "map fst kvs'"] by (metis mset_map)
  with split x have "k \<notin> fst ` set us" by auto
  then have "dec_entries kvs' m = dec_entries ((k, j) # us @ vs) m"
    unfolding split x using Cons.prems(3) by (rule dec_entries_move)
  moreover have "dec_entries kvs m' = dec_entries (us @ vs) m'" if "gomap_ok m'" for m'
    using Cons.IH [OF m _ that] Cons.prems(2) by simp
  ultimately show ?case using Cons.prems(3)
    by (cases "dec_str j ''''") (auto simp: x intro: gomap_ok_map_put)
qed simp

lemma dec_labels_canon:
  assumes "labels_keys_ok j" and "case l of None \<Rightarrow> True | Some m \<Rightarrow> gomap_ok m"
  shows "dec_labels (canon j) l = dec_labels j l"
proof (cases j)
  case (JObj kvs)
  have "dec_entries (sort_key fst (map canon_field kvs)) m = dec_entries kvs m" if "gomap_ok m" for m
  proof -
    have "dec_entries (map canon_field kvs) m = dec_entries (sort_key fst (map canon_field kvs)) m"
      by (rule dec_entries_mset) (use assms(1) JObj that in \<open>simp_all add: labels_keys_ok_def\<close>)
    then show ?thesis by (simp add: dec_entries_canon)
  qed
  with JObj assms(2) show ?thesis by (cases l) simp_all
qed simp_all

lemma options_field_canon:
  assumes "k = ''labels'' \<longrightarrow> labels_keys_ok j" and "options_good r"
  shows "options_field k (canon j) r = options_field k j r"
  using assms dec_labels_canon [of j "Labels r"]
  by (simp add: options_field_def options_good_def options_wf_def)

lemma metadata_field_canon: "metadata_field k (canon j) m = metadata_field k j m"
  by (simp add: metadata_field_def)

lemma dec_options_canon:
  assumes "options_keys_ok j" and "case r of None \<Rightarrow> True | Some x \<Rightarrow> options_good x"
  shows "dec_options (canon j) r = dec_options j r"
proof (cases j)
  case (JObj kvs)
  have "decode_fields options_field (sort_key fst (map canon_field kvs)) s = decode_fields options_field kvs s"
    if s: "options_good s" for s
  proof -
    have "decode_fields options_field (map canon_field kvs) s = decode_fields options_field kvs s"
    proof (rule decode_fields_canon [where I = options_good])
      show "options_field (fold_key (fst x)) (canon (snd x)) s = options_field (fold_key (fst x)) (snd x) s"
        if "x \<in> set kvs" "options_good s" for x s
        by (rule options_field_canon) (use that assms(1) JObj in \<open>auto simp: options_keys_ok_def object_keys_ok_def\<close>)
    qed (use options_field_good s in auto)
    moreover have "distinct (field_keys kvs)"
      using assms(1) JObj by (simp add: options_keys_ok_def object_keys_ok_def)
    ultimately show ?thesis using decode_fields_sorted [OF options_field_commuting] by simp
  qed
  with JObj assms(2) zero_good show ?thesis by (cases r) simp_all
qed simp_all

lemma dec_metadata_canon:
  assumes "metadata_keys_ok j"
  shows "dec_metadata (canon j) m = dec_metadata j m"
proof (cases j)
  case (JObj kvs)
  have "decode_fields metadata_field (sort_key fst (map canon_field kvs)) s = decode_fields metadata_field kvs s" for s
  proof -
    have "decode_fields metadata_field (map canon_field kvs) s = decode_fields metadata_field kvs s"
      by (rule decode_fields_canon [where I = "\<lambda>_. True"]) (simp_all add: metadata_field_canon)
    moreover have "distinct (field_keys kvs)"
      using assms(1) JObj by (simp add: metadata_keys_ok_def object_keys_ok_def)
    ultimately show ?thesis using decode_fields_sorted [OF metadata_field_commuting] by simp
  qed
  with JObj show ?thesis by simp
qed simp_all

text \<open>Tasks up to the order inside the payload.\<close>

definition canon_payload :: "RawMessage \<Rightarrow> RawMessage" where
  "canon_payload p = (case p of RawJson j \<Rightarrow> RawJson (canon j) | _ \<Rightarrow> p)"

lemma canon_payload_RawJson [simp]: "canon_payload (RawJson j) = RawJson (canon j)"
  by (simp add: canon_payload_def)

definition canon_task :: "TaskProto \<Rightarrow> TaskProto" where
  "canon_task t = t\<lparr>Payload := canon_payload (Payload t)\<rparr>"

lemma canon_idem [simp]: "canon (canon j) = canon j"
proof (induction j rule: canon.induct)
  case (2 kvs)
  have "map canon_field (sort_key fst (map canon_field kvs)) = sort_key fst (map canon_field (map canon_field kvs))"
  proof -
    have "map canon_field (sort_key fst ys) = sort_key fst (map canon_field ys)" for ys
    proof (induction ys)
      case (Cons y ys)
      have "map canon_field (insort_key fst y zs) = insort_key fst (canon_field y) (map canon_field zs)" for zs
        by (induction zs) auto
      with Cons show ?case by simp
    qed simp
    then show ?thesis .
  qed
  moreover have "map canon_field (map canon_field kvs) = map canon_field kvs"
    using 2 by (auto simp: canon_field_def)
  moreover have "sort_key fst (sort_key fst ys) = sort_key fst ys" for ys :: "(string \<times> json) list"
    by (rule sort_key_id_if_sorted) simp
  ultimately show ?case by (simp only: canon_JObj)
qed simp_all

lemma canon_task_eq: "canon_task s2 = canon_task s \<longleftrightarrow> (\<exists>p. s2 = s\<lparr>Payload := p\<rparr> \<and> canon_payload p = canon_payload (Payload s))"
  by (cases s; cases s2) (auto simp: canon_task_def)

lemma task_field_canon:
  assumes "k = ''options'' \<longrightarrow> options_keys_ok j" "k = ''metadata'' \<longrightarrow> metadata_keys_ok j"
    and "task_good s" and "canon_task s2 = canon_task s"
  shows "rel_option (\<lambda>a b. canon_task a = canon_task b) (task_field k (canon j) s2) (task_field k j s)"
proof -
  from assms(4) obtain p where s2: "s2 = s\<lparr>Payload := p\<rparr>" and p: "canon_payload p = canon_payload (Payload s)"
    using canon_task_eq by blast
  have "case Options s of None \<Rightarrow> True | Some r \<Rightarrow> options_good r" using assms(3) by (simp add: task_good_iff)
  with assms(1) have o: "k = ''options'' \<Longrightarrow> dec_options (canon j) (Options s) = dec_options j (Options s)"
    by (simp add: dec_options_canon)
  have m: "k = ''metadata'' \<Longrightarrow> dec_metadata (canon j) (Metadata s) = dec_metadata j (Metadata s)"
    using assms(2) by (simp add: dec_metadata_canon)
  have k: "tag_of task_tags k = Some TOptions \<Longrightarrow> k = ''options''" "tag_of task_tags k = Some TMetadata \<Longrightarrow> k = ''metadata''"
    by (simp_all add: tag_of_def task_tags_def split: if_splits)
  show ?thesis
  proof (cases "tag_of task_tags k")
    case None
    with assms(4) show ?thesis by (simp add: task_field_tag)
  next
    case (Some x)
    then show ?thesis using k o m
      by (cases x) (simp_all add: task_field_tag s2 p canon_task_def option.rel_map option.rel_refl)
  qed
qed

lemma decode_task_canon:
  assumes "\<And>x. x \<in> set kvs \<Longrightarrow> (fold_key (fst x) = ''options'' \<longrightarrow> options_keys_ok (snd x)) \<and>
      (fold_key (fst x) = ''metadata'' \<longrightarrow> metadata_keys_ok (snd x))"
    and "task_good s" and "canon_task s2 = canon_task s"
  shows "rel_option (\<lambda>a b. canon_task a = canon_task b)
    (decode_fields task_field (map canon_field kvs) s2) (decode_fields task_field kvs s)"
  using assms
proof (induction kvs arbitrary: s s2)
  case (Cons x kvs)
  obtain k j where x: "x = (k, j)" by (cases x)
  have rel: "rel_option (\<lambda>a b. canon_task a = canon_task b) (task_field (fold_key k) (canon j) s2) (task_field (fold_key k) j s)"
    by (rule task_field_canon) (use Cons.prems(1) [of x] Cons.prems(2,3) x in simp_all)
  show ?case
  proof (cases "task_field (fold_key k) j s")
    case None
    with rel show ?thesis by (simp add: x canon_field_def)
  next
    case (Some s1)
    with rel obtain s3 where s3: "task_field (fold_key k) (canon j) s2 = Some s3" "canon_task s3 = canon_task s1"
      by (auto simp: option_rel_Some2)
    have "task_good s1" using Some Cons.prems(2) by (rule task_field_good)
    then have "rel_option (\<lambda>a b. canon_task a = canon_task b)
      (decode_fields task_field (map canon_field kvs) s3) (decode_fields task_field kvs s1)"
      by (intro Cons.IH) (use Cons.prems(1) s3 in auto)
    with Some s3 show ?thesis by (simp add: x canon_field_def)
  qed
qed simp

definition same_result :: "(go_error + TaskProto) \<Rightarrow> (go_error + TaskProto) \<Rightarrow> bool" where
  "same_result r r' \<longleftrightarrow> map_sum id canon_task r = map_sum id canon_task r'"

lemma unmarshal_canon:
  assumes "task_keys_ok j"
  shows "same_result (unmarshal_task (JsonText (canon j))) (unmarshal_task (JsonText j))"
proof (cases j)
  case (JObj kvs)
  have zero: "task_good zero_proto" by (simp add: task_good_iff zero_proto_def payload_valid_def)
  have rel: "rel_option (\<lambda>a b. canon_task a = canon_task b)
    (decode_fields task_field (map canon_field kvs) zero_proto) (decode_fields task_field kvs zero_proto)"
    by (rule decode_task_canon [OF _ zero refl])
      (use assms JObj in \<open>auto simp: task_keys_ok_def object_keys_ok_def\<close>)
  moreover have "decode_fields task_field (sort_key fst (map canon_field kvs)) zero_proto =
      decode_fields task_field (map canon_field kvs) zero_proto"
    by (rule decode_fields_sorted [OF task_field_commuting])
      (use assms JObj in \<open>simp add: task_keys_ok_def object_keys_ok_def\<close>)
  ultimately show ?thesis
    by (cases "decode_fields task_field kvs zero_proto")
      (auto simp: JObj unmarshal_task.simps same_result_def option_rel_Some2)
qed (simp_all add: same_result_def unmarshal_task.simps)

text \<open>Texts that are the same give the same task, up to the order inside the payload.\<close>

lemma unmarshal_same:
  assumes "json_same j j'" and "task_keys_ok j"
  shows "same_result (unmarshal_task (JsonText j)) (unmarshal_task (JsonText j'))"
proof -
  have "task_keys_ok j'" using assms keys_ok_canon(3) json_same_def by metis
  with assms unmarshal_canon [of j] unmarshal_canon [of j'] show ?thesis
    by (simp add: json_same_def same_result_def)
qed

section \<open>The texts of tasks\<close>

lemma field_set [simp]:
  "x \<in> set (str_field k s) \<longleftrightarrow> s \<noteq> '''' \<and> x = (k, JStr s)"
  "x \<in> set (int_field k n) \<longleftrightarrow> n \<noteq> 0 \<and> x = (k, JNum (JInt n))"
  "x \<in> set (time_field k t) \<longleftrightarrow> (\<exists>y. t = Some y \<and> x = (k, JTime y))"
  "x \<in> set (labels_field k l) \<longleftrightarrow> (\<exists>m. l = Some m \<and> m \<noteq> [] \<and> x = (k, JObj (map (\<lambda>(x, v). (x, JStr v)) m)))"
  "x \<in> set (payload_field k p) \<longleftrightarrow> (\<exists>j. p = RawJson j \<and> x = (k, j))"
  by (auto simp: str_field_def int_field_def time_field_def labels_field_def payload_field_def
      split: option.splits RawMessage.splits)

lemma field_distinct [simp]:
  "distinct (map fst (str_field k s))" "distinct (map fst (int_field k n))" "distinct (map fst (time_field k t))"
  "distinct (map fst (labels_field k l))" "distinct (map fst (payload_field k p))"
  by (simp_all add: str_field_def int_field_def time_field_def labels_field_def payload_field_def
      split: option.splits RawMessage.splits)

lemma disjoint_keys: "(\<And>x y. x \<in> set xs \<Longrightarrow> y \<in> set ys \<Longrightarrow> fst x \<noteq> fst y) \<Longrightarrow> fst ` set xs \<inter> fst ` set ys = {}"
  by auto

definition metadata_rest :: "TaskMetadata \<Rightarrow> (string \<times> json) list" where
  "metadata_rest m =
     time_field ''created_at'' (CreatedAt m) @ time_field ''started_at'' (StartedAt m) @
     time_field ''completed_at'' (CompletedAt m) @ int_field ''retry_count'' (sint (RetryCount m)) @
     str_field ''last_error'' (LastError m) @ str_field ''worker_id'' (WorkerID m) @
     str_field ''consumer_group'' (ConsumerGroup m) @ str_field ''trace_id'' (TraceID m) @
     str_field ''stream_msg_id'' (StreamMsgID m)"

definition options_fields :: "TaskOptions \<Rightarrow> (string \<times> json) list" where
  "options_fields r =
     str_field ''queue'' (Queue r) @ int_field ''max_retry'' (sint (MaxRetry r)) @
     int_field ''timeout'' (sint (Timeout r)) @ time_field ''process_at'' (ProcessAt r) @
     int_field ''priority'' (sint (Priority r)) @ str_field ''unique_key'' (UniqueKey r) @
     int_field ''unique_ttl'' (sint (UniqueTTL r)) @ labels_field ''labels'' (Labels r)"

lemma json_metadata_rest: "json_metadata m = JObj (str_field ''state'' (State m) @ metadata_rest m)"
  by (simp add: json_metadata_def metadata_rest_def)

lemma json_options_fields: "json_options r = JObj (options_fields r)"
  by (simp add: json_options_def options_fields_def)

lemma metadata_rest_distinct: "distinct (map fst (metadata_rest m))"
  unfolding metadata_rest_def map_append distinct_append set_append set_map image_Un
  by (intro conjI disjoint_keys Int_Un_distrib [THEN trans] Un_empty [THEN iffD2] field_distinct) auto

lemma metadata_rest_keys: "fst ` set (metadata_rest m) \<subseteq> {''created_at'', ''started_at'', ''completed_at'', ''retry_count'',
   ''last_error'', ''worker_id'', ''consumer_group'', ''trace_id'', ''stream_msg_id''}"
  by (auto simp: metadata_rest_def)

lemma options_fields_distinct: "distinct (map fst (options_fields r))"
  unfolding options_fields_def map_append distinct_append set_append set_map image_Un
  by (intro conjI disjoint_keys Int_Un_distrib [THEN trans] Un_empty [THEN iffD2] field_distinct) auto

lemma options_fields_keys: "fst ` set (options_fields r) \<subseteq> {''queue'', ''max_retry'', ''timeout'', ''process_at'',
   ''priority'', ''unique_key'', ''unique_ttl'', ''labels''}"
  by (auto simp: options_fields_def)

definition task_fields :: "TaskProto \<Rightarrow> (string \<times> json) list" where
  "task_fields t = [(''id'', JStr (ID t)), (''type'', JStr (Type t))] @ payload_field ''payload'' (Payload t) @
     (case Options t of None \<Rightarrow> [] | Some r \<Rightarrow> [(''options'', json_options r)]) @
     (case Metadata t of None \<Rightarrow> [] | Some m \<Rightarrow> [(''metadata'', json_metadata m)])"

lemma json_task_fields: "json_task t = JObj (task_fields t)"
  by (simp add: json_task_def task_fields_def)

lemma task_fields_distinct: "distinct (map fst (task_fields t))"
  by (simp add: task_fields_def payload_field_def split: option.split RawMessage.split)

lemma field_keys_id:
  assumes "\<And>x. x \<in> set kvs \<Longrightarrow> fold_key (fst x) = fst x"
  shows "field_keys kvs = map fst kvs"
  using assms by simp

lemma metadata_keys_ok_json [simp]: "metadata_keys_ok (json_metadata m)"
proof -
  have "''state'' \<notin> fst ` set (metadata_rest m)" using metadata_rest_keys [of m] by auto
  then have "distinct (map fst (str_field ''state'' (State m) @ metadata_rest m))"
    using metadata_rest_distinct [of m] by (auto simp: str_field_def)
  moreover have "field_keys (str_field ''state'' (State m) @ metadata_rest m) =
      map fst (str_field ''state'' (State m) @ metadata_rest m)"
    by (rule field_keys_id) (auto simp: metadata_rest_def)
  ultimately show ?thesis by (simp only: metadata_keys_ok_def object_keys_ok_def json_metadata_rest json.case) simp
qed

lemma options_keys_ok_json [simp]:
  assumes "options_wf r"
  shows "options_keys_ok (json_options r)"
proof -
  have "field_keys (options_fields r) = map fst (options_fields r)"
    by (rule field_keys_id) (auto simp: options_fields_def)
  moreover have "labels_keys_ok (snd x)" if "x \<in> set (options_fields r)" "fold_key (fst x) = ''labels''" for x
    using that assms
    by (auto simp: options_fields_def labels_keys_ok_def options_wf_def comp_def case_prod_unfold dest: gomap_ok_distinct)
  ultimately show ?thesis
    using options_fields_distinct [of r]
    by (auto simp: options_keys_ok_def object_keys_ok_def json_options_fields simp del: map_eq_conv)
qed

lemma task_keys_ok_json:
  assumes "task_wf t"
  shows "task_keys_ok (json_task t)"
proof -
  have "field_keys (task_fields t) = map fst (task_fields t)"
    by (rule field_keys_id) (auto simp: task_fields_def split: option.splits)
  moreover have "(fold_key (fst x) = ''options'' \<longrightarrow> options_keys_ok (snd x)) \<and>
      (fold_key (fst x) = ''metadata'' \<longrightarrow> metadata_keys_ok (snd x))" if "x \<in> set (task_fields t)" for x
    using that assms by (auto simp: task_fields_def task_wf_def split: option.splits)
  ultimately show ?thesis
    using task_fields_distinct [of t]
    by (auto simp: task_keys_ok_def object_keys_ok_def json_task_fields simp del: map_eq_conv)
qed

end
