(* ===== verification/Redis_Env.thy ===== *)
theory Redis_Env
  imports Json_Canon "HOL-Library.Sublist"
begin

text \<open>
  The services the broker runs on, none of which is part of the repository: the Redis server behind
  the go-redis client, the Lua interpreter in it, and the clock. They are one record \<open>'w env\<close> of
  functions on the outside world \<open>'w\<close>, an argument of every definition that uses them. What the code
  relies on is stated as the locales \<open>redis_server\<close> (commands, pipelines, keys with an expiry,
  scripts), \<open>redis_consumer\<close> (consumer groups) and \<open>cjson_codec\<close>, over a view \<open>db\<close> of the data the
  server holds and its time \<open>clk\<close>. The laws follow the command reference of Redis; an error reply
  leaves it open whether a command ran. \<open>Redis_Memory\<close> has an in-memory server that satisfies them.
\<close>

section \<open>Commands and the client\<close>

record XMessage =
  xm_ID :: string
  xm_Values :: "(string \<times> bulk) list"

text \<open>The commands that change data. A pipeline is a list of them.\<close>

datatype command =
    XAdd string "(string \<times> bulk) list"
  | XAck string string string
  | XDel string string
  | ZAdd string int bulk
  | ZRem string bulk
  | SAdd string string
  | HIncrBy string string int
  | Del string

text \<open>\<open>ctx_err\<close> is \<open>ctx.Err()\<close> of the context the broker was given, \<open>go_sleep\<close> is \<open>time.Sleep\<close>.\<close>

record 'w env =
  clock :: "'w \<Rightarrow> time \<times> 'w"
  ctx_err :: "'w \<Rightarrow> go_error option"
  go_sleep :: "duration \<Rightarrow> 'w \<Rightarrow> unit \<times> 'w"
  pipe_exec :: "command list \<Rightarrow> 'w \<Rightarrow> go_error option \<times> 'w"
  command_do :: "command \<Rightarrow> 'w \<Rightarrow> go_error option \<times> 'w"
  set_nx :: "string \<Rightarrow> string \<Rightarrow> duration \<Rightarrow> 'w \<Rightarrow> (go_error + bool) \<times> 'w"
  x_range :: "string \<Rightarrow> 'w \<Rightarrow> (go_error + XMessage list) \<times> 'w"
  x_len :: "string \<Rightarrow> 'w \<Rightarrow> (go_error + int) \<times> 'w"
  x_pending :: "string \<Rightarrow> string \<Rightarrow> 'w \<Rightarrow> (go_error + int) \<times> 'w"
  z_card :: "string \<Rightarrow> 'w \<Rightarrow> (go_error + int) \<times> 'w"
  h_get_all :: "string \<Rightarrow> 'w \<Rightarrow> (go_error + string gomap) \<times> 'w"
  s_members :: "string \<Rightarrow> 'w \<Rightarrow> (go_error + string list) \<times> 'w"
  ping :: "'w \<Rightarrow> go_error option \<times> 'w"
  x_group_create :: "string \<Rightarrow> string \<Rightarrow> string \<Rightarrow> 'w \<Rightarrow> go_error option \<times> 'w"
  x_read_group :: "string \<Rightarrow> string \<Rightarrow> (string \<times> string) list \<Rightarrow> int \<Rightarrow> duration option \<Rightarrow> 'w \<Rightarrow>
    (go_error + (string \<times> XMessage list) list) \<times> 'w"
  x_auto_claim :: "string \<Rightarrow> string \<Rightarrow> string \<Rightarrow> duration \<Rightarrow> string \<Rightarrow> int \<Rightarrow> 'w \<Rightarrow>
    (go_error + XMessage list) \<times> 'w"
  x_info_groups :: "string \<Rightarrow> 'w \<Rightarrow> (go_error + ConsumerGroupInfo list) \<times> 'w"
  x_info_consumers :: "string \<Rightarrow> string \<Rightarrow> 'w \<Rightarrow> (go_error + ConsumerInfo list) \<times> 'w"
  x_group_del_consumer :: "string \<Rightarrow> string \<Rightarrow> string \<Rightarrow> 'w \<Rightarrow> go_error option \<times> 'w"
  script_run :: "('w, int) go \<Rightarrow> 'w \<Rightarrow> (go_error + int) \<times> 'w"
  lua_call :: "command \<Rightarrow> ('w, unit) go"
  lua_smembers :: "string \<Rightarrow> ('w, string list) go"
  lua_zrangebyscore :: "string \<Rightarrow> int \<Rightarrow> int \<Rightarrow> ('w, bulk list) go"
  cjson_decode :: "bulk \<Rightarrow> json option"
  cjson_encode :: "json \<Rightarrow> bulk"

section \<open>The data the server holds\<close>

text \<open>
  Streams in order with the fields of each entry, the pending entries list of each stream and group
  (message id to consumer), sorted sets (member to score), sets, hashes of counters (a missing field
  counts 0) and string keys with the time they expire. \<open>delivered\<close> holds the ids of a stream up to the
  last one delivered to a group.
\<close>

record redis_db =
  streams :: "string \<Rightarrow> (string \<times> (string \<times> bulk) list) list"
  pel :: "string \<Rightarrow> string \<Rightarrow> string \<rightharpoonup> string"
  zsets :: "string \<Rightarrow> bulk \<rightharpoonup> int"
  sets :: "string \<Rightarrow> string set"
  hashes :: "string \<Rightarrow> string \<Rightarrow> int"
  strings :: "string \<rightharpoonup> string \<times> time option"
  delivered :: "string \<Rightarrow> string \<Rightarrow> string set"

definition live :: "redis_db \<Rightarrow> time \<Rightarrow> string \<Rightarrow> bool" where
  "live d now k = (case strings d k of
      None \<Rightarrow> False
    | Some (v, None) \<Rightarrow> True
    | Some (v, Some x) \<Rightarrow> now < x)"

text \<open>What one command does; \<open>i\<close> is the id the server gives the entry of an \<open>XADD\<close>.\<close>

fun command_eff :: "string \<Rightarrow> command \<Rightarrow> redis_db \<Rightarrow> redis_db" where
  "command_eff i (XAdd k vs) d = d\<lparr>streams := (streams d)(k := streams d k @ [(i, vs)])\<rparr>"
| "command_eff i (XAck k g m) d = d\<lparr>pel := (pel d)(k := (pel d k)(g := (pel d k g)(m := None)))\<rparr>"
| "command_eff i (XDel k m) d =
     d\<lparr>streams := (streams d)(k := filter (\<lambda>e. fst e \<noteq> m) (streams d k))\<rparr>"
| "command_eff i (ZAdd k s m) d = d\<lparr>zsets := (zsets d)(k := (zsets d k)(m \<mapsto> s))\<rparr>"
| "command_eff i (ZRem k m) d = d\<lparr>zsets := (zsets d)(k := (zsets d k)(m := None))\<rparr>"
| "command_eff i (SAdd k x) d = d\<lparr>sets := (sets d)(k := insert x (sets d k))\<rparr>"
| "command_eff i (HIncrBy k f n) d =
     d\<lparr>hashes := (hashes d)(k := (hashes d k)(f := hashes d k f + n))\<rparr>"
| "command_eff i (Del k) d =
     d\<lparr>streams := (streams d)(k := []), pel := (pel d)(k := (\<lambda>_. Map.empty)),
       zsets := (zsets d)(k := Map.empty), sets := (sets d)(k := {}),
       hashes := (hashes d)(k := (\<lambda>_. 0)), strings := (strings d)(k := None),
       delivered := (delivered d)(k := (\<lambda>_. {}))\<rparr>"

declare command_eff.simps [simp del, db_simps]

text \<open>A fresh id: larger than every id the stream ever had, so neither stored nor pending.\<close>

definition fresh_id :: "redis_db \<Rightarrow> string \<Rightarrow> string \<Rightarrow> bool" where
  "fresh_id d k i \<longleftrightarrow> i \<noteq> '''' \<and> i \<notin> fst ` set (streams d k) \<and>
     (\<forall>g. pel d k g i = None \<and> i \<notin> delivered d k g)"

inductive command_step :: "command \<Rightarrow> redis_db \<Rightarrow> redis_db \<Rightarrow> bool" where
  xadd: "fresh_id d k i \<Longrightarrow> command_step (XAdd k vs) d (command_eff i (XAdd k vs) d)"
| xack: "command_step (XAck k g m) d (command_eff '''' (XAck k g m) d)"
| xdel: "command_step (XDel k m) d (command_eff '''' (XDel k m) d)"
| zadd: "command_step (ZAdd k s m) d (command_eff '''' (ZAdd k s m) d)"
| zrem: "command_step (ZRem k m) d (command_eff '''' (ZRem k m) d)"
| sadd: "command_step (SAdd k x) d (command_eff '''' (SAdd k x) d)"
| hincr: "command_step (HIncrBy k f n) d (command_eff '''' (HIncrBy k f n) d)"
| del: "command_step (Del k) d (command_eff '''' (Del k) d)"

inductive_simps command_step_simps:
  "command_step (XAdd k vs) d d'"
  "command_step (XAck k g m) d d'"
  "command_step (XDel k m) d d'"
  "command_step (ZAdd k s m) d d'"
  "command_step (ZRem k m) d d'"
  "command_step (SAdd k x) d d'"
  "command_step (HIncrBy k f n) d d'"
  "command_step (Del k) d d'"

fun commands_step :: "command list \<Rightarrow> redis_db \<Rightarrow> redis_db \<Rightarrow> bool" where
  "commands_step [] d d' = (d' = d)"
| "commands_step (c # cs) d d' = (\<exists>d1. command_step c d d1 \<and> commands_step cs d1 d')"

lemma commands_step_append:
  "commands_step (cs @ cs') d d' \<longleftrightarrow> (\<exists>d1. commands_step cs d d1 \<and> commands_step cs' d1 d')"
  by (induction cs arbitrary: d) auto

text \<open>The commands that leave a component of the data alone.\<close>

lemma command_step_strings:
  "command_step c d d' \<Longrightarrow> (\<And>k. c \<noteq> Del k) \<Longrightarrow> strings d' = strings d"
  by (cases c) (auto simp: command_step_simps db_simps)

lemma commands_step_strings:
  "commands_step cs d d' \<Longrightarrow> (\<And>k. Del k \<notin> set cs) \<Longrightarrow> strings d' = strings d"
proof (induction cs arbitrary: d)
  case Nil
  then show ?case by simp
next
  case (Cons c cs)
  from Cons.prems(1) obtain d1 where "command_step c d d1" and "commands_step cs d1 d'" by auto
  with Cons show ?case using command_step_strings [of c d d1] by force
qed

definition to_messages :: "(string \<times> (string \<times> bulk) list) list \<Rightarrow> XMessage list" where
  "to_messages es = map (\<lambda>(i, vs). \<lparr>xm_ID = i, xm_Values = vs\<rparr>) es"

section \<open>What the code relies on\<close>

text \<open>
  The expiry \<open>SET NX\<close> with a TTL gives a key: none for a TTL of zero, otherwise at least the TTL
  away in whole milliseconds.
\<close>

definition expiry_ok :: "time \<Rightarrow> duration \<Rightarrow> time option \<Rightarrow> bool" where
  "expiry_ok now ttl x =
     (if ttl = 0 then x = None
      else \<exists>y. x = Some y \<and> now + sint ttl div Millisecond * Millisecond \<le> y)"

definition set_nx_eff :: "string \<Rightarrow> string \<Rightarrow> duration \<Rightarrow> time \<Rightarrow> redis_db \<Rightarrow> bool \<Rightarrow> redis_db \<Rightarrow> bool" where
  "set_nx_eff k v ttl now d b d' =
     (if live d now k then \<not> b \<and> d' = d
      else b \<and> (\<exists>x. expiry_ok now ttl x \<and> d' = d\<lparr>strings := (strings d)(k \<mapsto> (v, x))\<rparr>))"

text \<open>The members with a score up to \<open>hi\<close>, lowest scores first, at most \<open>limit\<close> of them (all of them
  for a negative limit).\<close>

definition zrange_ok :: "(bulk \<rightharpoonup> int) \<Rightarrow> int \<Rightarrow> int \<Rightarrow> bulk list \<Rightarrow> bool" where
  "zrange_ok z hi limit ms \<longleftrightarrow>
     distinct ms \<and> (\<forall>m \<in> set ms. \<exists>s. z m = Some s \<and> s \<le> hi) \<and>
     (\<forall>m \<in> set ms. \<forall>m' s'. z m' = Some s' \<longrightarrow> s' \<le> hi \<longrightarrow> m' \<notin> set ms \<longrightarrow> the (z m) \<le> s') \<and>
     (0 \<le> limit \<longrightarrow> length ms \<le> nat limit) \<and>
     ((\<exists>m' s'. z m' = Some s' \<and> s' \<le> hi \<and> m' \<notin> set ms) \<longrightarrow> 0 \<le> limit \<and> length ms = nat limit)"

locale redis_server =
  fixes E :: "'w env" and db :: "'w \<Rightarrow> redis_db" and clk :: "'w \<Rightarrow> time"
  assumes clock_ok: "clock E w = (t, w') \<Longrightarrow> db w' = db w \<and> clk w \<le> clk w'"
    and sleep_ok: "go_sleep E pause w = (u, w') \<Longrightarrow> db w' = db w \<and> clk w \<le> clk w'"
    and pipe_ok: "pipe_exec E cs w = (None, w') \<Longrightarrow> commands_step cs (db w) (db w') \<and> clk w \<le> clk w'"
    and pipe_fail: "pipe_exec E cs w = (Some e, w') \<Longrightarrow>
      (\<exists>cs'. subseq cs' cs \<and> commands_step cs' (db w) (db w')) \<and> clk w \<le> clk w'"
    and do_ok: "command_do E c w = (None, w') \<Longrightarrow> command_step c (db w) (db w') \<and> clk w \<le> clk w'"
    and do_fail: "command_do E c w = (Some e, w') \<Longrightarrow>
      (db w' = db w \<or> command_step c (db w) (db w')) \<and> clk w \<le> clk w'"
    and set_nx_ok: "set_nx E k v ttl w = (Inr b, w') \<Longrightarrow>
      \<exists>now. clk w \<le> now \<and> now \<le> clk w' \<and> set_nx_eff k v ttl now (db w) b (db w')"
    and set_nx_fail: "set_nx E k v ttl w = (Inl e, w') \<Longrightarrow>
      (db w' = db w \<or> (\<exists>b now. clk w \<le> now \<and> now \<le> clk w' \<and> set_nx_eff k v ttl now (db w) b (db w')))
        \<and> clk w \<le> clk w'"
    and x_len_ok: "x_len E k w = (rlen, w') \<Longrightarrow> db w' = db w \<and> clk w \<le> clk w' \<and>
      (\<forall>n. rlen = Inr n \<longrightarrow> n = int (length (streams (db w) k)))"
    and x_pending_ok: "x_pending E k g w = (rlen, w') \<Longrightarrow> db w' = db w \<and> clk w \<le> clk w' \<and>
      (\<forall>n. rlen = Inr n \<longrightarrow> finite (dom (pel (db w) k g)) \<and> n = int (card (dom (pel (db w) k g))))"
    and z_card_ok: "z_card E k w = (rlen, w') \<Longrightarrow> db w' = db w \<and> clk w \<le> clk w' \<and>
      (\<forall>n. rlen = Inr n \<longrightarrow> finite (dom (zsets (db w) k)) \<and> n = int (card (dom (zsets (db w) k))))"
    and h_get_all_ok: "h_get_all E k w = (rhash, w') \<Longrightarrow> db w' = db w \<and> clk w \<le> clk w' \<and>
      (\<forall>kvs. rhash = Inr kvs \<longrightarrow> (\<forall>f. case map_of kvs f of
          None \<Rightarrow> hashes (db w) k f = 0 | Some v \<Rightarrow> v = show_int (hashes (db w) k f)))"
    and s_members_ok: "s_members E k w = (rset, w') \<Longrightarrow> db w' = db w \<and> clk w \<le> clk w' \<and>
      (\<forall>xs. rset = Inr xs \<longrightarrow> distinct xs \<and> set xs = sets (db w) k)"
    and x_range_ok: "x_range E k w = (r, w') \<Longrightarrow> db w' = db w \<and> clk w \<le> clk w' \<and>
      (\<forall>ms. r = Inr ms \<longrightarrow> ms = to_messages (streams (db w) k))"
    and script_ok: "script_run E s w = (Inr n, w') \<Longrightarrow>
      \<exists>w1 w2. db w1 = db w \<and> clk w \<le> clk w1 \<and> s w1 = (Ret n, w2) \<and> db w' = db w2"
    and script_fail: "script_run E s w = (Inl e, w') \<Longrightarrow>
      db w' = db w \<or> (\<exists>w1 rr w2. db w1 = db w \<and> s w1 = (rr, w2) \<and> db w' = db w2)"
    and lua_call_ok: "lua_call E c w = (Ret u, w') \<Longrightarrow> command_step c (db w) (db w')"
    and lua_call_fail: "lua_call E c w = (Panic msg, w') \<Longrightarrow> db w' = db w"
    and lua_smembers_ok: "lua_smembers E k w = (Ret xs, w') \<Longrightarrow>
      db w' = db w \<and> distinct xs \<and> set xs = sets (db w) k"
    and lua_smembers_fail: "lua_smembers E k w = (Panic msg, w') \<Longrightarrow> db w' = db w"
    and lua_zrange_ok: "lua_zrangebyscore E k hi limit w = (Ret ms, w') \<Longrightarrow>
      db w' = db w \<and> zrange_ok (zsets (db w) k) hi limit ms"
    and lua_zrange_fail: "lua_zrangebyscore E k hi limit w = (Panic msg, w') \<Longrightarrow> db w' = db w"

section \<open>Consumer groups\<close>


text \<open>Delivering messages of a stream to a consumer makes them pending for it.\<close>

definition deliver :: "string \<Rightarrow> string \<Rightarrow> string \<times> XMessage list \<Rightarrow> redis_db \<Rightarrow> redis_db" where
  "deliver g c kms d = (case kms of (k, ms) \<Rightarrow>
     d\<lparr>pel := (pel d)(k := (pel d k)(g := (\<lambda>i. if i \<in> xm_ID ` set ms then Some c else pel d k g i))),
       delivered := (delivered d)(k := (delivered d k)(g := delivered d k g \<union> xm_ID ` set ms))\<rparr>)"

definition undelivered :: "redis_db \<Rightarrow> string \<Rightarrow> string \<Rightarrow> (string \<times> (string \<times> bulk) list) list" where
  "undelivered d k g = filter (\<lambda>e. fst e \<notin> delivered d k g) (streams d k)"

text \<open>
  \<open>XREADGROUP\<close> with id \<open>>\<close> takes, from every stream that has some, the first entries never delivered to
  the group; with id \<open>0\<close> it lists what is pending for the consumer, an entry deleted from the stream
  without its fields. \<open>XAUTOCLAIM\<close> makes pending entries of any consumer the caller's, and drops from
  the pending list the ones that are no longer in the stream.
\<close>

definition read_new_ok ::
  "string \<Rightarrow> string list \<Rightarrow> int \<Rightarrow> redis_db \<Rightarrow> (string \<times> XMessage list) list \<Rightarrow> bool" where
  "read_new_ok g ks n d res \<longleftrightarrow>
     distinct (map fst res) \<and> (\<forall>(k, ms) \<in> set res. k \<in> set ks \<and> ms \<noteq> [] \<and>
       ms = to_messages (take (nat n) (undelivered d k g)))"

definition read_pending_ok :: "string \<Rightarrow> string \<Rightarrow> string \<Rightarrow> redis_db \<Rightarrow> XMessage list \<Rightarrow> bool" where
  "read_pending_ok k g c d ms \<longleftrightarrow>
     distinct (map xm_ID ms) \<and>
     (\<forall>m \<in> set ms. pel d k g (xm_ID m) = Some c \<and>
        xm_Values m = (case map_of (streams d k) (xm_ID m) of None \<Rightarrow> [] | Some vs \<Rightarrow> vs)) \<and>
     (ms = [] \<longrightarrow> (\<forall>i. pel d k g i \<noteq> Some c))"

definition claim_ok :: "string \<Rightarrow> string \<Rightarrow> string \<Rightarrow> redis_db \<Rightarrow> XMessage list \<Rightarrow> redis_db \<Rightarrow> bool" where
  "claim_ok k g c d ms d' \<longleftrightarrow>
     distinct (map xm_ID ms) \<and>
     (\<forall>m \<in> set ms. pel d k g (xm_ID m) \<noteq> None \<and> (xm_ID m, xm_Values m) \<in> set (streams d k)) \<and>
     (\<exists>gone. (\<forall>i \<in> gone. i \<notin> fst ` set (streams d k)) \<and>
        d' = d\<lparr>pel := (pel d)(k := (pel d k)(g := (\<lambda>i.
          if i \<in> xm_ID ` set ms then Some c else if i \<in> gone then None else pel d k g i)))\<rparr>)"

text \<open>\<open>XINFO CONSUMERS\<close> counts what is pending for a consumer; \<open>XGROUP DELCONSUMER\<close> drops it all.\<close>

definition pending_of :: "string \<Rightarrow> (string \<rightharpoonup> string) \<Rightarrow> string set" where
  "pending_of c p = {i. p i = Some c}"

definition forget_consumer :: "string \<Rightarrow> string \<Rightarrow> string \<Rightarrow> redis_db \<Rightarrow> redis_db" where
  "forget_consumer k g c d =
     d\<lparr>pel := (pel d)(k := (pel d k)(g := pel d k g |` (- pending_of c (pel d k g))))\<rparr>"

locale redis_consumer = redis_server E db clk
  for E :: "'w env" and db :: "'w \<Rightarrow> redis_db" and clk :: "'w \<Rightarrow> time" +
  assumes read_new_ok: "x_read_group E g c (map (\<lambda>k. (k, ''>'')) ks) n block w = (Inr res, w') \<Longrightarrow>
      read_new_ok g ks n (db w) res \<and> db w' = fold (deliver g c) res (db w) \<and> clk w \<le> clk w'"
    and read_new_fail: "x_read_group E g c (map (\<lambda>k. (k, ''>'')) ks) n block w = (Inl e, w') \<Longrightarrow>
      (db w' = db w \<or> (\<exists>res. read_new_ok g ks n (db w) res \<and> db w' = fold (deliver g c) res (db w))) \<and>
      clk w \<le> clk w'"
    and read_pending_ok: "x_read_group E g c [(k, ''0'')] n None w = (Inr res, w') \<Longrightarrow>
      db w' = db w \<and> clk w \<le> clk w' \<and> (\<exists>ms. res = [(k, ms)] \<and> read_pending_ok k g c (db w) ms)"
    and read_pending_fail: "x_read_group E g c [(k, ''0'')] n None w = (Inl e, w') \<Longrightarrow>
      db w' = db w \<and> clk w \<le> clk w' \<and> \<not> errors_is e RedisNil"
    and claim_ok: "x_auto_claim E k g c idle start n w = (Inr ms, w') \<Longrightarrow>
      claim_ok k g c (db w) ms (db w') \<and> clk w \<le> clk w'"
    and claim_fail: "x_auto_claim E k g c idle start n w = (Inl e, w') \<Longrightarrow>
      (db w' = db w \<or> (\<exists>ms. claim_ok k g c (db w) ms (db w'))) \<and> clk w \<le> clk w'"
    and group_create_ok: "x_group_create E k g start w = (r, w') \<Longrightarrow> db w' = db w \<and> clk w \<le> clk w'"
    and info_groups_ok: "x_info_groups E k w = (rgs, w') \<Longrightarrow> db w' = db w \<and> clk w \<le> clk w'"
    and info_consumers_ok: "x_info_consumers E k g w = (rcs, w') \<Longrightarrow> db w' = db w \<and> clk w \<le> clk w' \<and>
      (\<forall>cs c. rcs = Inr cs \<longrightarrow> c \<in> set cs \<longrightarrow> finite (pending_of (ci_Name c) (pel (db w) k g)) \<and>
        ci_Pending c = int (card (pending_of (ci_Name c) (pel (db w) k g))))"
    and del_consumer_ok: "x_group_del_consumer E k g c w = (rd, w') \<Longrightarrow>
      (db w' = db w \<or> db w' = forget_consumer k g c (db w)) \<and> clk w \<le> clk w'"

section \<open>JSON in Lua\<close>

text \<open>
  Values that the \<open>cjson\<close> library of the server passes through unchanged but for the order of fields:
  numbers of at most 14 digits (it works with doubles and prints 14 significant digits), no empty array
  (it becomes an empty object), no repeated name, and at most 1000 levels.
\<close>

fun lua_exact :: "json \<Rightarrow> bool" where
  "lua_exact (JNum (JInt n)) = (\<bar>n\<bar> < 100000000000000)"
| "lua_exact (JNum (JFrac s)) = False"
| "lua_exact (JArr js) = (js \<noteq> [] \<and> list_all lua_exact js)"
| "lua_exact (JObj kvs) = (distinct (map fst kvs) \<and> list_all (\<lambda>(k, j). lua_exact j) kvs)"
| "lua_exact _ = True"

fun json_depth :: "json \<Rightarrow> nat" where
  "json_depth (JArr js) = Suc (Max (set (0 # map json_depth js)))"
| "json_depth (JObj kvs) = Suc (Max (set (0 # map (\<lambda>(k, j). json_depth j) kvs)))"
| "json_depth _ = 0"

definition lua_ok :: "json \<Rightarrow> bool" where
  "lua_ok j \<longleftrightarrow> lua_exact j \<and> json_depth j \<le> 1000"

lemma lua_exact_canon [simp]: "lua_exact (canon j) = lua_exact j"
proof (induction j rule: canon.induct)
  case (2 kvs)
  have ih: "lua_exact (canon (snd x)) = lua_exact (snd x)" if "x \<in> set kvs" for x
    using that 2 [of x "fst x" "snd x"] by simp
  have "list_all (\<lambda>(k, j). lua_exact j) xs = (\<forall>x \<in> set xs. lua_exact (snd x))" for xs :: "(string \<times> json) list"
    by (auto simp: list_all_iff)
  with ih show ?case by (simp add: distinct_sort_key_map)
qed (auto simp: list_all_iff)

lemma json_depth_canon [simp]: "json_depth (canon j) = json_depth j"
proof (induction j rule: canon.induct)
  case (1 js)
  then have "map json_depth (map canon js) = map json_depth js" by simp
  then show ?case by (simp del: map_map)
next
  case (2 kvs)
  have ih: "json_depth (canon (snd x)) = json_depth (snd x)" if "x \<in> set kvs" for x
    using that 2 [of x "fst x" "snd x"] by simp
  have "(\<lambda>(k, j). json_depth j) ` set (map canon_field kvs) = (\<lambda>(k, j). json_depth j) ` set kvs"
    using ih by (auto simp: case_prod_unfold image_image)
  then show ?case by simp
qed simp_all

lemma lua_ok_same: "json_same j j' \<Longrightarrow> lua_ok j' = lua_ok j"
  unfolding lua_ok_def json_same_def by (metis lua_exact_canon json_depth_canon)

locale cjson_codec =
  fixes E :: "'w env"
  assumes decode_ok: "lua_ok j \<Longrightarrow> \<exists>j'. cjson_decode E (JsonText j) = Some j' \<and> json_same j j'"
    and encode_ok: "lua_ok j \<Longrightarrow> \<exists>j'. cjson_encode E j = JsonText j' \<and> json_same j j'"

end
