(* ===== verification/Redis_Broker.thy ===== *)
theory Redis_Broker
  imports Json_Codec Redis_Env
begin

text \<open>
  \<^verbatim>\<open>broker/broker.go\<close> and \<^verbatim>\<open>broker/redis/redis.go\<close>: the consumer configuration and its defaults, the
  Redis keys, and the operations of the broker that publish, acknowledge, schedule, retry and bury
  tasks, the idempotency and uniqueness keys, and the queue statistics. An operation takes the
  services \<open>E\<close> and the configuration it reads; one that changes the task behind the caller's pointer
  returns the changed task too. The Lua scripts are in \<open>Broker_Scheduler\<close>, the consumer loops in
  \<open>Broker_Consumer\<close>.
\<close>

section \<open>Configuration\<close>

record ConsumerConfig =
  Group :: string
  Consumer :: string
  BatchSize :: int
  BlockDuration :: duration
  ClaimStaleAfter :: duration
  ClaimCheckInterval :: duration

definition DefaultConsumerConfig :: ConsumerConfig where
  "DefaultConsumerConfig = \<lparr>Group = ''strego-workers'', Consumer = '''', BatchSize = 10,
     BlockDuration = dur (5 * Second), ClaimStaleAfter = dur (5 * Minute),
     ClaimCheckInterval = dur (30 * Second)\<rparr>"

record Broker =
  broker_config :: ConsumerConfig
  broker_closed :: bool

text \<open>Options set the configuration; \<open>host\<close> and \<open>pid\<close> are what \<open>os.Hostname\<close> and \<open>os.Getpid\<close> print.\<close>

definition WithConsumerConfig :: "ConsumerConfig \<Rightarrow> Broker \<Rightarrow> Broker" where
  "WithConsumerConfig cfg b = b\<lparr>broker_config := cfg\<rparr>"

definition NewBroker :: "string \<Rightarrow> string \<Rightarrow> (Broker \<Rightarrow> Broker) list \<Rightarrow> Broker" where
  "NewBroker host pid opts =
     (let b0 = fold (\<lambda>opt b. opt b) opts \<lparr>broker_config = DefaultConsumerConfig, broker_closed = False\<rparr>;
          c0 = broker_config b0;
          c1 = (if Consumer c0 = '''' then c0\<lparr>Consumer := ''worker-'' @ host @ ''-'' @ pid\<rparr> else c0);
          defaults = DefaultConsumerConfig;
          c2 = (if BatchSize c1 \<le> 0 then c1\<lparr>BatchSize := BatchSize defaults\<rparr> else c1);
          c3 = (if sint (BlockDuration c2) \<le> 0 then c2\<lparr>BlockDuration := BlockDuration defaults\<rparr> else c2);
          c4 = (if sint (ClaimStaleAfter c3) \<le> 0
                then c3\<lparr>ClaimStaleAfter := ClaimStaleAfter defaults\<rparr> else c3);
          c5 = (if sint (ClaimCheckInterval c4) \<le> 0
                then c4\<lparr>ClaimCheckInterval := ClaimCheckInterval defaults\<rparr> else c4)
      in b0\<lparr>broker_config := c5\<rparr>)"

section \<open>Keys\<close>

definition streamPrefix :: string where "streamPrefix = ''strego:stream:''"
definition dlqPrefix :: string where "dlqPrefix = ''strego:dlq:''"
definition scheduledPrefix :: string where "scheduledPrefix = ''strego:scheduled:''"
definition retryPrefix :: string where "retryPrefix = ''strego:retry:''"
definition processedPrefix :: string where "processedPrefix = ''strego:processed:''"
definition uniquePrefix :: string where "uniquePrefix = ''strego:unique:''"
definition statsPrefix :: string where "statsPrefix = ''strego:stats:''"
definition queuesKey :: string where "queuesKey = ''strego:queues''"

definition streamKey :: "string \<Rightarrow> string" where "streamKey queue = streamPrefix @ queue"
definition dlqKey :: "string \<Rightarrow> string" where "dlqKey queue = dlqPrefix @ queue"
definition scheduledKey :: "string \<Rightarrow> string" where "scheduledKey queue = scheduledPrefix @ queue"
definition retryKey :: "string \<Rightarrow> string" where "retryKey queue = retryPrefix @ queue"

section \<open>Publishing, acknowledging, scheduling\<close>

definition Publish :: "'w env \<Rightarrow> string \<Rightarrow> TaskProto \<Rightarrow> ('w, go_error option) go" where
  "Publish E queue task = (case marshal_task task of
      Inl err \<Rightarrow> go_return (Some (ErrWrap ''failed to marshal task: '' err))
    | Inr data \<Rightarrow>
        go_bind (go_lift (pipe_exec E
          [XAdd (streamKey queue) [(''data'', JsonText data)],
           SAdd queuesKey queue,
           HIncrBy (statsPrefix @ queue) ''enqueued'' 1]))
        (\<lambda>err. go_return (map_option (ErrWrap ''failed to publish task: '') err)))"

definition Ack :: "'w env \<Rightarrow> ConsumerConfig \<Rightarrow> string \<Rightarrow> string \<Rightarrow> ('w, go_error option) go" where
  "Ack E cfg queue msgID = go_lift (pipe_exec E
     [XAck (streamKey queue) (Group cfg) msgID,
      XDel (streamKey queue) msgID,
      HIncrBy (statsPrefix @ queue) ''completed'' 1])"

definition Schedule :: "'w env \<Rightarrow> TaskProto \<Rightarrow> time \<Rightarrow> ('w, go_error option) go" where
  "Schedule E task processAt = (case marshal_task task of
      Inl err \<Rightarrow> go_return (Some (ErrWrap ''failed to marshal task: '' err))
    | Inr data \<Rightarrow>
        (let queue = (case Options task of
               None \<Rightarrow> ''default''
             | Some r \<Rightarrow> if Queue r \<noteq> '''' then Queue r else ''default'')
         in go_lift (pipe_exec E
              [ZAdd (scheduledKey queue) (unix processAt) (JsonText data),
               SAdd queuesKey queue,
               HIncrBy (statsPrefix @ queue) ''scheduled'' 1])))"

section \<open>Retrying and burying\<close>

text \<open>The commands that take a message off its stream, when the task says which message it came in.\<close>

definition unstream :: "ConsumerConfig \<Rightarrow> string \<Rightarrow> TaskMetadata \<Rightarrow> command list" where
  "unstream cfg queue m =
     (if StreamMsgID m \<noteq> ''''
      then [XAck (streamKey queue) (Group cfg) (StreamMsgID m), XDel (streamKey queue) (StreamMsgID m)]
      else [])"

definition Retry ::
  "'w env \<Rightarrow> ConsumerConfig \<Rightarrow> string \<Rightarrow> TaskProto \<Rightarrow> duration \<Rightarrow> ('w, go_error option \<times> TaskProto) go" where
  "Retry E cfg queue task delay =
     (let m = (metadata_or_zero task)\<lparr>State := TaskStateRetry\<rparr>;
          task = task\<lparr>Metadata := Some m\<rparr>
      in case marshal_task task of
           Inl err \<Rightarrow> go_return (Some (ErrWrap ''failed to marshal task: '' err), task)
         | Inr data \<Rightarrow>
             go_bind (go_lift (clock E)) (\<lambda>now.
             go_bind (go_lift (pipe_exec E
               (unstream cfg queue m @
                [ZAdd (retryKey queue) (unix (now + sint delay)) (JsonText data)])))
             (\<lambda>err. go_return (err, task))))"

definition MoveToDLQ ::
  "'w env \<Rightarrow> ConsumerConfig \<Rightarrow> string \<Rightarrow> TaskProto \<Rightarrow> go_error option \<Rightarrow>
   ('w, go_error option \<times> TaskProto) go" where
  "MoveToDLQ E cfg queue task taskErr =
     (let m0 = (metadata_or_zero task)\<lparr>State := TaskStateDead\<rparr>;
          m = (case taskErr of None \<Rightarrow> m0 | Some e \<Rightarrow> m0\<lparr>LastError := error_text e\<rparr>);
          task = task\<lparr>Metadata := Some m\<rparr>
      in case marshal_task task of
           Inl err \<Rightarrow> go_return (Some (ErrWrap ''failed to marshal task: '' err), task)
         | Inr data \<Rightarrow>
             go_bind (go_lift (pipe_exec E
               (unstream cfg queue m @ [XAdd (dlqKey queue) [(''data'', JsonText data)]])))
             (\<lambda>err. go_return (err, task)))"

section \<open>The dead letter queue\<close>

text \<open>\<open>msg.Values["data"].(string)\<close> and \<open>json.Unmarshal\<close>: the task of a message, if it holds one.\<close>

definition message_task :: "XMessage \<Rightarrow> TaskProto option" where
  "message_task msg = (case map_of (xm_Values msg) ''data'' of
      None \<Rightarrow> None
    | Some data \<Rightarrow> (case unmarshal_task data of Inl e \<Rightarrow> None | Inr t \<Rightarrow> Some t))"

text \<open>The loop of \<open>GetDLQ\<close>: \<open>n\<close> tasks collected so far; messages that hold no task are skipped.\<close>

fun get_dlq_loop :: "int \<Rightarrow> int \<Rightarrow> XMessage list \<Rightarrow> TaskProto list" where
  "get_dlq_loop limit n [] = []"
| "get_dlq_loop limit n (msg # msgs) =
     (if limit > 0 \<and> n \<ge> limit then []
      else case message_task msg of
          None \<Rightarrow> get_dlq_loop limit n msgs
        | Some t \<Rightarrow> t # get_dlq_loop limit (n + 1) msgs)"

definition GetDLQ :: "'w env \<Rightarrow> string \<Rightarrow> int \<Rightarrow> ('w, go_error + TaskProto list) go" where
  "GetDLQ E queue limit =
     go_bind (go_lift (x_range E (dlqKey queue))) (\<lambda>res. case res of
         Inl err \<Rightarrow> go_return (Inl err)
       | Inr msgs \<Rightarrow> go_return (Inr (get_dlq_loop limit 0 msgs)))"

fun find_in_dlq :: "string \<Rightarrow> XMessage list \<Rightarrow> (XMessage \<times> TaskProto) option" where
  "find_in_dlq taskID [] = None"
| "find_in_dlq taskID (msg # msgs) = (case message_task msg of
      None \<Rightarrow> find_in_dlq taskID msgs
    | Some t \<Rightarrow> if ID t = taskID then Some (msg, t) else find_in_dlq taskID msgs)"

text \<open>The error of the second \<open>json.Marshal\<close> is dropped: the text is then empty.\<close>

definition remarshal :: "TaskProto \<Rightarrow> bulk" where
  "remarshal t = (case marshal_task t of Inl e \<Rightarrow> PlainText '''' | Inr j \<Rightarrow> JsonText j)"

definition RetryFromDLQ :: "'w env \<Rightarrow> string \<Rightarrow> string \<Rightarrow> ('w, go_error option) go" where
  "RetryFromDLQ E queue taskID =
     go_bind (go_lift (x_range E (dlqKey queue))) (\<lambda>res. case res of
         Inl err \<Rightarrow> go_return (Some err)
       | Inr msgs \<Rightarrow> (case find_in_dlq taskID msgs of
             None \<Rightarrow> go_return (Some (ErrText (''task '' @ taskID @ '' not found in DLQ'')))
           | Some (msg, t) \<Rightarrow> (case Metadata t of
                 None \<Rightarrow> go_panic ''invalid memory address or nil pointer dereference''
               | Some m \<Rightarrow>
                   (let t' = t\<lparr>Metadata := Some (m\<lparr>State := TaskStatePending, RetryCount := 0, LastError := ''''\<rparr>)\<rparr>
                    in go_lift (pipe_exec E
                         [XDel (dlqKey queue) (xm_ID msg),
                          XAdd (streamKey queue) [(''data'', remarshal t')],
                          Del (processedPrefix @ taskID)])))))"

section \<open>Keys with an expiry\<close>

definition SetProcessed :: "'w env \<Rightarrow> string \<Rightarrow> duration \<Rightarrow> ('w, go_error + bool) go" where
  "SetProcessed E taskID ttl = go_lift (set_nx E (processedPrefix @ taskID) ''1'' ttl)"

definition SetUnique :: "'w env \<Rightarrow> string \<Rightarrow> string \<Rightarrow> duration \<Rightarrow> ('w, go_error + bool) go" where
  "SetUnique E uniqueKey taskID ttl = go_lift (set_nx E (uniquePrefix @ uniqueKey) taskID ttl)"

section \<open>Queue statistics\<close>

definition go_max0 :: "int \<Rightarrow> int" where
  "go_max0 n = (if n < 0 then 0 else n)"

text \<open>An error that is not \<open>redis.Nil\<close>.\<close>

definition real_error :: "(go_error + 'a) \<Rightarrow> go_error option" where
  "real_error r = (case r of Inl err \<Rightarrow> if err = RedisNil then None else Some err | Inr a \<Rightarrow> None)"

definition count_or_0 :: "(go_error + int) \<Rightarrow> int" where
  "count_or_0 r = (case r of Inl err \<Rightarrow> 0 | Inr n \<Rightarrow> n)"

definition completed_count :: "(go_error + string gomap) \<Rightarrow> int" where
  "completed_count r = (case r of
      Inl err \<Rightarrow> 0
    | Inr stats \<Rightarrow> (case map_of stats ''completed'' of
          None \<Rightarrow> 0
        | Some v \<Rightarrow> (case sscanf_int v of None \<Rightarrow> 0 | Some n \<Rightarrow> n)))"

definition GetQueueInfo :: "'w env \<Rightarrow> ConsumerConfig \<Rightarrow> string \<Rightarrow> ('w, go_error + QueueInfo) go" where
  "GetQueueInfo E cfg queue =
     go_bind (go_lift (x_len E (streamKey queue))) (\<lambda>rlen. case real_error rlen of
         Some err \<Rightarrow> go_return (Inl err)
       | None \<Rightarrow>
     go_bind (go_lift (x_pending E (streamKey queue) (Group cfg))) (\<lambda>rpend.
     go_bind (go_lift (x_len E (dlqKey queue))) (\<lambda>rdlq. case real_error rdlq of
         Some err \<Rightarrow> go_return (Inl err)
       | None \<Rightarrow>
     go_bind (go_lift (h_get_all E (statsPrefix @ queue))) (\<lambda>rstats.
     go_bind (go_lift (z_card E (scheduledKey queue))) (\<lambda>rsched.
     go_bind (go_lift (z_card E (retryKey queue))) (\<lambda>rretry.
       go_return (Inr \<lparr>qi_Name = queue,
         qi_Pending = go_max0 (count_or_0 rlen - count_or_0 rpend),
         qi_Active = count_or_0 rpend,
         qi_Scheduled = count_or_0 rsched,
         qi_Retry = count_or_0 rretry,
         qi_Dead = count_or_0 rdlq,
         qi_Completed = completed_count rstats,
         qi_Processed = completed_count rstats,
         qi_Failed = 0\<rparr>)))))))"

definition GetQueues :: "'w env \<Rightarrow> ('w, go_error + string list) go" where
  "GetQueues E = go_lift (s_members E queuesKey)"

definition GetConsumerGroup :: "ConsumerConfig \<Rightarrow> string" where
  "GetConsumerGroup cfg = Group cfg"

definition count_result :: "(go_error + int) \<Rightarrow> go_error + int" where
  "count_result r = (case real_error r of Some err \<Rightarrow> Inl err | None \<Rightarrow> Inr (count_or_0 r))"

definition GetScheduledCount :: "'w env \<Rightarrow> string \<Rightarrow> ('w, go_error + int) go" where
  "GetScheduledCount E queue =
     go_bind (go_lift (z_card E (scheduledKey queue))) (\<lambda>r. go_return (count_result r))"

definition GetRetryCount :: "'w env \<Rightarrow> string \<Rightarrow> ('w, go_error + int) go" where
  "GetRetryCount E queue =
     go_bind (go_lift (z_card E (retryKey queue))) (\<lambda>r. go_return (count_result r))"

section \<open>Groups, consumers, housekeeping\<close>

definition list_or_error :: "string \<Rightarrow> (go_error + 'a list) \<Rightarrow> go_error + 'a list" where
  "list_or_error context r = (case r of
      Inl err \<Rightarrow> if errors_is err RedisNil then Inr [] else Inl (ErrWrap context err)
    | Inr xs \<Rightarrow> Inr xs)"

definition GetConsumerGroups :: "'w env \<Rightarrow> string \<Rightarrow> ('w, go_error + ConsumerGroupInfo list) go" where
  "GetConsumerGroups E queue =
     go_bind (go_lift (x_info_groups E (streamKey queue)))
       (\<lambda>r. go_return (list_or_error ''failed to get consumer groups: '' r))"

definition GetGroupConsumers :: "'w env \<Rightarrow> string \<Rightarrow> string \<Rightarrow> ('w, go_error + ConsumerInfo list) go" where
  "GetGroupConsumers E queue grp =
     go_bind (go_lift (x_info_consumers E (streamKey queue) grp))
       (\<lambda>r. go_return (list_or_error ''failed to get group consumers: '' r))"

definition RemoveConsumer :: "'w env \<Rightarrow> string \<Rightarrow> string \<Rightarrow> string \<Rightarrow> ('w, go_error option) go" where
  "RemoveConsumer E queue grp consumer =
     go_lift (x_group_del_consumer E (streamKey queue) grp consumer)"

definition PurgeQueue :: "'w env \<Rightarrow> string \<Rightarrow> ('w, go_error option) go" where
  "PurgeQueue E queue =
     go_bind (go_lift (command_do E (Del (streamKey queue)))) (\<lambda>err. case err of
         Some e \<Rightarrow> go_return (Some e)
       | None \<Rightarrow> go_lift (command_do E (Del (statsPrefix @ queue))))"

definition PurgeDLQ :: "'w env \<Rightarrow> string \<Rightarrow> ('w, go_error option) go" where
  "PurgeDLQ E queue = go_lift (command_do E (Del (dlqKey queue)))"

definition broker_Ping :: "'w env \<Rightarrow> ('w, go_error option) go" where
  "broker_Ping E = go_lift (ping E)"

definition broker_Close :: "Broker \<Rightarrow> go_error option \<times> Broker" where
  "broker_Close b =
     (if broker_closed b then (Some (ErrText ''broker already closed''), b)
      else (None, b\<lparr>broker_closed := True\<rparr>))"

definition transientPatterns :: "string list" where
  "transientPatterns = [''connection refused'', ''connection reset'', ''broken pipe'', ''i/o timeout'',
     ''timeout'', ''EOF'', ''network is unreachable'', ''no route to host'']"

definition isTransientError :: "go_error option \<Rightarrow> bool" where
  "isTransientError err = (case err of
      None \<Rightarrow> False
    | Some e \<Rightarrow> errors_is e DeadlineExceeded \<or> list_ex (contains (error_text e)) transientPatterns)"

end
