(* ===== verification/Broker_Spec.thy ===== *)
theory Broker_Spec
  imports Redis_Broker Task_Api
begin

text \<open>
  What the broker's operations do to a queue, seen without Redis: the tasks ready in the stream and
  dead in the dead letter queue (with their message ids, in order), the two sets of tasks waiting for
  their time, the messages delivered to the consumer group and not acknowledged, and the ids of all that
  were ever delivered to it. Every operation
  of \<open>Redis_Broker\<close> that reports success refines a one-line operation on this view.
\<close>

section \<open>The view of a queue\<close>

record queue_view =
  ready :: "(string \<times> TaskProto) list"
  dead :: "(string \<times> TaskProto) list"
  later :: "bulk \<rightharpoonup> int"
  retrying :: "bulk \<rightharpoonup> int"
  unacked :: "string \<rightharpoonup> string"
  taken :: "string set"

fun tasks_of :: "(string \<times> (string \<times> bulk) list) list \<Rightarrow> (string \<times> TaskProto) list" where
  "tasks_of [] = []"
| "tasks_of ((i, vs) # es) = (case message_task \<lparr>xm_ID = i, xm_Values = vs\<rparr> of
      None \<Rightarrow> tasks_of es
    | Some t \<Rightarrow> (i, t) # tasks_of es)"

definition view :: "ConsumerConfig \<Rightarrow> redis_db \<Rightarrow> string \<Rightarrow> queue_view" where
  "view cfg d q = \<lparr>ready = tasks_of (streams d (streamKey q)), dead = tasks_of (streams d (dlqKey q)),
     later = zsets d (scheduledKey q), retrying = zsets d (retryKey q),
     unacked = pel d (streamKey q) (Group cfg), taken = delivered d (streamKey q) (Group cfg)\<rparr>"

definition put_ready :: "string \<Rightarrow> TaskProto \<Rightarrow> queue_view \<Rightarrow> queue_view" where
  "put_ready i t v = v\<lparr>ready := ready v @ [(i, t)]\<rparr>"

definition put_dead :: "string \<Rightarrow> TaskProto \<Rightarrow> queue_view \<Rightarrow> queue_view" where
  "put_dead i t v = v\<lparr>dead := dead v @ [(i, t)]\<rparr>"

definition drop_message :: "string \<Rightarrow> queue_view \<Rightarrow> queue_view" where
  "drop_message i v = v\<lparr>ready := filter (\<lambda>e. fst e \<noteq> i) (ready v), unacked := (unacked v)(i := None)\<rparr>"

definition drop_dead :: "string \<Rightarrow> queue_view \<Rightarrow> queue_view" where
  "drop_dead i v = v\<lparr>dead := filter (\<lambda>e. fst e \<noteq> i) (dead v)\<rparr>"

definition put_later :: "bulk \<Rightarrow> int \<Rightarrow> queue_view \<Rightarrow> queue_view" where
  "put_later m s v = v\<lparr>later := (later v)(m \<mapsto> s)\<rparr>"

definition put_retry :: "bulk \<Rightarrow> int \<Rightarrow> queue_view \<Rightarrow> queue_view" where
  "put_retry m s v = v\<lparr>retrying := (retrying v)(m \<mapsto> s)\<rparr>"

text \<open>A task that came in no message (an empty id) is in none to be taken off.\<close>

definition take_off :: "string \<Rightarrow> queue_view \<Rightarrow> queue_view" where
  "take_off i v = (if i = '''' then v else drop_message i v)"

lemmas view_ops = take_off_def put_ready_def put_dead_def drop_message_def drop_dead_def put_later_def put_retry_def

section \<open>Keys\<close>

lemmas prefix_defs = streamPrefix_def dlqPrefix_def scheduledPrefix_def retryPrefix_def
  processedPrefix_def uniquePrefix_def statsPrefix_def queuesKey_def

lemma key_inj [simp]:
  "streamKey q = streamKey q' \<longleftrightarrow> q = q'" "dlqKey q = dlqKey q' \<longleftrightarrow> q = q'"
  "scheduledKey q = scheduledKey q' \<longleftrightarrow> q = q'" "retryKey q = retryKey q' \<longleftrightarrow> q = q'"
  "processedPrefix @ x = processedPrefix @ y \<longleftrightarrow> x = y"
  "uniquePrefix @ x = uniquePrefix @ y \<longleftrightarrow> x = y"
  by (simp_all add: streamKey_def dlqKey_def scheduledKey_def retryKey_def)

lemma key_disjoint [simp]:
  "streamKey q \<noteq> dlqKey q'" "dlqKey q' \<noteq> streamKey q"
  "scheduledKey q \<noteq> retryKey q'" "retryKey q' \<noteq> scheduledKey q"
  "processedPrefix @ x \<noteq> uniquePrefix @ y" "uniquePrefix @ y \<noteq> processedPrefix @ x"
  "streamKey q \<noteq> processedPrefix @ x" "processedPrefix @ x \<noteq> streamKey q"
  "dlqKey q \<noteq> processedPrefix @ x" "processedPrefix @ x \<noteq> dlqKey q"
  "scheduledKey q \<noteq> processedPrefix @ x" "processedPrefix @ x \<noteq> scheduledKey q"
  "retryKey q \<noteq> processedPrefix @ x" "processedPrefix @ x \<noteq> retryKey q"
  "streamKey q \<noteq> statsPrefix @ x" "statsPrefix @ x \<noteq> streamKey q"
  "dlqKey q \<noteq> statsPrefix @ x" "statsPrefix @ x \<noteq> dlqKey q"
  by (simp_all add: prefix_defs streamKey_def dlqKey_def scheduledKey_def retryKey_def)

section \<open>Messages\<close>

lemma message_task_data [simp]:
  "message_task \<lparr>xm_ID = i, xm_Values = [(''data'', data)]\<rparr> =
    (case unmarshal_task data of Inl e \<Rightarrow> None | Inr t \<Rightarrow> Some t)"
  by (simp add: message_task_def)

lemma message_task_marshalled:
  assumes "task_wf t" and "marshal_task t = Inr j"
  shows "message_task \<lparr>xm_ID = i, xm_Values = [(''data'', JsonText j)]\<rparr> = Some (norm_task t)"
  using assms by (simp add: decode_json_task marshal_Inr)

lemma tasks_of_append [simp]: "tasks_of (es @ es') = tasks_of es @ tasks_of es'"
  by (induction es rule: tasks_of.induct) (auto split: option.splits)

lemma tasks_of_filter [simp]:
  "tasks_of (filter (\<lambda>e. fst e \<noteq> i) es) = filter (\<lambda>e. fst e \<noteq> i) (tasks_of es)"
  by (induction es rule: tasks_of.induct) (auto split: option.splits)

lemma tasks_of_ids: "fst ` set (tasks_of es) \<subseteq> fst ` set es"
  by (induction es rule: tasks_of.induct) (auto split: option.splits)

lemma tasks_of_distinct: "distinct (map fst es) \<Longrightarrow> distinct (map fst (tasks_of es))"
proof (induction es rule: tasks_of.induct)
  case (2 i vs es)
  then show ?case using tasks_of_ids [of es] by (auto split: option.splits)
qed simp

text \<open>The commands that the operations send, on the view.\<close>

lemma view_XAdd_stream:
  "view cfg (command_eff i (XAdd (streamKey q) vs) d) q' =
     (if q' = q then (case message_task \<lparr>xm_ID = i, xm_Values = vs\<rparr> of
        None \<Rightarrow> view cfg d q | Some t \<Rightarrow> put_ready i t (view cfg d q))
      else view cfg d q')"
  by (simp add: view_def db_simps put_ready_def split: option.split)

lemma view_XAdd_dlq:
  "view cfg (command_eff i (XAdd (dlqKey q) vs) d) q' =
     (if q' = q then (case message_task \<lparr>xm_ID = i, xm_Values = vs\<rparr> of
        None \<Rightarrow> view cfg d q | Some t \<Rightarrow> put_dead i t (view cfg d q))
      else view cfg d q')"
  by (simp add: view_def db_simps put_dead_def split: option.split)

lemma view_drop_message:
  "view cfg (command_eff x (XDel (streamKey q) i) (command_eff y (XAck (streamKey q) (Group cfg) i) d)) q' =
     (if q' = q then drop_message i (view cfg d q) else view cfg d q')"
  by (simp add: view_def db_simps drop_message_def)

lemma view_drop_dead:
  "view cfg (command_eff x (XDel (dlqKey q) i) d) q' =
     (if q' = q then drop_dead i (view cfg d q) else view cfg d q')"
  by (simp add: view_def db_simps drop_dead_def)

lemma view_ZAdd_scheduled:
  "view cfg (command_eff x (ZAdd (scheduledKey q) s m) d) q' =
     (if q' = q then put_later m s (view cfg d q) else view cfg d q')"
  by (simp add: view_def db_simps put_later_def)

lemma view_ZAdd_retry:
  "view cfg (command_eff x (ZAdd (retryKey q) s m) d) q' =
     (if q' = q then put_retry m s (view cfg d q) else view cfg d q')"
  by (simp add: view_def db_simps put_retry_def)

lemma view_SAdd [simp]: "view cfg (command_eff x (SAdd k y) d) q = view cfg d q"
  by (simp add: view_def db_simps)

lemma view_HIncrBy [simp]: "view cfg (command_eff x (HIncrBy k f n) d) q = view cfg d q"
  by (simp add: view_def db_simps)

lemma view_Del_processed [simp]:
  "view cfg (command_eff x (Del (processedPrefix @ y)) d) q = view cfg d q"
  by (simp add: view_def db_simps)

lemmas view_commands = view_XAdd_stream view_XAdd_dlq view_drop_message view_drop_dead
  view_ZAdd_scheduled view_ZAdd_retry

section \<open>What the operations do\<close>

text \<open>
  Under the laws of the server, one lemma per operation: the view after success, and no change when
  the operation fails before it sends a command. The bookkeeping the view leaves out (the set of
  known queues, the counters, the keys with an expiry) has lemmas of its own.
\<close>

lemma go_lift_Ret_iff: "go_lift m w = (Ret a, w') \<longleftrightarrow> m w = (a, w')"
  by (auto simp: go_lift_iff)

lemmas run_iff = go_bind_Ret_iff go_lift_Ret_iff

text \<open>The messages the dead letter queue holds, and the search through them.\<close>


lemma tasks_of_messages:
  "tasks_of es = List.map_filter (\<lambda>msg. map_option (\<lambda>t. (xm_ID msg, t)) (message_task msg)) (to_messages es)"
  by (induction es rule: tasks_of.induct)
    (auto simp: to_messages_def List.map_filter_simps split: option.splits)

lemma find_in_dlq_tasks:
  "map_option (\<lambda>(msg, t). (xm_ID msg, t)) (find_in_dlq tid (to_messages es)) =
     List.find (\<lambda>(i, t). ID t = tid) (tasks_of es)"
  by (induction es rule: tasks_of.induct) (auto simp: to_messages_def split: option.splits)

lemma message_task_good: "message_task msg = Some t \<Longrightarrow> task_good t"
  by (auto simp: message_task_def dest: unmarshal_good split: option.splits sum.splits)

lemma find_in_dlq_Some:
  "find_in_dlq tid msgs = Some (msg, t) \<Longrightarrow> message_task msg = Some t \<and> ID t = tid"
  by (induction tid msgs rule: find_in_dlq.induct) (auto split: option.splits if_splits)

lemma get_dlq_loop_tasks:
  "get_dlq_loop limit n (to_messages es) =
     map snd (if limit > 0 then take (nat (limit - n)) (tasks_of es) else tasks_of es)"
proof (induction es arbitrary: n rule: tasks_of.induct)
  case 1
  then show ?case by (simp add: to_messages_def)
next
  case (2 i vs es)
  have hd: "to_messages ((i, vs) # es) = \<lparr>xm_ID = i, xm_Values = vs\<rparr> # to_messages es"
    by (simp add: to_messages_def)
  show ?case
  proof (cases "message_task \<lparr>xm_ID = i, xm_Values = vs\<rparr>")
    case None
    with 2 show ?thesis by (simp add: hd)
  next
    case (Some t)
    have "nat (limit - n) = Suc (nat (limit - (n + 1)))" if "n < limit" using that by simp
    with Some 2 show ?thesis by (auto simp: hd)
  qed
qed

text \<open>The task as \<open>Retry\<close> and \<open>MoveToDLQ\<close> change it before they store it.\<close>

definition retried :: "TaskProto \<Rightarrow> TaskProto" where
  "retried t = t\<lparr>Metadata := Some ((metadata_or_zero t)\<lparr>State := TaskStateRetry\<rparr>)\<rparr>"

definition buried :: "go_error option \<Rightarrow> TaskProto \<Rightarrow> TaskProto" where
  "buried err t = t\<lparr>Metadata := Some (let m = (metadata_or_zero t)\<lparr>State := TaskStateDead\<rparr>
     in case err of None \<Rightarrow> m | Some e \<Rightarrow> m\<lparr>LastError := error_text e\<rparr>)\<rparr>"

definition revived :: "TaskProto \<Rightarrow> TaskMetadata \<Rightarrow> TaskProto" where
  "revived t m = t\<lparr>Metadata := Some (m\<lparr>State := TaskStatePending, RetryCount := 0, LastError := ''''\<rparr>)\<rparr>"

lemma task_wf_changed [simp]:
  "task_wf (retried t) = task_wf t" "task_wf (buried e t) = task_wf t" "task_wf (revived t m) = task_wf t"
  by (simp_all add: task_wf_def retried_def buried_def revived_def)

lemma message_id_changed [simp]:
  "StreamMsgID (metadata_or_zero (retried t)) = StreamMsgID (metadata_or_zero t)"
  "StreamMsgID (metadata_or_zero (buried e t)) = StreamMsgID (metadata_or_zero t)"
  by (simp_all add: retried_def buried_def Let_def metadata_or_zero_def split: option.split)

lemma commands_step_unstream:
  "commands_step (unstream cfg q m @ cs) d d' \<longleftrightarrow>
     commands_step cs (if StreamMsgID m = '''' then d else
       command_eff '''' (XDel (streamKey q) (StreamMsgID m))
         (command_eff '''' (XAck (streamKey q) (Group cfg) (StreamMsgID m)) d)) d'"
  by (simp add: unstream_def command_step_simps)

lemma view_take_off:
  "view cfg (if i = '''' then d else command_eff x (XDel (streamKey q) i)
      (command_eff y (XAck (streamKey q) (Group cfg) i) d)) q' =
     (if q' = q then take_off i (view cfg d q) else view cfg d q')"
  by (simp add: take_off_def view_drop_message)

context redis_server
begin

lemma Publish_success:
  assumes "Publish E q t w = (Ret None, w')"
  obtains j i where "marshal_task t = Inr j" and "fresh_id (db w) (streamKey q) i"
    and "db w' = command_eff '''' (HIncrBy (statsPrefix @ q) ''enqueued'' 1)
          (command_eff '''' (SAdd queuesKey q)
            (command_eff i (XAdd (streamKey q) [(''data'', JsonText j)]) (db w)))"
    and "clk w \<le> clk w'"
proof -
  from assms obtain j where j: "marshal_task t = Inr j"
    and run: "pipe_exec E [XAdd (streamKey q) [(''data'', JsonText j)], SAdd queuesKey q,
      HIncrBy (statsPrefix @ q) ''enqueued'' 1] w = (None, w')"
    by (auto simp: Publish_def run_iff split: sum.splits)
  from pipe_ok [OF run] j that show thesis
    by (auto simp: command_step_simps)
qed

lemma Publish_refines:
  assumes "task_wf t" and "Publish E q t w = (Ret None, w')"
  shows "\<exists>i. fresh_id (db w) (streamKey q) i \<and>
    view cfg (db w') = (view cfg (db w))(q := put_ready i (norm_task t) (view cfg (db w) q))"
  using assms(2)
proof (rule Publish_success)
  fix j i
  assume j: "marshal_task t = Inr j" and i: "fresh_id (db w) (streamKey q) i"
    and d: "db w' = command_eff '''' (HIncrBy (statsPrefix @ q) ''enqueued'' 1)
          (command_eff '''' (SAdd queuesKey q)
            (command_eff i (XAdd (streamKey q) [(''data'', JsonText j)]) (db w)))"
  show ?thesis
    by (rule exI [of _ i])
      (simp add: i d fun_eq_iff view_commands message_task_marshalled [OF assms(1) j]
        del: message_task_data)
qed

lemma Publish_bookkeeping:
  assumes "Publish E q t w = (Ret None, w')"
  shows "sets (db w') queuesKey = insert q (sets (db w) queuesKey) \<and>
    hashes (db w') (statsPrefix @ q) ''enqueued'' = hashes (db w) (statsPrefix @ q) ''enqueued'' + 1 \<and>
    strings (db w') = strings (db w) \<and> clk w \<le> clk w'"
  using assms by (rule Publish_success) (simp add: db_simps)

lemma Schedule_success:
  assumes "Schedule E t at w = (Ret None, w')"
  obtains j where "marshal_task t = Inr j"
    and "commands_step [ZAdd (scheduledKey (task_Queue t)) (unix at) (JsonText j),
      SAdd queuesKey (task_Queue t), HIncrBy (statsPrefix @ task_Queue t) ''scheduled'' 1] (db w) (db w')"
    and "clk w \<le> clk w'"
  using assms
  by (auto simp: Schedule_def run_iff task_Queue_def Let_def
      simp del: commands_step.simps dest!: pipe_ok split: sum.splits)


lemma Schedule_refines:
  assumes "Schedule E t at w = (Ret None, w')"
  shows "\<exists>j. marshal_task t = Inr j \<and>
    view cfg (db w') = (view cfg (db w))(task_Queue t :=
      put_later (JsonText j) (unix at) (view cfg (db w) (task_Queue t))) \<and>
    task_Queue t \<in> sets (db w') queuesKey"
  using assms
proof (rule Schedule_success)
  fix j
  assume "marshal_task t = Inr j"
    and "commands_step [ZAdd (scheduledKey (task_Queue t)) (unix at) (JsonText j),
      SAdd queuesKey (task_Queue t), HIncrBy (statsPrefix @ task_Queue t) ''scheduled'' 1] (db w) (db w')"
  then show ?thesis
    by (auto simp: command_step_simps fun_eq_iff view_commands, simp add: db_simps)
qed

lemma Ack_refines:
  assumes "Ack E cfg q i w = (Ret None, w')"
  shows "view cfg (db w') = (view cfg (db w))(q := drop_message i (view cfg (db w) q)) \<and>
    hashes (db w') (statsPrefix @ q) ''completed'' = hashes (db w) (statsPrefix @ q) ''completed'' + 1"
proof -
  from assms have "commands_step [XAck (streamKey q) (Group cfg) i, XDel (streamKey q) i,
      HIncrBy (statsPrefix @ q) ''completed'' 1] (db w) (db w')"
    by (auto simp: Ack_def run_iff dest: pipe_ok)
  then show ?thesis
    by (simp add: command_step_simps fun_eq_iff view_commands) (simp add: db_simps)
qed

lemma Retry_result:
  assumes "Retry E cfg q t delay w = (Ret (err, t'), w')"
  shows "t' = retried t"
  using assms by (auto simp: Retry_def Let_def retried_def run_iff split: sum.splits)

lemma Retry_refines:
  assumes "Retry E cfg q t delay w = (Ret (None, t'), w')"
  shows "\<exists>j. marshal_task (retried t) = Inr j \<and>
    view cfg (db w') = (view cfg (db w))(q :=
      put_retry (JsonText j) (unix (fst (clock E w) + sint delay))
        (take_off (StreamMsgID (metadata_or_zero t)) (view cfg (db w) q)))"
proof -
  let ?m = "metadata_or_zero (retried t)"
  have m: "(metadata_or_zero t)\<lparr>State := TaskStateRetry\<rparr> = ?m"
    by (simp add: retried_def metadata_or_zero_def)
  have t': "t\<lparr>Metadata := Some ?m\<rparr> = retried t"
    by (simp add: retried_def metadata_or_zero_def)
  from assms obtain j now w1 where j: "marshal_task (retried t) = Inr j" and now: "clock E w = (now, w1)"
    and run: "pipe_exec E (unstream cfg q ?m @ [ZAdd (retryKey q) (unix (now + sint delay)) (JsonText j)]) w1 = (None, w')"
    unfolding Retry_def Let_def m t' by (auto simp: run_iff split: sum.splits)
  from clock_ok [OF now] have "db w1 = db w" by simp
  define d where "d = (if StreamMsgID ?m = '''' then db w1 else
       command_eff '''' (XDel (streamKey q) (StreamMsgID ?m))
         (command_eff '''' (XAck (streamKey q) (Group cfg) (StreamMsgID ?m)) (db w1)))"
  from pipe_ok [OF run] have "db w' = command_eff '''' (ZAdd (retryKey q) (unix (now + sint delay)) (JsonText j)) d"
    unfolding commands_step_unstream d_def [symmetric] by (simp add: command_step_simps)
  moreover have "view cfg d q' = (if q' = q then take_off (StreamMsgID ?m) (view cfg (db w1) q)
      else view cfg (db w1) q')" for q'
    unfolding d_def by (rule view_take_off)
  ultimately have "view cfg (db w') = (view cfg (db w))(q :=
      put_retry (JsonText j) (unix (now + sint delay)) (take_off (StreamMsgID ?m) (view cfg (db w) q)))"
    using \<open>db w1 = db w\<close> by (simp add: fun_eq_iff view_ZAdd_retry)
  with j now show ?thesis by simp
qed

lemma MoveToDLQ_result:
  assumes "MoveToDLQ E cfg q t e w = (Ret (err, t'), w')"
  shows "t' = buried e t"
  using assms by (auto simp: MoveToDLQ_def Let_def buried_def run_iff split: sum.splits option.splits)

lemma MoveToDLQ_refines:
  assumes "task_wf t" and "MoveToDLQ E cfg q t e w = (Ret (None, t'), w')"
  shows "\<exists>i. view cfg (db w') = (view cfg (db w))(q :=
      put_dead i (norm_task (buried e t)) (take_off (StreamMsgID (metadata_or_zero t)) (view cfg (db w) q)))"
proof -
  let ?m = "metadata_or_zero (buried e t)"
  have t': "buried e t = t\<lparr>Metadata := Some ?m\<rparr>"
    by (simp add: buried_def metadata_or_zero_def)
  from assms(2) obtain j where j: "marshal_task (buried e t) = Inr j"
    and run: "pipe_exec E (unstream cfg q ?m @ [XAdd (dlqKey q) [(''data'', JsonText j)]]) w = (None, w')"
    by (auto simp: MoveToDLQ_def Let_def buried_def metadata_or_zero_def run_iff split: sum.splits option.splits)
  define d where "d = (if StreamMsgID ?m = '''' then db w else
       command_eff '''' (XDel (streamKey q) (StreamMsgID ?m))
         (command_eff '''' (XAck (streamKey q) (Group cfg) (StreamMsgID ?m)) (db w)))"
  from pipe_ok [OF run] obtain i where "db w' = command_eff i (XAdd (dlqKey q) [(''data'', JsonText j)]) d"
    unfolding commands_step_unstream d_def [symmetric] by (auto simp: command_step_simps)
  moreover have "view cfg d q' = (if q' = q then take_off (StreamMsgID ?m) (view cfg (db w) q)
      else view cfg (db w) q')" for q'
    unfolding d_def by (rule view_take_off)
  ultimately have "view cfg (db w') = (view cfg (db w))(q :=
      put_dead i (norm_task (buried e t)) (take_off (StreamMsgID ?m) (view cfg (db w) q)))"
    using message_task_marshalled [OF _ j] assms(1)
    by (simp add: fun_eq_iff view_XAdd_dlq del: message_task_data)
  then show ?thesis by auto
qed

lemma GetDLQ_result:
  assumes "GetDLQ E q limit w = (Ret (Inr ts), w')"
  shows "ts = map snd (if limit > 0 then take (nat limit) (dead (view cfg (db w) q)) else dead (view cfg (db w) q)) \<and>
    db w' = db w"
proof -
  obtain res w1 where range: "x_range E (dlqKey q) w = (res, w1)" by (cases "x_range E (dlqKey q) w")
  with assms obtain msgs where "x_range E (dlqKey q) w = (Inr msgs, w')" and "ts = get_dlq_loop limit 0 msgs"
    by (cases res) (simp_all add: GetDLQ_def go_bind_lift)
  with x_range_ok [of "dlqKey q" w] show ?thesis
    using get_dlq_loop_tasks [of limit 0 "streams (db w) (dlqKey q)"]
    by (simp add: to_messages_def view_def)
qed

text \<open>The first task with the identifier leaves the dead letter queue and is ready again, as new.\<close>

lemma RetryFromDLQ_revives_fresh:
  assumes "RetryFromDLQ E q tid w = (Ret None, w')"
  shows "\<exists>i t m i'. List.find (\<lambda>(i, t). ID t = tid) (dead (view cfg (db w) q)) = Some (i, t) \<and>
    Metadata t = Some m \<and> fresh_id (db w) (streamKey q) i' \<and>
    view cfg (db w') = (view cfg (db w))(q := put_ready i' (norm_task (revived t m)) (drop_dead i (view cfg (db w) q))) \<and>
    strings (db w') = (strings (db w))(processedPrefix @ tid := None)"
proof -
  obtain res w1 where res: "x_range E (dlqKey q) w = (res, w1)" by (cases "x_range E (dlqKey q) w")
  with assms obtain msgs where msgs: "res = Inr msgs" by (cases res) (simp_all add: RetryFromDLQ_def go_bind_lift)
  with res assms obtain msg t where "find_in_dlq tid msgs = Some (msg, t)"
    by (cases "find_in_dlq tid msgs") (auto simp: RetryFromDLQ_def go_bind_lift)
  with res msgs assms obtain m where range: "x_range E (dlqKey q) w = (Inr msgs, w1)"
    and found: "find_in_dlq tid msgs = Some (msg, t)" and m: "Metadata t = Some m"
    and run: "pipe_exec E [XDel (dlqKey q) (xm_ID msg), XAdd (streamKey q) [(''data'', remarshal (revived t m))],
       Del (processedPrefix @ tid)] w1 = (None, w')"
    by (cases "Metadata t") (auto simp: RetryFromDLQ_def go_bind_lift run_iff Let_def revived_def)
  from range x_range_ok [OF range] have d1: "db w1 = db w"
    and msgs: "msgs = to_messages (streams (db w) (dlqKey q))" by (simp_all add: to_messages_def)
  from find_in_dlq_Some [OF found] have "task_good t" by (blast dest: message_task_good)
  then have good: "task_good (revived t m)"
    using m by (auto simp: task_good_iff revived_def payload_valid_def metadata_good_def split: option.splits)
  then have j: "remarshal (revived t m) = JsonText (json_task (revived t m))"
    by (simp add: remarshal_def good_marshals)
  have task: "message_task \<lparr>xm_ID = i, xm_Values = [(''data'', JsonText (json_task (revived t m)))]\<rparr> =
      Some (norm_task (revived t m))" for i
    using good good_marshals [OF good] by (intro message_task_marshalled) (simp_all add: task_good_def)
  from pipe_ok [OF run] obtain i' where i': "fresh_id (command_eff '''' (XDel (dlqKey q) (xm_ID msg)) (db w)) (streamKey q) i'"
    and "db w' = command_eff '''' (Del (processedPrefix @ tid))
      (command_eff i' (XAdd (streamKey q) [(''data'', JsonText (json_task (revived t m)))])
        (command_eff '''' (XDel (dlqKey q) (xm_ID msg)) (db w)))"
    by (auto simp: command_step_simps d1 j)
  note d' = this
  from d' have "view cfg (db w') = (view cfg (db w))(q :=
      put_ready i' (norm_task (revived t m)) (drop_dead (xm_ID msg) (view cfg (db w) q)))"
    using task by (simp add: fun_eq_iff view_XAdd_stream view_drop_dead del: message_task_data)
  moreover from d' have "strings (db w') = (strings (db w))(processedPrefix @ tid := None)"
    by (simp add: db_simps)
  moreover have "List.find (\<lambda>(i, t). ID t = tid) (dead (view cfg (db w) q)) = Some (xm_ID msg, t)"
    using find_in_dlq_tasks [of tid "streams (db w) (dlqKey q)"] found msgs by (simp add: view_def)
  moreover from i' have "fresh_id (db w) (streamKey q) i'" by (simp add: fresh_id_def db_simps)
  ultimately show ?thesis using m by blast
qed

lemma RetryFromDLQ_refines:
  assumes "RetryFromDLQ E q tid w = (Ret None, w')"
  shows "\<exists>i t m i'. List.find (\<lambda>(i, t). ID t = tid) (dead (view cfg (db w) q)) = Some (i, t) \<and>
    Metadata t = Some m \<and>
    view cfg (db w') = (view cfg (db w))(q := put_ready i' (norm_task (revived t m)) (drop_dead i (view cfg (db w) q))) \<and>
    strings (db w') = (strings (db w))(processedPrefix @ tid := None)"
  using RetryFromDLQ_revives_fresh [OF assms] by blast

lemma RetryFromDLQ_missing:
  assumes "x_range E (dlqKey q) w = (Inr msgs, w1)"
    and "\<forall>(i, t) \<in> set (dead (view cfg (db w) q)). ID t \<noteq> tid"
  shows "RetryFromDLQ E q tid w = (Ret (Some (ErrText (''task '' @ tid @ '' not found in DLQ''))), w1) \<and> db w1 = db w"
proof -
  from assms(1) x_range_ok [OF assms(1)] have "msgs = to_messages (streams (db w) (dlqKey q))" and "db w1 = db w"
    by (simp_all add: to_messages_def)
  moreover have "List.find (\<lambda>(i, t). ID t = tid) (dead (view cfg (db w) q)) = None"
    using assms(2) by (auto simp: find_None_iff)
  then have "find_in_dlq tid (to_messages (streams (db w) (dlqKey q))) = None"
    using find_in_dlq_tasks [of tid "streams (db w) (dlqKey q)"] by (simp add: view_def)
  ultimately show ?thesis
    using assms(1) by (simp add: RetryFromDLQ_def go_bind_lift)
qed

end

end
