(* ===== verification/Redis_Memory.thy ===== *)
theory Redis_Memory
  imports Redis_Env "HOL-Library.AList"
begin

text \<open>
  A Redis server in memory: association lists for the data, a clock that tests set, and a list of
  faults to inject (the next call fails; a pipeline fails after some of its commands). It satisfies
  every law of \<open>Redis_Env\<close>, so those hypotheses can hold together, and the concrete runs of the
  other theories use it. It models no file of the repository.
\<close>

record mem =
  m_streams :: "string \<Rightarrow> (string \<times> (string \<times> bulk) list) list"
  m_pel :: "((string \<times> string \<times> string) \<times> string) list"
  m_delivered :: "(string \<times> string \<times> string) list"
  m_consumers :: "((string \<times> string) \<times> string \<times> int) list"
  m_zsets :: "string \<Rightarrow> (bulk \<times> int) list"
  m_sets :: "string \<Rightarrow> string list"
  m_hashes :: "string \<Rightarrow> (string \<times> int) list"
  m_strings :: "string \<rightharpoonup> string \<times> time option"
  m_now :: time
  m_faults :: "(go_error \<times> nat) option list"

definition empty_mem :: mem where
  "empty_mem = \<lparr>m_streams = (\<lambda>_. []), m_pel = [], m_delivered = [], m_consumers = [], m_zsets = (\<lambda>_. []), m_sets = (\<lambda>_. []),
     m_hashes = (\<lambda>_. []), m_strings = Map.empty, m_now = 0, m_faults = []\<rparr>"

definition mem_db :: "mem \<Rightarrow> redis_db" where
  "mem_db m = \<lparr>streams = m_streams m, pel = (\<lambda>k g i. map_of (m_pel m) (k, g, i)),
     zsets = (\<lambda>k. map_of (m_zsets m k)), sets = (\<lambda>k. set (m_sets m k)),
     hashes = (\<lambda>k f. case map_of (m_hashes m k) f of None \<Rightarrow> 0 | Some n \<Rightarrow> n),
     strings = m_strings m, delivered = (\<lambda>k g. {i. (k, g, i) \<in> set (m_delivered m)})\<rparr>"

text \<open>A new id is longer than every id in use.\<close>

definition mem_id :: "string \<Rightarrow> mem \<Rightarrow> string" where
  "mem_id k m = replicate (Suc (fold max (map (\<lambda>e. length (fst e)) (m_streams m k) @
     map (\<lambda>e. length (snd (snd (fst e)))) (m_pel m) @ map (\<lambda>e. length (snd (snd e))) (m_delivered m)) 0)) CHR ''i''"

fun mem_command :: "command \<Rightarrow> mem \<Rightarrow> mem" where
  "mem_command (XAdd k vs) m = m\<lparr>m_streams := (m_streams m)(k := m_streams m k @ [(mem_id k m, vs)])\<rparr>"
| "mem_command (XAck k g i) m = m\<lparr>m_pel := AList.delete (k, g, i) (m_pel m)\<rparr>"
| "mem_command (XDel k i) m =
     m\<lparr>m_streams := (m_streams m)(k := filter (\<lambda>e. fst e \<noteq> i) (m_streams m k))\<rparr>"
| "mem_command (ZAdd k s x) m = m\<lparr>m_zsets := (m_zsets m)(k := AList.update x s (m_zsets m k))\<rparr>"
| "mem_command (ZRem k x) m = m\<lparr>m_zsets := (m_zsets m)(k := AList.delete x (m_zsets m k))\<rparr>"
| "mem_command (SAdd k x) m = m\<lparr>m_sets := (m_sets m)(k := List.insert x (m_sets m k))\<rparr>"
| "mem_command (HIncrBy k f n) m = m\<lparr>m_hashes := (m_hashes m)(k := AList.update f
     ((case map_of (m_hashes m k) f of None \<Rightarrow> 0 | Some c \<Rightarrow> c) + n) (m_hashes m k))\<rparr>"
| "mem_command (Del k) m =
     m\<lparr>m_streams := (m_streams m)(k := []), m_pel := filter (\<lambda>e. fst (fst e) \<noteq> k) (m_pel m),
       m_delivered := filter (\<lambda>e. fst e \<noteq> k) (m_delivered m),
       m_zsets := (m_zsets m)(k := []), m_sets := (m_sets m)(k := []),
       m_hashes := (m_hashes m)(k := []), m_strings := (m_strings m)(k := None)\<rparr>"

text \<open>Every call first takes the next fault off the list; \<open>redis.Nil\<close> is a reply and no fault.\<close>

definition mem_error :: "go_error \<Rightarrow> go_error" where
  "mem_error e = (if errors_is e RedisNil then ErrText ''unexpected nil reply'' else e)"

definition mem_call :: "(mem \<Rightarrow> 'a \<times> mem) \<Rightarrow> mem \<Rightarrow> (go_error + 'a) \<times> mem" where
  "mem_call f m = (case m_faults m of
      Some (e, n) # fs \<Rightarrow> (Inl (mem_error e), m\<lparr>m_faults := fs\<rparr>)
    | fs \<Rightarrow> (case f (m\<lparr>m_faults := tl fs\<rparr>) of (a, m') \<Rightarrow> (Inr a, m')))"

definition mem_pipe :: "command list \<Rightarrow> mem \<Rightarrow> go_error option \<times> mem" where
  "mem_pipe cs m = (case m_faults m of
      Some (e, n) # fs \<Rightarrow> (Some e, fold mem_command (take n cs) (m\<lparr>m_faults := fs\<rparr>))
    | fs \<Rightarrow> (None, fold mem_command cs (m\<lparr>m_faults := tl fs\<rparr>)))"

definition mem_set_nx :: "string \<Rightarrow> string \<Rightarrow> duration \<Rightarrow> mem \<Rightarrow> bool \<times> mem" where
  "mem_set_nx k v ttl m =
     (if live (mem_db m) (m_now m) k then (False, m)
      else (True, m\<lparr>m_strings := (m_strings m)(k \<mapsto>
        (v, if ttl = 0 then None else Some (m_now m + sint ttl)))\<rparr>))"

definition mem_zrange :: "string \<Rightarrow> int \<Rightarrow> int \<Rightarrow> mem \<Rightarrow> bulk list" where
  "mem_zrange k hi limit m =
     (let ms = map fst (filter (\<lambda>e. snd e \<le> hi) (sort_key snd (AList.clearjunk (m_zsets m k))))
      in if limit < 0 then ms else take (nat limit) ms)"

definition mem_undelivered :: "string \<Rightarrow> string \<Rightarrow> mem \<Rightarrow> (string \<times> (string \<times> bulk) list) list" where
  "mem_undelivered k g m = filter (\<lambda>e. (k, g, fst e) \<notin> set (m_delivered m)) (m_streams m k)"

definition mem_deliver :: "string \<Rightarrow> string \<Rightarrow> string \<times> XMessage list \<Rightarrow> mem \<Rightarrow> mem" where
  "mem_deliver g c kms m = (case kms of (k, ms) \<Rightarrow>
     m\<lparr>m_pel := map (\<lambda>x. ((k, g, xm_ID x), c)) ms @ m_pel m,
       m_delivered := map (\<lambda>x. (k, g, xm_ID x)) ms @ m_delivered m\<rparr>)"

definition mem_pending_ids :: "string \<Rightarrow> string \<Rightarrow> mem \<Rightarrow> string list" where
  "mem_pending_ids k g m =
     remdups (map (\<lambda>e. snd (snd (fst e))) (filter (\<lambda>e. fst (fst e) = k \<and> fst (snd (fst e)) = g) (m_pel m)))"

definition mem_read_new ::
  "string \<Rightarrow> string \<Rightarrow> string list \<Rightarrow> int \<Rightarrow> mem \<Rightarrow> (string \<times> XMessage list) list \<times> mem" where
  "mem_read_new g c ks n m =
     (let res = filter (\<lambda>kms. snd kms \<noteq> [])
        (map (\<lambda>k. (k, to_messages (take (nat n) (mem_undelivered k g m)))) (remdups ks))
      in (res, fold (mem_deliver g c) res m))"

definition mem_read_pending :: "string \<Rightarrow> string \<Rightarrow> string \<Rightarrow> mem \<Rightarrow> XMessage list" where
  "mem_read_pending k g c m =
     map (\<lambda>i. \<lparr>xm_ID = i, xm_Values = (case map_of (m_streams m k) i of None \<Rightarrow> [] | Some vs \<Rightarrow> vs)\<rparr>)
       (filter (\<lambda>i. map_of (m_pel m) (k, g, i) = Some c) (mem_pending_ids k g m))"

definition mem_claim :: "string \<Rightarrow> string \<Rightarrow> string \<Rightarrow> int \<Rightarrow> mem \<Rightarrow> XMessage list \<times> mem" where
  "mem_claim k g c n m =
     (let is = take (nat n) (filter (\<lambda>i. map_of (m_streams m k) i \<noteq> None) (mem_pending_ids k g m))
      in (map (\<lambda>i. \<lparr>xm_ID = i, xm_Values = the (map_of (m_streams m k) i)\<rparr>) is,
          m\<lparr>m_pel := map (\<lambda>i. ((k, g, i), c)) is @ m_pel m\<rparr>))"

definition mem_info_groups :: "string \<Rightarrow> mem \<Rightarrow> ConsumerGroupInfo list" where
  "mem_info_groups k m =
     map (\<lambda>g. \<lparr>cg_Name = g, cg_Consumers = 0, cg_Pending = int (length (mem_pending_ids k g m)), cg_LastDeliveredID = ''''\<rparr>)
       (remdups (map (\<lambda>e. snd (fst e)) (filter (\<lambda>e. fst (fst e) = k) (m_consumers m))))"

definition mem_info_consumers :: "string \<Rightarrow> string \<Rightarrow> mem \<Rightarrow> ConsumerInfo list" where
  "mem_info_consumers k g m =
     map (\<lambda>(kg, c, idle). \<lparr>ci_Name = c,
         ci_Pending = int (length (filter (\<lambda>i. map_of (m_pel m) (k, g, i) = Some c) (mem_pending_ids k g m))),
         ci_Idle = idle, ci_Inactive = idle\<rparr>)
       (filter (\<lambda>e. fst e = (k, g)) (m_consumers m))"

definition mem_del_consumer :: "string \<Rightarrow> string \<Rightarrow> string \<Rightarrow> mem \<Rightarrow> mem" where
  "mem_del_consumer k g c m =
     m\<lparr>m_consumers := filter (\<lambda>e. \<not> (fst e = (k, g) \<and> fst (snd e) = c)) (m_consumers m),
       m_pel := filter (\<lambda>e. \<not> (fst (fst e) = k \<and> fst (snd (fst e)) = g \<and> map_of (m_pel m) (fst e) = Some c)) (m_pel m)\<rparr>"

definition mem_script :: "(mem, int) go \<Rightarrow> mem \<Rightarrow> (go_error + int) \<times> mem" where
  "mem_script s m = (case m_faults m of
      Some (e, n) # fs \<Rightarrow> (Inl e, m\<lparr>m_faults := fs\<rparr>)
    | fs \<Rightarrow> (case s (m\<lparr>m_faults := tl fs\<rparr>) of
        (Ret n, m') \<Rightarrow> (Inr n, m') | (Panic msg, m') \<Rightarrow> (Inl (ErrText msg), m')))"

definition mem_env :: "mem env" where
  "mem_env = \<lparr>clock = (\<lambda>m. (m_now m, m)),
     ctx_err = (\<lambda>m. None),
     go_sleep = (\<lambda>d m. ((), m\<lparr>m_now := m_now m + max 0 (sint d)\<rparr>)),
     pipe_exec = mem_pipe,
     command_do = (\<lambda>c. mem_pipe [c]),
     set_nx = (\<lambda>k v ttl. mem_call (mem_set_nx k v ttl)),
     x_range = (\<lambda>k. mem_call (\<lambda>m. (to_messages (m_streams m k), m))),
     x_len = (\<lambda>k. mem_call (\<lambda>m. (int (length (m_streams m k)), m))),
     x_pending = (\<lambda>k g. mem_call (\<lambda>m. (int (length (mem_pending_ids k g m)), m))),
     z_card = (\<lambda>k. mem_call (\<lambda>m. (int (length (AList.clearjunk (m_zsets m k))), m))),
     h_get_all = (\<lambda>k. mem_call (\<lambda>m. (map (\<lambda>(f, n). (f, show_int n)) (m_hashes m k), m))),
     s_members = (\<lambda>k. mem_call (\<lambda>m. (remdups (m_sets m k), m))),
     ping = mem_pipe [],
     x_group_create = (\<lambda>k g start m. (None, m)),
     x_read_group = (\<lambda>g c sts n block. mem_call (\<lambda>m.
       if list_all (\<lambda>st. snd st = ''>'') sts then mem_read_new g c (map fst sts) n m
       else (map (\<lambda>st. (fst st, mem_read_pending (fst st) g c m)) sts, m))),
     x_auto_claim = (\<lambda>k g c idle start n. mem_call (mem_claim k g c n)),
     x_info_groups = (\<lambda>k. mem_call (\<lambda>m. (mem_info_groups k m, m))),
     x_info_consumers = (\<lambda>k g. mem_call (\<lambda>m. (mem_info_consumers k g m, m))),
     x_group_del_consumer = (\<lambda>k g c m. (None, mem_del_consumer k g c m)),
     script_run = mem_script,
     lua_call = (\<lambda>c m. (Ret (), mem_command c m)),
     lua_smembers = (\<lambda>k m. (Ret (remdups (m_sets m k)), m)),
     lua_zrangebyscore = (\<lambda>k hi limit m. (Ret (mem_zrange k hi limit m), m)),
     cjson_decode = (\<lambda>b. case b of JsonText j \<Rightarrow> Some j | PlainText s \<Rightarrow> None),
     cjson_encode = JsonText\<rparr>"

lemma mem_env_sel [simp]:
  "clock mem_env = (\<lambda>m. (m_now m, m))"
  "ctx_err mem_env = (\<lambda>m. None)"
  "go_sleep mem_env = (\<lambda>d m. ((), m\<lparr>m_now := m_now m + max 0 (sint d)\<rparr>))"
  "pipe_exec mem_env = mem_pipe"
  "command_do mem_env = (\<lambda>c. mem_pipe [c])"
  "set_nx mem_env = (\<lambda>k v ttl. mem_call (mem_set_nx k v ttl))"
  "x_range mem_env = (\<lambda>k. mem_call (\<lambda>m. (to_messages (m_streams m k), m)))"
  "x_len mem_env = (\<lambda>k. mem_call (\<lambda>m. (int (length (m_streams m k)), m)))"
  "x_pending mem_env = (\<lambda>k g. mem_call (\<lambda>m. (int (length (mem_pending_ids k g m)), m)))"
  "z_card mem_env = (\<lambda>k. mem_call (\<lambda>m. (int (length (AList.clearjunk (m_zsets m k))), m)))"
  "h_get_all mem_env = (\<lambda>k. mem_call (\<lambda>m. (map (\<lambda>(f, n). (f, show_int n)) (m_hashes m k), m)))"
  "s_members mem_env = (\<lambda>k. mem_call (\<lambda>m. (remdups (m_sets m k), m)))"
  "ping mem_env = mem_pipe []"
  "x_group_create mem_env = (\<lambda>k g start m. (None, m))"
  "x_read_group mem_env = (\<lambda>g c sts n block. mem_call (\<lambda>m. if list_all (\<lambda>st. snd st = ''>'') sts then mem_read_new g c (map fst sts) n m else (map (\<lambda>st. (fst st, mem_read_pending (fst st) g c m)) sts, m)))"
  "x_auto_claim mem_env = (\<lambda>k g c idle start n. mem_call (mem_claim k g c n))"
  "x_info_groups mem_env = (\<lambda>k. mem_call (\<lambda>m. (mem_info_groups k m, m)))"
  "x_info_consumers mem_env = (\<lambda>k g. mem_call (\<lambda>m. (mem_info_consumers k g m, m)))"
  "x_group_del_consumer mem_env = (\<lambda>k g c m. (None, mem_del_consumer k g c m))"
  "script_run mem_env = mem_script"
  "lua_call mem_env = (\<lambda>c m. (Ret (), mem_command c m))"
  "lua_smembers mem_env = (\<lambda>k m. (Ret (remdups (m_sets m k)), m))"
  "lua_zrangebyscore mem_env = (\<lambda>k hi limit m. (Ret (mem_zrange k hi limit m), m))"
  "cjson_decode mem_env = (\<lambda>b. case b of JsonText j \<Rightarrow> Some j | PlainText s \<Rightarrow> None)"
  "cjson_encode mem_env = JsonText"
  by (simp_all add: mem_env_def)

section \<open>The laws\<close>

lemma fold_max_base: "(b :: nat) \<le> fold max xs b"
proof (induction xs arbitrary: b)
  case (Cons y xs)
  show ?case using Cons.IH [of "max y b"] by simp
qed simp

lemma fold_max_ge: "(x :: nat) \<in> set xs \<Longrightarrow> x \<le> fold max xs a"
proof (induction xs arbitrary: a)
  case (Cons y xs)
  then show ?case using fold_max_base [of "max y a" xs] by auto
qed simp

lemma mem_id_fresh: "fresh_id (mem_db m) k (mem_id k m)"
proof -
  let ?ls = "map (\<lambda>e. length (fst e)) (m_streams m k) @
     map (\<lambda>e. length (snd (snd (fst e)))) (m_pel m) @ map (\<lambda>e. length (snd (snd e))) (m_delivered m)"
  have "length (mem_id k m) = Suc (fold max ?ls 0)" by (simp add: mem_id_def)
  then have len: "length (mem_id k m) \<notin> set ?ls" using fold_max_ge [of _ ?ls 0] by fastforce
  have "mem_id k m \<notin> fst ` set (m_streams m k)" using len by force
  moreover have "map_of (m_pel m) (k, g, mem_id k m) = None" for g
    using len by (force simp: map_of_eq_None_iff)
  moreover have "(k, g, mem_id k m) \<notin> set (m_delivered m)" for g using len by force
  moreover have "mem_id k m \<noteq> ''''" by (simp add: mem_id_def)
  ultimately show ?thesis by (simp add: fresh_id_def mem_db_def)
qed

lemma mem_command_eff: "mem_db (mem_command c m) = command_eff (mem_id (case c of XAdd k vs \<Rightarrow> k | _ \<Rightarrow> '''') m) c (mem_db m)"
proof (cases c)
  case (Del k)
  have "map_of (filter (\<lambda>e. fst (fst e) \<noteq> k) al) (k', g, i) = (if k' = k then None else map_of al (k', g, i))"
    for al :: "((string \<times> string \<times> string) \<times> string) list" and k' g i
    by (induction al) auto
  with Del show ?thesis by (auto simp: mem_db_def db_simps fun_eq_iff)
qed (auto simp: mem_db_def db_simps fun_eq_iff update_conv' delete_conv' split: option.splits)

lemma mem_command_step: "command_step c (mem_db m) (mem_db (mem_command c m))"
  using mem_id_fresh [of m]
  by (cases c) (auto simp: mem_command_eff command_step_simps db_simps simp del: mem_command.simps)

lemma mem_commands_step: "commands_step cs (mem_db m) (mem_db (fold mem_command cs m))"
  by (induction cs arbitrary: m) (auto intro: mem_command_step)

lemma mem_take_commands_step: "commands_step (take n cs) (mem_db m) (mem_db (fold mem_command (take n cs) m))"
  by (rule mem_commands_step)

lemma mem_now_command [simp]: "m_now (mem_command c m) = m_now m"
  by (cases c) auto

lemma mem_now_commands [simp]: "m_now (fold mem_command cs m) = m_now m"
  by (induction cs arbitrary: m) auto

lemma mem_db_faults [simp]: "mem_db (m\<lparr>m_faults := fs\<rparr>) = mem_db m"
  by (simp add: mem_db_def)

lemma mem_call_cases:
  assumes "mem_call f m = (r, m')"
  obtains (fault) e fs where "r = Inl (mem_error e)" "m' = m\<lparr>m_faults := fs\<rparr>"
  | (ran) a fs where "r = Inr a" "f (m\<lparr>m_faults := fs\<rparr>) = (a, m')"
proof (cases "\<exists>e n fs. m_faults m = Some (e, n) # fs")
  case True
  with assms fault show thesis by (auto simp: mem_call_def)
next
  case False
  then have "mem_call f m = (case f (m\<lparr>m_faults := tl (m_faults m)\<rparr>) of (a, m') \<Rightarrow> (Inr a, m'))"
    by (auto simp: mem_call_def split: list.splits option.splits)
  with assms ran show thesis by (auto split: prod.splits)
qed

lemma mem_pipe_ok:
  "mem_pipe cs m = (None, m') \<Longrightarrow> commands_step cs (mem_db m) (mem_db m') \<and> m_now m \<le> m_now m'"
  using mem_commands_step [of cs "m\<lparr>m_faults := tl (m_faults m)\<rparr>"]
  by (auto simp: mem_pipe_def split: list.splits option.splits)

lemma mem_pipe_fail:
  assumes "mem_pipe cs m = (Some e, m')"
  shows "\<exists>n. commands_step (take n cs) (mem_db m) (mem_db m') \<and> m_now m \<le> m_now m'"
proof -
  from assms obtain n fs where "m' = fold mem_command (take n cs) (m\<lparr>m_faults := fs\<rparr>)"
    by (auto simp: mem_pipe_def split: list.splits option.splits)
  then show ?thesis using mem_take_commands_step [of n cs "m\<lparr>m_faults := fs\<rparr>"] by auto
qed

lemma mem_set_nx_ok:
  assumes "mem_set_nx k v ttl m = (b, m')"
  shows "set_nx_eff k v ttl (m_now m) (mem_db m) b (mem_db m') \<and> m_now m' = m_now m"
proof (cases "live (mem_db m) (m_now m) k")
  case True
  with assms show ?thesis by (simp add: mem_set_nx_def set_nx_eff_def)
next
  case False
  have le: "sint ttl div Millisecond * Millisecond \<le> sint ttl"
    by (simp add: Millisecond_def) 
  let ?x = "if ttl = 0 then None else Some (m_now m + sint ttl)"
  have "expiry_ok (m_now m) ttl ?x" using le by (simp add: expiry_ok_def)
  moreover have "mem_db m' = (mem_db m)\<lparr>strings := (strings (mem_db m))(k \<mapsto> (v, ?x))\<rparr>"
    using assms False by (auto simp: mem_set_nx_def mem_db_def)
  ultimately show ?thesis using assms False by (auto simp: mem_set_nx_def set_nx_eff_def)
qed

lemma card_dom_map_of: "card (dom (map_of al)) = length (AList.clearjunk al)"
proof -
  have "dom (map_of al) = set (map fst (AList.clearjunk al))"
    by (metis dom_clearjunk dom_map_of_conv_image_fst list.set_map)
  then show ?thesis using distinct_clearjunk [of al] by (metis distinct_card length_map)
qed

lemma mem_pending_ids_dom: "set (mem_pending_ids k g m) = dom (pel (mem_db m) k g)"
proof -
  have "(map_of al (k, g, i) \<noteq> None) \<longleftrightarrow>
      i \<in> set (map (\<lambda>e. snd (snd (fst e))) (filter (\<lambda>e. fst (fst e) = k \<and> fst (snd (fst e)) = g) al))"
    for al :: "((string \<times> string \<times> string) \<times> string) list" and i
    by (induction al) auto
  then show ?thesis by (simp add: mem_pending_ids_def mem_db_def dom_def set_eq_iff)
qed

lemma mem_pending_count:
  "finite (dom (pel (mem_db m) k g)) \<and> length (mem_pending_ids k g m) = card (dom (pel (mem_db m) k g))"
proof -
  have "distinct (mem_pending_ids k g m)" by (simp add: mem_pending_ids_def)
  then show ?thesis using distinct_card mem_pending_ids_dom [of k g m]
    by (metis List.finite_set)
qed

lemma mem_hashes:
  "case map_of (map (\<lambda>(f, n). (f, show_int n)) al) f of None \<Rightarrow> (case map_of al f of None \<Rightarrow> 0 | Some n \<Rightarrow> n) = 0
   | Some v \<Rightarrow> v = show_int (case map_of al f of None \<Rightarrow> 0 | Some n \<Rightarrow> n)"
  by (induction al) (auto split: option.splits)

text \<open>A prefix of the entries in score order is what \<open>ZRANGEBYSCORE\<close> with a limit returns.\<close>


lemma zrange_take:
  assumes s: "sorted (map snd es)" and d: "distinct (map fst es)"
    and le: "\<forall>e \<in> set es. snd e \<le> hi"
    and z: "\<And>x s. s \<le> hi \<Longrightarrow> z x = Some s \<longleftrightarrow> (x, s) \<in> set es"
  shows "zrange_ok z hi (int n) (map fst (take n es))"
proof -
  have sub: "set (take n es) \<subseteq> set es" by (rule set_take_subset)
  have dist: "distinct (map fst (take n es))" using d by (metis distinct_take take_map)
  have val: "z (fst e) = Some (snd e) \<and> snd e \<le> hi" if "e \<in> set es" for e
    using that le z [of "snd e" "fst e"] by simp
  have low: "snd e \<le> s'" if e: "e \<in> set (take n es)" and x: "z x = Some s'" "s' \<le> hi"
    "x \<notin> fst ` set (take n es)" for e x s'
  proof -
    have "(x, s') \<in> set es" using z x by blast
    then have "(x, s') \<in> set (drop n es)"
      by (metis (mono_tags) Un_iff append_take_drop_id fst_conv image_eqI set_append x(3))
    moreover have "sorted (map snd (take n es) @ map snd (drop n es))"
      using s by (metis append_take_drop_id map_append)
    ultimately show ?thesis using e by (force simp: sorted_append)
  qed
  have all: "n \<le> length es" if "z x = Some s'" "s' \<le> hi" "x \<notin> fst ` set (take n es)" for x s'
  proof (rule ccontr)
    assume "\<not> n \<le> length es"
    then have "(x, s') \<in> set (take n es)" using z that by simp
    with that(3) show False by force
  qed
  show ?thesis unfolding zrange_ok_def
    using dist sub val low all by (fastforce simp: min_def)
qed

lemma mem_zrange_ok: "zrange_ok (map_of (m_zsets m k)) hi limit (mem_zrange k hi limit m)"
proof -
  let ?all = "sort_key snd (AList.clearjunk (m_zsets m k))"
  let ?es = "filter (\<lambda>e. snd e \<le> hi) ?all"
  have dist: "distinct (map fst (AList.clearjunk (m_zsets m k)))" by (rule distinct_clearjunk)
  have "distinct (map fst ?all)"
    using dist by (metis (no_types, lifting) distinct_map distinct_sort set_sort)
  then have d: "distinct (map fst ?es)" by (rule distinct_map_filter)
  have s: "sorted (map snd ?es)" by (simp add: sorted_filter)
  have z: "map_of (m_zsets m k) x = Some s \<longleftrightarrow> (x, s) \<in> set ?es" if "s \<le> hi" for x s
    using that map_of_clearjunk [of "m_zsets m k"] map_of_eq_Some_iff [OF dist] by auto
  show ?thesis
  proof (cases "limit < 0")
    case True
    have "zrange_ok (map_of (m_zsets m k)) hi (int (length ?es)) (map fst (take (length ?es) ?es))"
      by (rule zrange_take [OF s d _ z]) simp_all
    with True z show ?thesis by (force simp: zrange_ok_def mem_zrange_def Let_def image_iff)
  next
    case False
    have "zrange_ok (map_of (m_zsets m k)) hi (int (nat limit)) (map fst (take (nat limit) ?es))"
      by (rule zrange_take [OF s d _ z]) simp_all
    with False show ?thesis by (simp add: mem_zrange_def take_map)
  qed
qed

text \<open>Reading.\<close>

lemma to_messages_ids: "map xm_ID (to_messages es) = map fst es"
  by (induction es) (auto simp: to_messages_def)

lemma mem_db_deliver: "mem_db (mem_deliver g c kms m) = deliver g c kms (mem_db m)"
proof (cases kms)
  case (Pair k ms)
  have "map_of (map (\<lambda>x. ((k, g, xm_ID x), c)) ms @ al) (k', g', i) =
      (if k' = k \<and> g' = g \<and> i \<in> xm_ID ` set ms then Some c else map_of al (k', g', i))" for al k' g' i
    by (induction ms) auto
  with Pair show ?thesis
    by (auto simp: mem_deliver_def deliver_def mem_db_def fun_eq_iff image_iff)
qed

lemma mem_now_deliver [simp]: "m_now (mem_deliver g c kms m) = m_now m"
  by (cases kms) (simp add: mem_deliver_def)

lemma mem_db_deliver_fold:
  "mem_db (fold (mem_deliver g c) res m) = fold (deliver g c) res (mem_db m) \<and>
   m_now (fold (mem_deliver g c) res m) = m_now m"
  by (induction res arbitrary: m) (auto simp: mem_db_deliver)

lemma mem_undelivered: "mem_undelivered k g m = undelivered (mem_db m) k g"
  by (simp add: mem_undelivered_def undelivered_def mem_db_def)

lemma mem_read_new_ok:
  assumes "mem_read_new g c ks n m = (res, m')"
  shows "read_new_ok g ks n (mem_db m) res \<and> mem_db m' = fold (deliver g c) res (mem_db m) \<and> m_now m' = m_now m"
proof -
  have "distinct (map fst res)"
    using assms by (auto simp: mem_read_new_def Let_def comp_def intro!: distinct_map_filter)
  then have "read_new_ok g ks n (mem_db m) res"
    using assms by (auto simp: mem_read_new_def Let_def read_new_ok_def mem_undelivered)
  then show ?thesis using assms mem_db_deliver_fold [of g c res m] by (auto simp: mem_read_new_def Let_def)
qed

lemma mem_read_pending_ok: "read_pending_ok k g c (mem_db m) (mem_read_pending k g c m)"
proof -
  have "distinct (mem_pending_ids k g m)" by (simp add: mem_pending_ids_def)
  moreover have "i \<in> set (mem_pending_ids k g m)" if "map_of (m_pel m) (k, g, i) = Some c" for i
    using that mem_pending_ids_dom [of k g m] by (auto simp: mem_db_def)
  ultimately show ?thesis
    by (fastforce simp: read_pending_ok_def mem_read_pending_def mem_db_def comp_def filter_empty_conv)
qed

lemma mem_claim_ok:
  assumes "mem_claim k g c n m = (ms, m')"
  shows "claim_ok k g c (mem_db m) ms (mem_db m') \<and> m_now m' = m_now m"
proof -
  define ids where "ids = take (nat n) (filter (\<lambda>i. map_of (m_streams m k) i \<noteq> None) (mem_pending_ids k g m))"
  have "distinct (mem_pending_ids k g m)" by (simp add: mem_pending_ids_def)
  then have d: "distinct ids" by (simp add: ids_def)
  have in_ids: "i \<in> set (mem_pending_ids k g m) \<and> (\<exists>vs. map_of (m_streams m k) i = Some vs)" if "i \<in> set ids" for i
    using that by (auto simp: ids_def dest: in_set_takeD)
  have ms: "ms = map (\<lambda>i. \<lparr>xm_ID = i, xm_Values = the (map_of (m_streams m k) i)\<rparr>) ids"
    and m': "m' = m\<lparr>m_pel := map (\<lambda>i. ((k, g, i), c)) ids @ m_pel m\<rparr>"
    using assms by (simp_all add: mem_claim_def ids_def Let_def)
  have pend: "pel (mem_db m) k g i \<noteq> None" if "i \<in> set ids" for i
    using in_ids [OF that] mem_pending_ids_dom [of k g m] by auto
  have stored: "(i, the (map_of (m_streams m k) i)) \<in> set (m_streams m k)" if "i \<in> set ids" for i
    using in_ids [OF that] by (auto dest: map_of_SomeD)
  have "map_of (map (\<lambda>i. ((k, g, i), c)) ids @ al) (k', g', i) =
      (if k' = k \<and> g' = g \<and> i \<in> set ids then Some c else map_of al (k', g', i))" for al k' g' i
    by (induction ids) auto
  then have "mem_db m' = (mem_db m)\<lparr>pel := (pel (mem_db m))(k := (pel (mem_db m) k)(g := (\<lambda>i.
      if i \<in> set ids then Some c else if i \<in> {} then None else pel (mem_db m) k g i)))\<rparr>"
    by (auto simp: m' mem_db_def fun_eq_iff)
  then have "\<exists>gone. (\<forall>i \<in> gone. i \<notin> fst ` set (streams (mem_db m) k)) \<and>
      mem_db m' = (mem_db m)\<lparr>pel := (pel (mem_db m))(k := (pel (mem_db m) k)(g := (\<lambda>i.
      if i \<in> set ids then Some c else if i \<in> gone then None else pel (mem_db m) k g i)))\<rparr>"
    by (intro exI [of _ "{}"]) simp
  moreover have "xm_ID ` set ms = set ids" by (auto simp: ms image_iff)
  ultimately show ?thesis
    using d pend stored by (simp add: claim_ok_def ms comp_def m') (auto simp: mem_db_def)
qed

lemma mem_call_Inr: "mem_call f m = (Inr a, m') \<Longrightarrow> \<exists>fs. f (m\<lparr>m_faults := fs\<rparr>) = (a, m')"
  by (erule mem_call_cases) auto

lemma mem_call_Inl:
  "mem_call f m = (Inl e, m') \<Longrightarrow> mem_db m' = mem_db m \<and> m_now m' = m_now m \<and> \<not> errors_is e RedisNil"
  by (erule mem_call_cases) (auto simp: mem_error_def)

lemma mem_call_query:
  assumes "mem_call (\<lambda>m. (f m, m)) m = (r, m')" and "\<And>m1. mem_db m1 = mem_db m \<Longrightarrow> P (f m1)"
  shows "mem_db m' = mem_db m \<and> m_now m \<le> m_now m' \<and> (\<forall>a. r = Inr a \<longrightarrow> P a)"
  using assms(1) by (cases rule: mem_call_cases) (use assms(2) in auto)

lemma mem_script_Inr:
  "mem_script s m = (Inr n, m') \<Longrightarrow> \<exists>m1. mem_db m1 = mem_db m \<and> m_now m \<le> m_now m1 \<and> s m1 = (Ret n, m')"
  by (auto simp: mem_script_def split: list.splits option.splits prod.splits outcome.splits
      intro!: exI [of _ "m\<lparr>m_faults := tl (m_faults m)\<rparr>"] exI [of _ "m\<lparr>m_faults := _\<rparr>"])

lemma mem_script_Inl:
  "mem_script s m = (Inl e, m') \<Longrightarrow> mem_db m' = mem_db m \<or>
   (\<exists>m1 r m2. mem_db m1 = mem_db m \<and> s m1 = (r, m2) \<and> mem_db m' = mem_db m2)"
  by (auto simp: mem_script_def split: list.splits option.splits prod.splits outcome.splits)
    (metis mem_db_faults)+

lemma mem_hashes_db:
  "\<forall>f. case map_of (map (\<lambda>(f, n). (f, show_int n)) (m_hashes m k)) f of
     None \<Rightarrow> hashes (mem_db m) k f = 0 | Some v \<Rightarrow> v = show_int (hashes (mem_db m) k f)"
proof -
  have h: "hashes (mem_db m) k f = (case map_of (m_hashes m k) f of None \<Rightarrow> 0 | Some n \<Rightarrow> n)" for f
    by (simp add: mem_db_def)
  show ?thesis unfolding h by (intro allI mem_hashes)
qed

lemma mem_db_streams: "m_streams m k = streams (mem_db m) k"
  and mem_db_zsets: "map_of (m_zsets m k) = zsets (mem_db m) k"
  and mem_db_sets: "set (m_sets m k) = sets (mem_db m) k"
  by (simp_all add: mem_db_def)

lemma mem_info_consumers_ok:
  assumes "c \<in> set (mem_info_consumers k g m)"
  shows "finite (pending_of (ci_Name c) (pel (mem_db m) k g)) \<and>
    ci_Pending c = int (card (pending_of (ci_Name c) (pel (mem_db m) k g)))"
proof -
  let ?is = "filter (\<lambda>i. map_of (m_pel m) (k, g, i) = Some (ci_Name c)) (mem_pending_ids k g m)"
  have "distinct ?is" by (simp add: mem_pending_ids_def)
  moreover have "set ?is = pending_of (ci_Name c) (pel (mem_db m) k g)"
    using mem_pending_ids_dom [of k g m] by (auto simp: pending_of_def mem_db_def)
  ultimately have "finite (pending_of (ci_Name c) (pel (mem_db m) k g))"
    and "card (pending_of (ci_Name c) (pel (mem_db m) k g)) = length ?is"
    using distinct_card [of ?is] by (metis List.finite_set)+
  moreover have "ci_Pending c = int (length ?is)"
    using assms by (auto simp: mem_info_consumers_def)
  ultimately show ?thesis by simp
qed

lemma mem_del_consumer_ok: "mem_db (mem_del_consumer k g c m) = forget_consumer k g c (mem_db m)"
proof -
  have "map_of (filter (\<lambda>e. P (fst e)) al) x = (if P x then map_of al x else None)"
    for al :: "((string \<times> string \<times> string) \<times> string) list" and P x
    by (induction al) auto
  from this [of "\<lambda>x. \<not> (fst x = k \<and> fst (snd x) = g \<and> map_of (m_pel m) x = Some c)" "m_pel m"] show ?thesis
    by (auto simp: mem_del_consumer_def forget_consumer_def mem_db_def pending_of_def restrict_map_def fun_eq_iff)
qed

text \<open>The in-memory server satisfies the laws of a Redis server.\<close>

interpretation mem: redis_server mem_env mem_db m_now
proof (unfold_locales, goal_cases)
  case (1 w t w')
  then show ?case by simp
next
  case (2 d w u w')
  then show ?case by (auto simp: mem_db_def)
next
  case (3 cs w w')
  then show ?case by (simp add: mem_pipe_ok)
next
  case (4 cs w e w')
  then show ?case using mem_pipe_fail [of cs w e w'] by auto
next
  case (5 c w w')
  then show ?case using mem_pipe_ok [of "[c]" w w'] by simp
next
  case (6 c w e w')
  then obtain n where "commands_step (take n [c]) (mem_db w) (mem_db w')" "m_now w \<le> m_now w'"
    using mem_pipe_fail [of "[c]" w e w'] by auto
  then show ?case by (cases n) auto
next
  case (7 k v ttl w b w')
  then obtain fs where "mem_set_nx k v ttl (w\<lparr>m_faults := fs\<rparr>) = (b, w')"
    using mem_call_Inr [of "mem_set_nx k v ttl" w b w'] by auto
  then show ?case using mem_set_nx_ok by fastforce
next
  case (8 k v ttl w e w')
  then show ?case using mem_call_Inl [of "mem_set_nx k v ttl" w e w'] by simp
next
  case (9 k w r w')
  then show ?case unfolding mem_env_sel by (rule mem_call_query) (simp add: mem_db_streams)
next
  case (10 k g w r w')
  then show ?case unfolding mem_env_sel
    by (rule mem_call_query) (use mem_pending_count [of _ k g] in metis)
next
  case (11 k w r w')
  then show ?case unfolding mem_env_sel
    by (rule mem_call_query) (metis card_dom_map_of finite_dom_map_of mem_db_zsets)
next
  case (12 k w r w')
  then show ?case unfolding mem_env_sel
    by (rule mem_call_query) (metis mem_hashes_db)
next
  case (13 k w r w')
  then show ?case unfolding mem_env_sel by (rule mem_call_query) (simp add: mem_db_sets)
next
  case (14 k w r w')
  then show ?case unfolding mem_env_sel by (rule mem_call_query) (simp add: mem_db_streams)
next
next
  case (15 s w n w')
  then show ?case using mem_script_Inr [of s w n w'] by auto
next
  case (16 s w e w')
  then show ?case using mem_script_Inl [of s w e w'] by simp
next
  case (17 c w u w')
  then show ?case by (auto simp: mem_command_step)
next
  case (18 c w msg w')
  then show ?case by simp
next
  case (19 k w xs w')
  then show ?case by (auto simp: mem_db_sets)
next
  case (20 k w msg w')
  then show ?case by simp
next
  case (21 k hi limit w ms w')
  then show ?case using mem_zrange_ok [of w k hi limit] by (auto simp: mem_db_zsets)
next
  case (22 k hi limit w msg w')
  then show ?case by simp
qed

interpretation mem: redis_consumer mem_env mem_db m_now
proof (unfold_locales, goal_cases)
  case (1 g c ks n block w res w')
  then obtain fs where "mem_read_new g c ks n (w\<lparr>m_faults := fs\<rparr>) = (res, w')"
    using mem_call_Inr [of "mem_read_new g c ks n" w res w']
    by (auto simp: list_all_iff comp_def)
  then show ?case using mem_read_new_ok [of g c ks n "w\<lparr>m_faults := fs\<rparr>" res w'] by simp
next
  case (2 g c ks n block w e w')
  then show ?case by (auto dest: mem_call_Inl)
next
  case (3 g c k n w res w')
  then obtain fs where "w' = w\<lparr>m_faults := fs\<rparr>" "res = [(k, mem_read_pending k g c w')]"
    using mem_call_Inr [of _ w res w'] by (fastforce)
  then show ?case using mem_read_pending_ok [of k g c w'] by simp
next
  case (4 g c k n w e w')
  then show ?case by (auto dest: mem_call_Inl)
next
  case (5 k g c idle start n w ms w')
  then obtain fs where "mem_claim k g c n (w\<lparr>m_faults := fs\<rparr>) = (ms, w')"
    using mem_call_Inr [of "mem_claim k g c n" w ms w'] by auto
  then show ?case using mem_claim_ok [of k g c n "w\<lparr>m_faults := fs\<rparr>" ms w'] by simp
next
  case (6 k g c idle start n w e w')
  then show ?case by (auto dest: mem_call_Inl)
next
  case (7 k g start w r w')
  then show ?case by simp
next
  case (8 k w r w')
  then show ?case by (auto elim: mem_call_cases)
next
  case (9 k g w r w')
  then show ?case unfolding mem_env_sel
    by (elim mem_call_cases) (auto dest: mem_info_consumers_ok)
next
  case (10 k g c w r w')
  then show ?case by (auto simp: mem_del_consumer_ok) (simp add: mem_del_consumer_def)
qed

interpretation mem: cjson_codec mem_env
  by unfold_locales simp_all

end
