(* ===== verification/Broker_Properties.thy ===== *)
theory Broker_Properties
  imports Broker_Spec Redis_Memory
begin

text \<open>
  What the broker promises its callers, operation by operation, under the laws of the Redis server:
  each theorem follows from the refinement lemmas of \<open>Broker_Spec\<close>, and its witness runs the operation
  on the in-memory server of \<open>Redis_Memory\<close>.
\<close>

lemma subseq_Cons_iff:
  "subseq cs (x # xs) \<longleftrightarrow> subseq cs xs \<or> (\<exists>ys. cs = x # ys \<and> subseq ys xs)"
  by (cases cs) (auto simp: subseq_Cons2_iff intro: list_emb.intros dest: subseq_Cons')

text \<open>Commands on the counters and on the set of known queues do not show in the view.\<close>

fun bookkeeping :: "command \<Rightarrow> bool" where
  "bookkeeping (SAdd k x) = True"
| "bookkeeping (HIncrBy k f n) = True"
| "bookkeeping _ = False"

lemma bookkeeping_view: "command_step c d d' \<Longrightarrow> bookkeeping c \<Longrightarrow> view cfg d' = view cfg d"
  by (cases c) (auto simp: command_step_simps fun_eq_iff)

lemma bookkeeping_views: "commands_step cs d d' \<Longrightarrow> list_all bookkeeping cs \<Longrightarrow> view cfg d' = view cfg d"
proof (induction cs arbitrary: d)
  case (Cons c cs)
  then show ?case using bookkeeping_view [of c d _ cfg] by fastforce
qed simp

lemma subseq_list_all: "subseq xs ys \<Longrightarrow> list_all P ys \<Longrightarrow> list_all P xs"
  by (induction rule: list_emb.induct) auto

context redis_server
begin

lemma Publish_failure:
  assumes "task_wf t" and "Publish E q t w = (Ret (Some err), w')"
  shows "view cfg (db w') = view cfg (db w) \<or>
    (\<exists>i. fresh_id (db w) (streamKey q) i \<and>
      view cfg (db w') = (view cfg (db w))(q := put_ready i (norm_task t) (view cfg (db w) q)))"
proof (cases "marshal_task t")
  case (Inl e)
  with assms(2) show ?thesis by (simp add: Publish_def)
next
  case (Inr j)
  with assms(2) obtain e where
    "pipe_exec E [XAdd (streamKey q) [(''data'', JsonText j)], SAdd queuesKey q,
       HIncrBy (statsPrefix @ q) ''enqueued'' 1] w = (Some e, w')"
    by (auto simp: Publish_def run_iff)
  from pipe_fail [OF this] obtain cs where cs: "commands_step cs (db w) (db w')"
    and "subseq cs [XAdd (streamKey q) [(''data'', JsonText j)], SAdd queuesKey q,
       HIncrBy (statsPrefix @ q) ''enqueued'' 1]" by blast
  then consider "subseq cs [SAdd queuesKey q, HIncrBy (statsPrefix @ q) ''enqueued'' 1]"
    | cs' where "cs = XAdd (streamKey q) [(''data'', JsonText j)] # cs'"
      "subseq cs' [SAdd queuesKey q, HIncrBy (statsPrefix @ q) ''enqueued'' 1]"
    by (auto simp: subseq_Cons_iff [of _ "XAdd k v" for k v])
  then show ?thesis
  proof cases
    case 1
    then have "list_all bookkeeping cs" by (rule subseq_list_all) simp
    with cs show ?thesis by (auto dest: bookkeeping_views)
  next
    case 2
    with cs obtain i d where i: "fresh_id (db w) (streamKey q) i"
      and d: "d = command_eff i (XAdd (streamKey q) [(''data'', JsonText j)]) (db w)"
      and cs': "commands_step cs' d (db w')" by (auto simp: command_step_simps)
    from 2(2) have "list_all bookkeeping cs'" by (rule subseq_list_all) simp
    with cs' have "view cfg (db w') = view cfg d" by (auto dest: bookkeeping_views)
    moreover have "view cfg d = (view cfg (db w))(q := put_ready i (norm_task t) (view cfg (db w) q))"
      by (simp add: d fun_eq_iff view_commands message_task_marshalled [OF assms(1) Inr] del: message_task_data)
    ultimately show ?thesis using i by auto
  qed
qed

text \<open>A key won with \<open>SET NX\<close> is not won again while it lives.\<close>

lemma set_nx_again:
  assumes first: "set_nx E k v ttl w = (Inr True, w1)" and kept: "strings (db w2) k = strings (db w1) k"
    and again: "set_nx E k v' ttl' w2 = (Inr b, w3)"
    and time: "ttl = 0 \<or> clk w3 < clk w + sint ttl div Millisecond * Millisecond"
  shows "\<not> b \<and> db w3 = db w2"
proof -
  from set_nx_ok [OF first] obtain now where now: "clk w \<le> now"
    and eff: "set_nx_eff k v ttl now (db w) True (db w1)" by blast
  then obtain x where x: "expiry_ok now ttl x" and s1: "strings (db w1) k = Some (v, x)"
    by (auto simp: set_nx_eff_def split: if_splits)
  from set_nx_ok [OF again] obtain now' where now': "now' \<le> clk w3"
    and eff': "set_nx_eff k v' ttl' now' (db w2) b (db w3)" by blast
  have "live (db w2) now' k"
    using kept s1 x now now' time by (auto simp: live_def expiry_ok_def split: if_splits)
  with eff' show ?thesis by (simp add: set_nx_eff_def)
qed

lemma SetProcessed_again:
  assumes "SetProcessed E tid ttl w = (Ret (Inr True), w1)"
    and "strings (db w2) (processedPrefix @ tid) = strings (db w1) (processedPrefix @ tid)"
    and "SetProcessed E tid ttl' w2 = (Ret (Inr b), w3)"
    and "ttl = 0 \<or> clk w3 < clk w + sint ttl div Millisecond * Millisecond"
  shows "\<not> b \<and> db w3 = db w2"
  using assms set_nx_again [of "processedPrefix @ tid" "''1''" ttl w w1 w2 "''1''" ttl' b w3]
  by (simp add: SetProcessed_def go_lift_iff)

lemma SetUnique_again:
  assumes "SetUnique E key tid ttl w = (Ret (Inr True), w1)"
    and "strings (db w2) (uniquePrefix @ key) = strings (db w1) (uniquePrefix @ key)"
    and "SetUnique E key tid' ttl' w2 = (Ret (Inr b), w3)"
    and "ttl = 0 \<or> clk w3 < clk w + sint ttl div Millisecond * Millisecond"
  shows "\<not> b \<and> db w3 = db w2"
  using assms set_nx_again [of "uniquePrefix @ key" tid ttl w w1 w2 tid' ttl' b w3]
  by (simp add: SetUnique_def go_lift_iff)

end

section \<open>The properties\<close>

text \<open>
  C11. When \<open>Publish\<close> reports success, the queue's stream has grown at its end by exactly this task (as
  JSON keeps it) under a fresh message id, no other queue and no other part of this queue changed, the
  queue is among the known queues and its enqueued counter went up by one.
\<close>

theorem Publish_makes_ready:
  assumes "redis_server E db clk" and "task_wf t" and "Publish E q t w = (Ret None, w')"
  shows "(\<exists>i. fresh_id (db w) (streamKey q) i \<and>
      view cfg (db w') = (view cfg (db w))(q := put_ready i (norm_task t) (view cfg (db w) q))) \<and>
    sets (db w') queuesKey = insert q (sets (db w) queuesKey) \<and>
    hashes (db w') (statsPrefix @ q) ''enqueued'' = hashes (db w) (statsPrefix @ q) ''enqueued'' + 1"
  using redis_server.Publish_refines [OF assms] redis_server.Publish_bookkeeping [OF assms(1,3)] by simp

lemma demo_publish: "Publish mem_env ''q'' demo_task empty_mem =
   (Ret None, snd (Publish mem_env ''q'' demo_task empty_mem))"
  by (simp add: Publish_def go_bind_lift_case mem_pipe_def empty_mem_def)

theorem Publish_makes_ready_witness:
  "let w' = snd (Publish mem_env ''q'' demo_task empty_mem) in
   (\<exists>i. fresh_id (mem_db empty_mem) (streamKey ''q'') i \<and>
      view DefaultConsumerConfig (mem_db w') = (view DefaultConsumerConfig (mem_db empty_mem))
        (''q'' := put_ready i (norm_task demo_task) (view DefaultConsumerConfig (mem_db empty_mem) ''q''))) \<and>
    sets (mem_db w') queuesKey = insert ''q'' (sets (mem_db empty_mem) queuesKey) \<and>
    hashes (mem_db w') (statsPrefix @ ''q'') ''enqueued'' = hashes (mem_db empty_mem) (statsPrefix @ ''q'') ''enqueued'' + 1"
  unfolding Let_def
  by (rule Publish_makes_ready [OF mem.redis_server_axioms demo_task_wf demo_publish])

text \<open>
  When \<open>Publish\<close> reports an error, the queues are as they were or the task was added once all the
  same (the server may have run the command although its reply was lost): it never appears twice and
  nothing else is touched.
\<close>

theorem Publish_error_at_most_once:
  assumes "redis_server E db clk" and "task_wf t" and "Publish E q t w = (Ret (Some err), w')"
  shows "view cfg (db w') = view cfg (db w) \<or>
    (\<exists>i. fresh_id (db w) (streamKey q) i \<and>
      view cfg (db w') = (view cfg (db w))(q := put_ready i (norm_task t) (view cfg (db w) q)))"
  by (rule redis_server.Publish_failure [OF assms])

definition lossy_mem :: "nat \<Rightarrow> mem" where
  "lossy_mem n = empty_mem\<lparr>m_faults := [Some (ErrText ''i/o timeout'', n)]\<rparr>"

lemma demo_publish_error: "Publish mem_env ''q'' demo_task (lossy_mem 1) =
   (Ret (Some (ErrWrap ''failed to publish task: '' (ErrText ''i/o timeout''))),
    snd (Publish mem_env ''q'' demo_task (lossy_mem 1)))"
  by (simp add: Publish_def go_bind_lift_case mem_pipe_def lossy_mem_def)

theorem Publish_error_at_most_once_witness:
  "let w' = snd (Publish mem_env ''q'' demo_task (lossy_mem 1)) in
   view DefaultConsumerConfig (mem_db w') = view DefaultConsumerConfig (mem_db (lossy_mem 1)) \<or>
    (\<exists>i. fresh_id (mem_db (lossy_mem 1)) (streamKey ''q'') i \<and>
      view DefaultConsumerConfig (mem_db w') = (view DefaultConsumerConfig (mem_db (lossy_mem 1)))
        (''q'' := put_ready i (norm_task demo_task) (view DefaultConsumerConfig (mem_db (lossy_mem 1)) ''q'')))"
  unfolding Let_def
  by (rule Publish_error_at_most_once [OF mem.redis_server_axioms demo_task_wf demo_publish_error])

text \<open>
  When \<open>Ack\<close> reports success, the message is gone from the queue's stream and from the group's
  unacknowledged messages, nothing else in any queue changed, and the completed counter went up by one.
\<close>

theorem Ack_removes:
  assumes "redis_server E db clk" and "Ack E cfg q i w = (Ret None, w')"
  shows "view cfg (db w') = (view cfg (db w))(q := drop_message i (view cfg (db w) q)) \<and>
    hashes (db w') (statsPrefix @ q) ''completed'' = hashes (db w) (statsPrefix @ q) ''completed'' + 1"
  by (rule redis_server.Ack_refines [OF assms])

definition published_mem :: mem where
  "published_mem = snd (Publish mem_env ''critical'' demo_task empty_mem)"

lemma demo_ack: "Ack mem_env DefaultConsumerConfig ''critical'' ''i'' m =
    (Ret None, snd (Ack mem_env DefaultConsumerConfig ''critical'' ''i'' m))" if "m_faults m = []"
  using that by (simp add: Ack_def go_lift_def mem_pipe_def)

lemma published_mem_faults [simp]: "m_faults published_mem = []"
  by (simp add: published_mem_def Publish_def go_bind_lift_case mem_pipe_def empty_mem_def)

theorem Ack_removes_witness:
  "let w' = snd (Ack mem_env DefaultConsumerConfig ''critical'' ''i'' published_mem);
       v = view DefaultConsumerConfig (mem_db published_mem) in
   view DefaultConsumerConfig (mem_db w') = v(''critical'' := drop_message ''i'' (v ''critical'')) \<and>
   hashes (mem_db w') (statsPrefix @ ''critical'') ''completed'' =
     hashes (mem_db published_mem) (statsPrefix @ ''critical'') ''completed'' + 1"
  unfolding Let_def by (rule Ack_removes [OF mem.redis_server_axioms demo_ack]) simp

text \<open>
  C12. When \<open>Retry\<close> reports success, the message the task came in has left the stream and the group's
  unacknowledged messages, and the task, in state retry and otherwise as it was given, waits in the
  queue's retry set with the second of the current time plus the delay as its score; the stored text
  reads back as that task.
\<close>

theorem Retry_moves_to_retry_set:
  assumes "redis_server E db clk" and "task_wf t" and "Retry E cfg q t delay w = (Ret (None, t'), w')"
  shows "t' = retried t \<and>
    (\<exists>j. unmarshal_task (JsonText j) = Inr (norm_task (retried t)) \<and>
      view cfg (db w') = (view cfg (db w))(q :=
        put_retry (JsonText j) (unix (fst (clock E w) + sint delay))
          (take_off (StreamMsgID (metadata_or_zero t)) (view cfg (db w) q))))"
proof -
  from redis_server.Retry_refines [OF assms(1,3)] obtain j where j: "marshal_task (retried t) = Inr j"
    and v: "view cfg (db w') = (view cfg (db w))(q :=
        put_retry (JsonText j) (unix (fst (clock E w) + sint delay))
          (take_off (StreamMsgID (metadata_or_zero t)) (view cfg (db w) q)))" by blast
  from j assms(2) have "unmarshal_task (JsonText j) = Inr (norm_task (retried t))"
    by (simp add: marshal_Inr decode_json_task)
  with v redis_server.Retry_result [OF assms(1,3)] show ?thesis by blast
qed

definition demo_message :: TaskProto where
  "demo_message = demo_task\<lparr>Metadata := Some (zero_metadata\<lparr>StreamMsgID := ''i''\<rparr>)\<rparr>"

lemma demo_message_wf [simp]: "task_wf demo_message"
  using demo_task_wf by (simp add: demo_message_def task_wf_def)

lemma demo_message_marshals [simp]:
  "marshal_task (retried demo_message) = Inr (json_task (retried demo_message))"
  "marshal_task (buried e demo_message) = Inr (json_task (buried e demo_message))"
  by (cases e; simp add: marshal_task_def payload_valid_def times_printable_def time_printable_def
      demo_message_def demo_task_def retried_def buried_def zero_options_def zero_metadata_def
      metadata_or_zero_def Let_def unix_def Second_def)+

lemma Retry_run:
  assumes "marshal_task (retried t) = Inr j"
  shows "Retry E cfg q t delay =
    go_bind (go_lift (clock E)) (\<lambda>now. go_bind (go_lift (pipe_exec E
      (unstream cfg q (metadata_or_zero t) @ [ZAdd (retryKey q) (unix (now + sint delay)) (JsonText j)])))
      (\<lambda>err. go_return (err, retried t)))"
  using assms by (simp add: Retry_def Let_def retried_def unstream_def)

lemma demo_retry: "Retry mem_env DefaultConsumerConfig ''critical'' demo_message (dur Second) published_mem =
    (Ret (None, retried demo_message),
     snd (Retry mem_env DefaultConsumerConfig ''critical'' demo_message (dur Second) published_mem))"
  by (simp add: Retry_run go_bind_lift_case mem_pipe_def)

theorem Retry_moves_to_retry_set_witness:
  "let w' = snd (Retry mem_env DefaultConsumerConfig ''critical'' demo_message (dur Second) published_mem);
       v = view DefaultConsumerConfig (mem_db published_mem) in
   retried demo_message = retried demo_message \<and>
   (\<exists>j. unmarshal_task (JsonText j) = Inr (norm_task (retried demo_message)) \<and>
      view DefaultConsumerConfig (mem_db w') = v(''critical'' :=
        put_retry (JsonText j) (unix (fst (clock mem_env published_mem) + sint (dur Second)))
          (take_off (StreamMsgID (metadata_or_zero demo_message)) (v ''critical''))))"
  unfolding Let_def by (rule Retry_moves_to_retry_set [OF mem.redis_server_axioms demo_message_wf demo_retry])

text \<open>
  The pipeline of \<open>Retry\<close> is no transaction. When the connection breaks after its second command the
  caller gets an error, and the task is in none of the places a queue has.
\<close>

definition broken_mem :: mem where
  "broken_mem = published_mem\<lparr>m_faults := [Some (ErrText ''i/o timeout'', 2)]\<rparr>"

lemma broken_Retry_loses_task:
  "ready (view DefaultConsumerConfig (mem_db broken_mem) ''critical'') = [(''i'', norm_task demo_task)] \<and>
   (\<exists>w'. Retry mem_env DefaultConsumerConfig ''critical'' demo_message (dur Second) broken_mem =
       (Ret (Some (ErrText ''i/o timeout''), retried demo_message), w') \<and>
     view DefaultConsumerConfig (mem_db w') ''critical'' =
       \<lparr>ready = [], dead = [], later = Map.empty, retrying = Map.empty, unacked = Map.empty, taken = {}\<rparr>)"
proof (rule conjI)
  have pub: "published_mem = empty_mem\<lparr>m_streams := (\<lambda>_. [])(streamKey ''critical'' := [(''i'', [(''data'', JsonText (json_task demo_task))])]),
      m_sets := (\<lambda>_. [])(queuesKey := [''critical'']),
      m_hashes := (\<lambda>_. [])(statsPrefix @ ''critical'' := [(''enqueued'', 1)])\<rparr>"
    by (simp add: published_mem_def Publish_def go_bind_lift_case mem_pipe_def empty_mem_def mem_id_def)
  have "message_task \<lparr>xm_ID = ''i'', xm_Values = [(''data'', JsonText (json_task demo_task))]\<rparr> = Some (norm_task demo_task)"
    by (rule message_task_marshalled [OF demo_task_wf demo_task_marshals])
  then show "ready (view DefaultConsumerConfig (mem_db broken_mem) ''critical'') = [(''i'', norm_task demo_task)]"
    by (simp add: broken_mem_def pub view_def mem_db_def del: message_task_data)
  have "StreamMsgID (metadata_or_zero demo_message) = ''i''" by (simp add: demo_message_def metadata_or_zero_def)
  then have "Retry mem_env DefaultConsumerConfig ''critical'' demo_message (dur Second) broken_mem =
       (Ret (Some (ErrText ''i/o timeout''), retried demo_message),
        fold mem_command [XAck (streamKey ''critical'') (Group DefaultConsumerConfig) ''i'', XDel (streamKey ''critical'') ''i'']
          published_mem)"
    by (simp add: Retry_run go_bind_lift_case mem_pipe_def broken_mem_def unstream_def)
  then show "\<exists>w'. Retry mem_env DefaultConsumerConfig ''critical'' demo_message (dur Second) broken_mem =
       (Ret (Some (ErrText ''i/o timeout''), retried demo_message), w') \<and>
     view DefaultConsumerConfig (mem_db w') ''critical'' =
       \<lparr>ready = [], dead = [], later = Map.empty, retrying = Map.empty, unacked = Map.empty, taken = {}\<rparr>"
    by (simp add: pub view_def mem_db_def empty_mem_def)
qed

text \<open>
  C13. When \<open>MoveToDLQ\<close> reports success, the message the task came in has left the stream and the group's
  unacknowledged messages, and the task, in state dead and with the error's text as its last error, is
  the newest entry of the queue's dead letter queue.
\<close>

theorem MoveToDLQ_buries:
  assumes "redis_server E db clk" and "task_wf t" and "MoveToDLQ E cfg q t e w = (Ret (None, t'), w')"
  shows "t' = buried e t \<and>
    (\<exists>i. view cfg (db w') = (view cfg (db w))(q := put_dead i (norm_task (buried e t))
        (take_off (StreamMsgID (metadata_or_zero t)) (view cfg (db w) q))))"
  using redis_server.MoveToDLQ_refines [OF assms] redis_server.MoveToDLQ_result [OF assms(1,3)] by blast

lemma MoveToDLQ_run:
  assumes "marshal_task (buried e t) = Inr j"
  shows "MoveToDLQ E cfg q t e = go_bind (go_lift (pipe_exec E
      (unstream cfg q (metadata_or_zero t) @ [XAdd (dlqKey q) [(''data'', JsonText j)]])))
      (\<lambda>err. go_return (err, buried e t))"
  using assms by (cases e) (simp_all add: MoveToDLQ_def Let_def buried_def unstream_def)

lemma demo_bury: "MoveToDLQ mem_env DefaultConsumerConfig ''critical'' demo_message (Some (ErrText ''boom'')) published_mem =
    (Ret (None, buried (Some (ErrText ''boom'')) demo_message),
     snd (MoveToDLQ mem_env DefaultConsumerConfig ''critical'' demo_message (Some (ErrText ''boom'')) published_mem))"
  by (simp add: MoveToDLQ_run go_bind_lift_case mem_pipe_def)

definition buried_mem :: mem where
  "buried_mem = snd (MoveToDLQ mem_env DefaultConsumerConfig ''critical'' demo_message
     (Some (ErrText ''boom'')) published_mem)"

theorem MoveToDLQ_buries_witness:
  "let v = view DefaultConsumerConfig (mem_db published_mem) in
   buried (Some (ErrText ''boom'')) demo_message = buried (Some (ErrText ''boom'')) demo_message \<and>
   (\<exists>i. view DefaultConsumerConfig (mem_db buried_mem) = v(''critical'' :=
      put_dead i (norm_task (buried (Some (ErrText ''boom'')) demo_message))
        (take_off (StreamMsgID (metadata_or_zero demo_message)) (v ''critical''))))"
  unfolding Let_def buried_mem_def
  by (rule MoveToDLQ_buries [OF mem.redis_server_axioms demo_message_wf demo_bury])

text \<open>
  C14. When \<open>RetryFromDLQ\<close> reports success, the first dead task with the identifier has left the dead
  letter queue and is the newest ready task, in state pending with no retry used and no last error, and
  its processed marker is deleted, so the consumers will run it again; nothing else changed.
\<close>

theorem RetryFromDLQ_revives:
  assumes "redis_server E db clk" and "RetryFromDLQ E q tid w = (Ret None, w')"
  shows "\<exists>i t m i'. List.find (\<lambda>(i, t). ID t = tid) (dead (view cfg (db w) q)) = Some (i, t) \<and>
    Metadata t = Some m \<and>
    view cfg (db w') = (view cfg (db w))(q :=
      put_ready i' (norm_task (revived t m)) (drop_dead i (view cfg (db w) q))) \<and>
    strings (db w') = (strings (db w))(processedPrefix @ tid := None)"
  by (rule redis_server.RetryFromDLQ_refines [OF assms])

definition dead_mem :: mem where
  "dead_mem = empty_mem\<lparr>m_streams := (\<lambda>_. [])(dlqKey ''critical'' :=
     [(''d1'', [(''data'', JsonText (json_task demo_message))])])\<rparr>"

lemma demo_message_reads: "unmarshal_task (JsonText (json_task demo_message)) = Inr (norm_task demo_message)"
  by (rule decode_json_task)
    (simp_all add: payload_valid_def times_printable_def time_printable_def demo_message_def demo_task_def zero_options_def
      zero_metadata_def unix_def Second_def task_wf_def options_wf_def gomap_ok_def)

lemma demo_message_fields [simp]: "ID (norm_task demo_message) = ''t1''"
  "Metadata (norm_task demo_message) = Some (zero_metadata\<lparr>StreamMsgID := ''i''\<rparr>)"
  by (simp_all add: norm_task_def demo_message_def demo_task_def)

lemma dead_mem_range: "go_bind (go_lift (x_range mem_env (dlqKey ''critical''))) f dead_mem =
    f (Inr [\<lparr>xm_ID = ''d1'', xm_Values = [(''data'', JsonText (json_task demo_message))]\<rparr>]) dead_mem"
  by (rule go_bind_lift) (simp add: mem_call_def dead_mem_def empty_mem_def to_messages_def)

lemma demo_revive: "RetryFromDLQ mem_env ''critical'' ''t1'' dead_mem =
    (Ret None, snd (RetryFromDLQ mem_env ''critical'' ''t1'' dead_mem))"
  unfolding RetryFromDLQ_def dead_mem_range
  by (simp add: demo_message_reads Let_def go_lift_def mem_pipe_def)
    (simp add: dead_mem_def empty_mem_def)

theorem RetryFromDLQ_revives_witness:
  "let w' = snd (RetryFromDLQ mem_env ''critical'' ''t1'' dead_mem);
       v = view DefaultConsumerConfig (mem_db dead_mem) in
   \<exists>i t m i'. List.find (\<lambda>(i, t). ID t = ''t1'') (dead (v ''critical'')) = Some (i, t) \<and>
    Metadata t = Some m \<and>
    view DefaultConsumerConfig (mem_db w') = v(''critical'' :=
      put_ready i' (norm_task (revived t m)) (drop_dead i (v ''critical''))) \<and>
    strings (mem_db w') = (strings (mem_db dead_mem))(processedPrefix @ ''t1'' := None)"
  unfolding Let_def by (rule RetryFromDLQ_revives [OF mem.redis_server_axioms demo_revive])

text \<open>
  \<open>GetDLQ\<close> with a positive limit returns the oldest dead tasks up to the limit, in order, without
  it all of them (entries that hold no task are skipped and do not count), and changes nothing.
\<close>

theorem GetDLQ_oldest:
  assumes "redis_server E db clk" and "GetDLQ E q limit w = (Ret (Inr ts), w')"
  shows "ts = map snd (if limit > 0 then take (nat limit) (dead (view cfg (db w) q)) else dead (view cfg (db w) q)) \<and>
    db w' = db w"
  by (rule redis_server.GetDLQ_result [OF assms])

lemma demo_GetDLQ: "GetDLQ mem_env ''critical'' 5 dead_mem = (Ret (Inr [norm_task demo_message]), dead_mem)"
  unfolding GetDLQ_def dead_mem_range by (simp add: demo_message_reads)

theorem GetDLQ_oldest_witness:
  "[norm_task demo_message] = map snd (if (5 :: int) > 0
      then take (nat 5) (dead (view DefaultConsumerConfig (mem_db dead_mem) ''critical''))
      else dead (view DefaultConsumerConfig (mem_db dead_mem) ''critical'')) \<and>
   mem_db dead_mem = mem_db dead_mem"
  by (rule GetDLQ_oldest [OF mem.redis_server_axioms demo_GetDLQ])

text \<open>
  \<open>SetProcessed\<close> is won at most once while its key lives: after a call that returned true, and as
  long as nobody deletes or replaces the key, every call that ends before the time to live has passed
  (in whole milliseconds from the start of the first; for ever when it is zero) returns false.
\<close>

theorem SetProcessed_once:
  assumes "redis_server E db clk" and "SetProcessed E tid ttl w = (Ret (Inr True), w1)"
    and "strings (db w2) (processedPrefix @ tid) = strings (db w1) (processedPrefix @ tid)"
    and "SetProcessed E tid ttl' w2 = (Ret (Inr b), w3)"
    and "ttl = 0 \<or> clk w3 < clk w + sint ttl div Millisecond * Millisecond"
  shows "\<not> b \<and> db w3 = db w2"
  by (rule redis_server.SetProcessed_again [OF assms])

definition marked_mem :: mem where
  "marked_mem = empty_mem\<lparr>m_strings := [processedPrefix @ ''t1'' \<mapsto> (''1'', Some (24 * Hour))]\<rparr>"

lemma demo_SetProcessed: "SetProcessed mem_env ''t1'' (dur (24 * Hour)) empty_mem = (Ret (Inr True), marked_mem)"
  "SetProcessed mem_env ''t1'' (dur (24 * Hour)) marked_mem = (Ret (Inr False), marked_mem)"
  by (simp_all add: SetProcessed_def go_lift_def mem_call_def empty_mem_def mem_set_nx_def live_def mem_db_def
      marked_mem_def dur_def Hour_def Minute_def Second_def)

theorem SetProcessed_once_witness: "\<not> False \<and> mem_db marked_mem = mem_db marked_mem"
  by (rule SetProcessed_once [OF mem.redis_server_axioms demo_SetProcessed(1) refl demo_SetProcessed(2)])
    (simp add: marked_mem_def empty_mem_def dur_def Hour_def Minute_def Second_def Millisecond_def)

lemma if_config_update:
  "(if b then c\<lparr>Consumer := s\<rparr> else c) = c\<lparr>Consumer := (if b then s else Consumer c)\<rparr>"
  "(if b then c\<lparr>BatchSize := n\<rparr> else c) = c\<lparr>BatchSize := (if b then n else BatchSize c)\<rparr>"
  "(if b then c\<lparr>BlockDuration := d\<rparr> else c) = c\<lparr>BlockDuration := (if b then d else BlockDuration c)\<rparr>"
  "(if b then c\<lparr>ClaimStaleAfter := d\<rparr> else c) = c\<lparr>ClaimStaleAfter := (if b then d else ClaimStaleAfter c)\<rparr>"
  "(if b then c\<lparr>ClaimCheckInterval := d\<rparr> else c) = c\<lparr>ClaimCheckInterval := (if b then d else ClaimCheckInterval c)\<rparr>"
  by simp_all

lemma sint_dur: "- (2 ^ 63) \<le> n \<Longrightarrow> n < 2 ^ 63 \<Longrightarrow> sint (dur n) = n"
  unfolding dur_def by (rule sint_word_of_int_range64)

text \<open>
  Whatever configurations the caller passes, a new broker is open and its configuration is the last
  one given with every value the loops cannot work with replaced by its default: the consumer is never
  empty, and the batch size and the three durations are positive.
\<close>

theorem NewBroker_config_usable:
  "let b = NewBroker host pid (map WithConsumerConfig cfgs); c = broker_config b;
       given = last (DefaultConsumerConfig # cfgs) in
   \<not> broker_closed b \<and> Consumer c \<noteq> '''' \<and> 0 < BatchSize c \<and> 0 < sint (BlockDuration c) \<and>
   0 < sint (ClaimStaleAfter c) \<and> 0 < sint (ClaimCheckInterval c) \<and> Group c = Group given \<and>
   (Consumer given \<noteq> '''' \<longrightarrow> Consumer c = Consumer given) \<and>
   (0 < BatchSize given \<longrightarrow> BatchSize c = BatchSize given) \<and>
   (0 < sint (BlockDuration given) \<longrightarrow> BlockDuration c = BlockDuration given) \<and>
   (0 < sint (ClaimStaleAfter given) \<longrightarrow> ClaimStaleAfter c = ClaimStaleAfter given) \<and>
   (0 < sint (ClaimCheckInterval given) \<longrightarrow> ClaimCheckInterval c = ClaimCheckInterval given)"
proof -
  have opts: "fold (\<lambda>opt b. opt b) (map WithConsumerConfig cfgs) b =
      b\<lparr>broker_config := last (broker_config b # cfgs)\<rparr>" for b
    by (induction cfgs arbitrary: b) (simp_all add: WithConsumerConfig_def)
  show ?thesis
    unfolding NewBroker_def opts Let_def if_config_update
    by (auto simp: DefaultConsumerConfig_def Second_def Minute_def sint_dur)
qed

theorem NewBroker_config_usable_witness:
  "let b = NewBroker ''host'' ''7'' (map WithConsumerConfig [DefaultConsumerConfig\<lparr>BatchSize := 0, ClaimStaleAfter := dur Second\<rparr>]); c = broker_config b;
       given = last (DefaultConsumerConfig # [DefaultConsumerConfig\<lparr>BatchSize := 0, ClaimStaleAfter := dur Second\<rparr>]) in
   \<not> broker_closed b \<and> Consumer c \<noteq> '''' \<and> 0 < BatchSize c \<and> 0 < sint (BlockDuration c) \<and>
   0 < sint (ClaimStaleAfter c) \<and> 0 < sint (ClaimCheckInterval c) \<and> Group c = Group given \<and>
   (Consumer given \<noteq> '''' \<longrightarrow> Consumer c = Consumer given) \<and>
   (0 < BatchSize given \<longrightarrow> BatchSize c = BatchSize given) \<and>
   (0 < sint (BlockDuration given) \<longrightarrow> BlockDuration c = BlockDuration given) \<and>
   (0 < sint (ClaimStaleAfter given) \<longrightarrow> ClaimStaleAfter c = ClaimStaleAfter given) \<and>
   (0 < sint (ClaimCheckInterval given) \<longrightarrow> ClaimCheckInterval c = ClaimCheckInterval given)"
  by (rule NewBroker_config_usable)

definition told :: "int \<Rightarrow> int \<Rightarrow> bool" where
  "told n true_count \<longleftrightarrow> n = true_count \<or> n = 0"

lemma count_told: "(\<And>n. r = Inr n \<Longrightarrow> n = c) \<Longrightarrow> told (count_or_0 r) c"
  by (cases r) (auto simp: told_def count_or_0_def)

context redis_server
begin

lemma completed_told:
  assumes "h_get_all E k w = (r, w')"
  shows "told (completed_count r) (hashes (db w) k ''completed'')"
proof (cases r)
  case (Inl e)
  then show ?thesis by (simp add: told_def completed_count_def)
next
  case (Inr kvs)
  with h_get_all_ok [OF assms] have "case map_of kvs ''completed'' of
      None \<Rightarrow> hashes (db w) k ''completed'' = 0 | Some v \<Rightarrow> v = show_int (hashes (db w) k ''completed'')"
    by blast
  with Inr show ?thesis by (simp add: told_def completed_count_def split: option.splits)
qed

lemma GetQueueInfo_told:
  assumes "GetQueueInfo E cfg q w = (Ret (Inr qi), w')"
  shows "db w' = db w \<and> qi_Name qi = q \<and>
    (\<exists>len. told len (int (length (streams (db w) (streamKey q)))) \<and>
      qi_Pending qi = max 0 (len - qi_Active qi)) \<and>
    told (qi_Active qi) (int (card (dom (unacked (view cfg (db w) q))))) \<and>
    told (qi_Scheduled qi) (int (card (dom (later (view cfg (db w) q))))) \<and>
    told (qi_Retry qi) (int (card (dom (retrying (view cfg (db w) q))))) \<and>
    told (qi_Dead qi) (int (length (streams (db w) (dlqKey q)))) \<and>
    told (qi_Completed qi) (hashes (db w) (statsPrefix @ q) ''completed'')"
proof -
  obtain r1 w1 where 1: "x_len E (streamKey q) w = (r1, w1)" by (cases "x_len E (streamKey q) w")
  obtain r2 w2 where 2: "x_pending E (streamKey q) (Group cfg) w1 = (r2, w2)"
    by (cases "x_pending E (streamKey q) (Group cfg) w1")
  obtain r3 w3 where 3: "x_len E (dlqKey q) w2 = (r3, w3)" by (cases "x_len E (dlqKey q) w2")
  obtain r4 w4 where 4: "h_get_all E (statsPrefix @ q) w3 = (r4, w4)" by (cases "h_get_all E (statsPrefix @ q) w3")
  obtain r5 w5 where 5: "z_card E (scheduledKey q) w4 = (r5, w5)" by (cases "z_card E (scheduledKey q) w4")
  obtain r6 w6 where 6: "z_card E (retryKey q) w5 = (r6, w6)" by (cases "z_card E (retryKey q) w5")
  from assms have e1: "real_error r1 = None"
    by (cases "real_error r1") (simp_all add: GetQueueInfo_def go_bind_lift 1)
  from assms have e3: "real_error r3 = None"
    by (cases "real_error r3") (simp_all add: GetQueueInfo_def go_bind_lift 1 e1 2 3)
  from assms have w': "w' = w6" and qi: "qi = \<lparr>qi_Name = q, qi_Pending = go_max0 (count_or_0 r1 - count_or_0 r2),
      qi_Active = count_or_0 r2, qi_Scheduled = count_or_0 r5, qi_Retry = count_or_0 r6,
      qi_Dead = count_or_0 r3, qi_Completed = completed_count r4, qi_Processed = completed_count r4, qi_Failed = 0\<rparr>"
    by (simp_all add: GetQueueInfo_def go_bind_lift 1 e1 2 3 e3 4 5 6)
  note same = x_len_ok [OF 1] x_pending_ok [OF 2] x_len_ok [OF 3] h_get_all_ok [OF 4] z_card_ok [OF 5] z_card_ok [OF 6]
  have db: "db w1 = db w" "db w2 = db w" "db w3 = db w" "db w4 = db w" "db w5 = db w" "db w6 = db w"
    using same by auto
  have "told (count_or_0 r1) (int (length (streams (db w) (streamKey q))))"
    "told (count_or_0 r2) (int (card (dom (pel (db w) (streamKey q) (Group cfg)))))"
    "told (count_or_0 r3) (int (length (streams (db w) (dlqKey q))))"
    "told (count_or_0 r5) (int (card (dom (zsets (db w) (scheduledKey q)))))"
    "told (count_or_0 r6) (int (card (dom (zsets (db w) (retryKey q)))))"
    using same db by (auto intro!: count_told)
  moreover have "told (completed_count r4) (hashes (db w) (statsPrefix @ q) ''completed'')"
    using completed_told [OF 4] db by simp
  moreover have "go_max0 n = max 0 n" for n by (simp add: go_max0_def)
  ultimately show ?thesis by (auto simp: w' qi db view_def)
qed

end

text \<open>
  \<open>GetQueueInfo\<close> changes nothing, and each number it reports is the true one (entries of the stream
  less the unacknowledged, unacknowledged, waiting for their time, waiting for a retry, dead, completed)
  with 0 in the place of a count Redis did not give; none is negative.
\<close>

theorem GetQueueInfo_counts:
  assumes "redis_server E db clk" and "GetQueueInfo E cfg q w = (Ret (Inr qi), w')"
  shows "db w' = db w \<and> qi_Name qi = q \<and>
    (\<exists>len. told len (int (length (streams (db w) (streamKey q)))) \<and>
      qi_Pending qi = max 0 (len - qi_Active qi)) \<and>
    told (qi_Active qi) (int (card (dom (unacked (view cfg (db w) q))))) \<and>
    told (qi_Scheduled qi) (int (card (dom (later (view cfg (db w) q))))) \<and>
    told (qi_Retry qi) (int (card (dom (retrying (view cfg (db w) q))))) \<and>
    told (qi_Dead qi) (int (length (streams (db w) (dlqKey q)))) \<and>
    told (qi_Completed qi) (hashes (db w) (statsPrefix @ q) ''completed'')"
  by (rule redis_server.GetQueueInfo_told [OF assms])

definition demo_info :: QueueInfo where
  "demo_info = \<lparr>qi_Name = ''critical'', qi_Pending = 0, qi_Active = 0, qi_Scheduled = 0, qi_Retry = 0,
     qi_Dead = 1, qi_Completed = 0, qi_Processed = 0, qi_Failed = 0\<rparr>"

lemma demo_GetQueueInfo: "GetQueueInfo mem_env DefaultConsumerConfig ''critical'' dead_mem = (Ret (Inr demo_info), dead_mem)"
  by (simp add: GetQueueInfo_def go_bind_lift_case mem_call_def dead_mem_def empty_mem_def real_error_def
      count_or_0_def completed_count_def demo_info_def go_max0_def mem_pending_ids_def)

theorem GetQueueInfo_counts_witness:
  "let d = mem_db dead_mem; v = view DefaultConsumerConfig d ''critical'' in
   d = d \<and> qi_Name demo_info = ''critical'' \<and>
    (\<exists>len. told len (int (length (streams d (streamKey ''critical'')))) \<and>
      qi_Pending demo_info = max 0 (len - qi_Active demo_info)) \<and>
    told (qi_Active demo_info) (int (card (dom (unacked v)))) \<and>
    told (qi_Scheduled demo_info) (int (card (dom (later v)))) \<and>
    told (qi_Retry demo_info) (int (card (dom (retrying v)))) \<and>
    told (qi_Dead demo_info) (int (length (streams d (dlqKey ''critical'')))) \<and>
    told (qi_Completed demo_info) (hashes d (statsPrefix @ ''critical'') ''completed'')"
  unfolding Let_def by (rule GetQueueInfo_counts [OF mem.redis_server_axioms demo_GetQueueInfo])

end
