(* ===== verification/Broker_Consumer.thy ===== *)
theory Broker_Consumer
  imports Broker_Spec Redis_Memory
begin

text \<open>
  The consuming side of \<^verbatim>\<open>broker/redis/redis.go\<close>: \<open>processMessage\<close>, the recovery of a consumer's own
  pending messages, the claiming of stale ones and the main loop of \<open>Subscribe\<close>. The Go loops have no
  bound, so a loop takes fuel and answers \<open>None\<close> when it runs out; \<open>recoverOwnPending_ends\<close> says which
  fuel is enough. \<open>Subscribe\<close> starts \<open>backgroundClaimer\<close> as a goroutine: one tick of it is
  \<open>claimer_tick\<close>, which the scheduler of the process interleaves with the main loop. Log output is not
  modelled.
\<close>

section \<open>Messages\<close>

text \<open>\<open>broker.TaskHandler\<close>, closed over its context.\<close>

type_synonym 'w task_handler = "TaskProto \<Rightarrow> ('w, go_error option) go"

definition with_message_id :: "string \<Rightarrow> TaskProto \<Rightarrow> TaskProto" where
  "with_message_id i t = t\<lparr>Metadata := Some ((metadata_or_zero t)\<lparr>StreamMsgID := i\<rparr>)\<rparr>"

definition processMessage ::
  "'w env \<Rightarrow> ConsumerConfig \<Rightarrow> 'w task_handler \<Rightarrow> string \<Rightarrow> XMessage \<Rightarrow> ('w, go_error option) go" where
  "processMessage E cfg handler queue msg = (case map_of (xm_Values msg) ''data'' of
      None \<Rightarrow>
        go_bind (go_lift (command_do E (XAck (streamKey queue) (Group cfg) (xm_ID msg))))
          (\<lambda>_. go_return (Some (ErrText ''invalid message format'')))
    | Some data \<Rightarrow> (case unmarshal_task data of
          Inl err \<Rightarrow>
            go_bind (go_lift (command_do E (XAck (streamKey queue) (Group cfg) (xm_ID msg))))
              (\<lambda>_. go_return (Some (ErrWrap ''failed to unmarshal task: '' err)))
        | Inr task \<Rightarrow>
            go_bind (handler (with_message_id (xm_ID msg) task)) (\<lambda>err. case err of
                Some e \<Rightarrow> go_return (Some e)
              | None \<Rightarrow> Ack E cfg queue (xm_ID msg))))"

text \<open>The loops over a batch drop the error of a message and go on with the next.\<close>

definition process_messages ::
  "'w env \<Rightarrow> ConsumerConfig \<Rightarrow> 'w task_handler \<Rightarrow> string \<Rightarrow> XMessage list \<Rightarrow> ('w, unit) go" where
  "process_messages E cfg handler queue msgs =
     go_fold (\<lambda>msg u. go_bind (processMessage E cfg handler queue msg) (\<lambda>err. go_return u)) msgs ()"

section \<open>Recovering and claiming\<close>

fun recover_queue ::
  "nat \<Rightarrow> 'w env \<Rightarrow> ConsumerConfig \<Rightarrow> 'w task_handler \<Rightarrow> string \<Rightarrow> ('w, go_error option option) go" where
  "recover_queue 0 E cfg handler queue = go_return None"
| "recover_queue (Suc fuel) E cfg handler queue =
     go_bind (go_lift (x_read_group E (Group cfg) (Consumer cfg) [(streamKey queue, ''0'')] (BatchSize cfg) None))
     (\<lambda>res. case res of
         Inl err \<Rightarrow> go_return (Some (if errors_is err RedisNil then None else Some err))
       | Inr [] \<Rightarrow> go_return (Some None)
       | Inr ((stream, msgs) # _) \<Rightarrow>
           if msgs = [] then go_return (Some None)
           else go_bind (process_messages E cfg handler queue msgs)
                  (\<lambda>_. recover_queue fuel E cfg handler queue))"

fun recoverOwnPending ::
  "nat \<Rightarrow> 'w env \<Rightarrow> ConsumerConfig \<Rightarrow> 'w task_handler \<Rightarrow> string list \<Rightarrow> ('w, go_error option option) go" where
  "recoverOwnPending fuel E cfg handler [] = go_return (Some None)"
| "recoverOwnPending fuel E cfg handler (queue # queues) =
     go_bind (recover_queue fuel E cfg handler queue) (\<lambda>r. case r of
         Some None \<Rightarrow> recoverOwnPending fuel E cfg handler queues
       | _ \<Rightarrow> go_return r)"

fun claimStale ::
  "nat \<Rightarrow> 'w env \<Rightarrow> ConsumerConfig \<Rightarrow> 'w task_handler \<Rightarrow> string \<Rightarrow> ('w, go_error option option) go" where
  "claimStale 0 E cfg handler queue = go_return None"
| "claimStale (Suc fuel) E cfg handler queue =
     go_bind (go_lift (x_auto_claim E (streamKey queue) (Group cfg) (Consumer cfg)
       (ClaimStaleAfter cfg) ''0'' (BatchSize cfg)))
     (\<lambda>res. case res of
         Inl err \<Rightarrow> go_return (Some (if errors_is err RedisNil then None else Some err))
       | Inr msgs \<Rightarrow>
           if msgs = [] then go_return (Some None)
           else go_bind (process_messages E cfg handler queue msgs)
                  (\<lambda>_. claimStale fuel E cfg handler queue))"

text \<open>One tick of \<open>backgroundClaimer\<close>: the error of a queue is logged only. The value says whether the
  fuel was enough for every queue.\<close>

definition claimer_tick ::
  "nat \<Rightarrow> 'w env \<Rightarrow> ConsumerConfig \<Rightarrow> 'w task_handler \<Rightarrow> string list \<Rightarrow> ('w, bool) go" where
  "claimer_tick fuel E cfg handler queues =
     go_fold (\<lambda>queue ok. go_bind (claimStale fuel E cfg handler queue) (\<lambda>r. go_return (ok \<and> r \<noteq> None)))
       queues True"

section \<open>The main loop\<close>

definition maxRetries :: int where "maxRetries = 10"

text \<open>\<open>time.Duration(1<<uint(retryCount-1)) * time.Second\<close>, at most 30 seconds.\<close>

definition subscribe_backoff :: "int \<Rightarrow> duration" where
  "subscribe_backoff retryCount =
     (let backoff = push_bit (nat (retryCount - 1)) 1 * dur Second
      in if sint backoff > 30 * Second then dur (30 * Second) else backoff)"

text \<open>One turn of the loop: \<open>Inr n\<close> goes on with the retry count \<open>n\<close>, \<open>Inl err\<close> returns the error.\<close>

definition consume_step ::
  "'w env \<Rightarrow> ConsumerConfig \<Rightarrow> 'w task_handler \<Rightarrow> (string \<times> string) list \<Rightarrow> int \<Rightarrow> ('w, go_error + int) go" where
  "consume_step E cfg handler sts retryCount =
     go_bind (go_lift (x_read_group E (Group cfg) (Consumer cfg) sts (BatchSize cfg) (Some (BlockDuration cfg))))
     (\<lambda>res. case res of
         Inl err \<Rightarrow>
           if errors_is err RedisNil then go_return (Inr 0)
           else go_bind (\<lambda>w. (Ret (ctx_err E w), w)) (\<lambda>ce. case ce of
               Some e \<Rightarrow> go_return (Inl e)
             | None \<Rightarrow>
                 if isTransientError (Some err) then
                   (let n = retryCount + 1
                    in if n > maxRetries then go_return (Inl (ErrWrap ''max retries (10) exceeded: '' err))
                       else go_bind (go_lift (go_sleep E (subscribe_backoff n))) (\<lambda>_. go_return (Inr n)))
                 else go_return (Inl (ErrWrap ''failed to read from stream: '' err)))
       | Inr results \<Rightarrow>
           go_bind (go_fold (\<lambda>(stream, msgs) u.
               if length stream < length streamPrefix then go_panic ''slice bounds out of range''
               else process_messages E cfg handler (drop (length streamPrefix) stream) msgs) results ())
             (\<lambda>_. go_return (Inr 0)))"

fun consume_loop ::
  "nat \<Rightarrow> 'w env \<Rightarrow> ConsumerConfig \<Rightarrow> 'w task_handler \<Rightarrow> (string \<times> string) list \<Rightarrow> int \<Rightarrow> ('w, go_error option) go" where
  "consume_loop 0 E cfg handler sts retryCount = go_return None"
| "consume_loop (Suc fuel) E cfg handler sts retryCount =
     go_bind (consume_step E cfg handler sts retryCount) (\<lambda>r. case r of
         Inl err \<Rightarrow> go_return (Some err)
       | Inr n \<Rightarrow> consume_loop fuel E cfg handler sts n)"

fun create_groups :: "'w env \<Rightarrow> ConsumerConfig \<Rightarrow> string list \<Rightarrow> ('w, go_error option) go" where
  "create_groups E cfg [] = go_return None"
| "create_groups E cfg (queue # queues) =
     go_bind (go_lift (x_group_create E (streamKey queue) (Group cfg) ''0'')) (\<lambda>r. case r of
         None \<Rightarrow> create_groups E cfg queues
       | Some err \<Rightarrow>
           if error_text err \<noteq> ''BUSYGROUP Consumer Group name already exists''
           then go_return (Some (ErrWrap ''failed to create consumer group: '' err))
           else create_groups E cfg queues)"

text \<open>What \<open>Subscribe\<close> does in its own goroutine: it returns an error, or the fuel ran out.\<close>

definition Subscribe ::
  "nat \<Rightarrow> 'w env \<Rightarrow> ConsumerConfig \<Rightarrow> string list \<Rightarrow> 'w task_handler \<Rightarrow> ('w, go_error option) go" where
  "Subscribe fuel E cfg queues handler =
     go_bind (create_groups E cfg queues) (\<lambda>r. case r of
         Some err \<Rightarrow> go_return (Some err)
       | None \<Rightarrow>
     go_bind (recoverOwnPending fuel E cfg handler queues) (\<lambda>r. case r of
         None \<Rightarrow> go_return None
       | Some (Some err) \<Rightarrow> go_return (Some (ErrWrap ''failed to recover own pending messages: '' err))
       | Some None \<Rightarrow>
           consume_loop fuel E cfg handler (map (\<lambda>q. (streamKey q, ''>'')) queues) 0))"

section \<open>Recovery ends\<close>

definition own_pending :: "ConsumerConfig \<Rightarrow> redis_db \<Rightarrow> string \<Rightarrow> string set" where
  "own_pending cfg d q = {i. pel d (streamKey q) (Group cfg) i = Some (Consumer cfg)}"

text \<open>
  In the worlds \<open>I\<close> the handler settles the messages \<open>P\<close>: \<open>processMessage\<close> returns, the message is no longer
  pending for this consumer, and no message has become so; and reading gives such messages only.
\<close>

definition settles ::
  "('w \<Rightarrow> redis_db) \<Rightarrow> 'w env \<Rightarrow> ConsumerConfig \<Rightarrow> 'w task_handler \<Rightarrow> ('w \<Rightarrow> bool) \<Rightarrow> (string \<Rightarrow> XMessage \<Rightarrow> bool) \<Rightarrow> bool" where
  "settles db E cfg h I P \<longleftrightarrow>
     (\<forall>q msg w. I w \<longrightarrow> P q msg \<longrightarrow> (\<exists>e w'. processMessage E cfg h q msg w = (Ret e, w') \<and> I w' \<and>
        xm_ID msg \<notin> own_pending cfg (db w') q \<and>
        (\<forall>q'. own_pending cfg (db w') q' \<subseteq> own_pending cfg (db w) q'))) \<and>
     (\<forall>q w r w'. I w \<longrightarrow> x_read_group E (Group cfg) (Consumer cfg) [(streamKey q, ''0'')] (BatchSize cfg) None w = (r, w')
        \<longrightarrow> I w' \<and> (\<forall>k ms. r = Inr [(k, ms)] \<longrightarrow> list_all (P q) ms))"

text \<open>Reading the pending messages of some queue fails with this error.\<close>

definition read_fails :: "'w env \<Rightarrow> ConsumerConfig \<Rightarrow> ('w \<Rightarrow> bool) \<Rightarrow> go_error \<Rightarrow> bool" where
  "read_fails E cfg I err \<longleftrightarrow> (\<exists>q w w'. I w \<and>
     x_read_group E (Group cfg) (Consumer cfg) [(streamKey q, ''0'')] (BatchSize cfg) None w = (Inl err, w'))"

lemma process_messages_settle:
  assumes "settles db E cfg h I P" and "I w" and "list_all (P q) msgs"
  shows "\<exists>w'. process_messages E cfg h q msgs w = (Ret (), w') \<and> I w' \<and>
    (\<forall>q'. own_pending cfg (db w') q' \<subseteq> own_pending cfg (db w) q') \<and>
    own_pending cfg (db w') q \<inter> xm_ID ` set msgs = {}"
  using assms(2,3)
proof (induction msgs arbitrary: w)
  case Nil
  then show ?case by (simp add: process_messages_def)
next
  case (Cons msg msgs)
  from Cons.prems have "I w" and "P q msg" and rest: "list_all (P q) msgs" by simp_all
  with assms(1) obtain e w1 where run: "processMessage E cfg h q msg w = (Ret e, w1)" and I: "I w1"
    and out: "xm_ID msg \<notin> own_pending cfg (db w1) q"
    and sub: "\<forall>q'. own_pending cfg (db w1) q' \<subseteq> own_pending cfg (db w) q'"
    unfolding settles_def by blast
  from Cons.IH [OF I rest] obtain w' where "process_messages E cfg h q msgs w1 = (Ret (), w')" and "I w'"
    and "\<forall>q'. own_pending cfg (db w') q' \<subseteq> own_pending cfg (db w1) q'"
    and "own_pending cfg (db w') q \<inter> xm_ID ` set msgs = {}" by blast
  moreover from this(1) have "process_messages E cfg h q (msg # msgs) w = (Ret (), w')"
    by (simp add: process_messages_def go_bind_def run)
  ultimately show ?case using out sub by fastforce
qed

context redis_consumer
begin

lemma recover_queue_ends:
  assumes settle: "settles db E cfg h I P"
  shows "I w \<Longrightarrow> finite (own_pending cfg (db w) q) \<Longrightarrow> card (own_pending cfg (db w) q) < fuel \<Longrightarrow>
    \<exists>r w'. recover_queue fuel E cfg h q w = (Ret (Some r), w') \<and> I w' \<and>
      (\<forall>q'. own_pending cfg (db w') q' \<subseteq> own_pending cfg (db w) q') \<and>
      (r = None \<longrightarrow> own_pending cfg (db w') q = {}) \<and> (\<forall>err. r = Some err \<longrightarrow> read_fails E cfg I err)"
proof (induction fuel arbitrary: w)
  case 0
  then show ?case by simp
next
  case (Suc fuel)
  obtain res w1 where read: "x_read_group E (Group cfg) (Consumer cfg) [(streamKey q, ''0'')] (BatchSize cfg) None w = (res, w1)"
    by (cases "x_read_group E (Group cfg) (Consumer cfg) [(streamKey q, ''0'')] (BatchSize cfg) None w")
  with settle Suc.prems(1) have I1: "I w1" and P: "\<And>k ms. res = Inr [(k, ms)] \<Longrightarrow> list_all (P q) ms"
    unfolding settles_def by blast+
  show ?case
  proof (cases res)
    case (Inl err)
    with read have "\<not> errors_is err RedisNil" and "db w1 = db w" using read_pending_fail by blast+
    moreover have "read_fails E cfg I err" using read Inl Suc.prems(1) unfolding read_fails_def by blast
    ultimately show ?thesis using Inl I1 by (simp add: go_bind_lift read)
  next
    case (Inr pending)
    with read read_pending_ok obtain ms where ms: "pending = [(streamKey q, ms)]"
      and ok: "read_pending_ok (streamKey q) (Group cfg) (Consumer cfg) (db w) ms" and db1: "db w1 = db w"
      by blast
    show ?thesis
    proof (cases "ms = []")
      case True
      with ok have "own_pending cfg (db w) q = {}"
        by (simp add: read_pending_ok_def own_pending_def)
      with True Inr ms I1 db1 show ?thesis by (simp add: go_bind_lift read)
    next
      case False
      then obtain m where m: "m \<in> set ms" by (cases ms) auto
      with ok have own: "xm_ID m \<in> own_pending cfg (db w) q"
        by (auto simp: read_pending_ok_def own_pending_def)
      obtain w2 where run: "process_messages E cfg h q ms w1 = (Ret (), w2)" and I2: "I w2"
        and sub: "\<forall>q'. own_pending cfg (db w2) q' \<subseteq> own_pending cfg (db w1) q'"
        and gone: "own_pending cfg (db w2) q \<inter> xm_ID ` set ms = {}"
        using process_messages_settle [OF settle I1 P [OF Inr [unfolded ms]]] by blast
      have "xm_ID m \<notin> own_pending cfg (db w2) q" using gone m by blast
      then have less: "own_pending cfg (db w2) q \<subset> own_pending cfg (db w) q"
        using sub own db1 by auto
      have fin: "finite (own_pending cfg (db w2) q)"
        by (rule finite_subset [OF _ Suc.prems(2)]) (use less in blast)
      have "card (own_pending cfg (db w2) q) < fuel"
        using psubset_card_mono [OF Suc.prems(2) less] Suc.prems(3) by simp
      from Suc.IH [OF I2 fin this] obtain r w' where
        rec: "recover_queue fuel E cfg h q w2 = (Ret (Some r), w')" and "I w'"
        and "\<forall>q'. own_pending cfg (db w') q' \<subseteq> own_pending cfg (db w2) q'"
        and "(r = None \<longrightarrow> own_pending cfg (db w') q = {}) \<and> (\<forall>err. r = Some err \<longrightarrow> read_fails E cfg I err)" by blast
      moreover have "recover_queue (Suc fuel) E cfg h q w = (Ret (Some r), w')"
        using False Inr ms rec by (simp add: go_bind_lift read go_bind_Ret run)
      ultimately show ?thesis using sub db1 by auto
    qed
  qed
qed

lemma recoverOwnPending_drains:
  assumes settle: "settles db E cfg h I P"
  shows "I w \<Longrightarrow> \<forall>q \<in> set queues. finite (own_pending cfg (db w) q) \<and> card (own_pending cfg (db w) q) < fuel \<Longrightarrow>
    \<exists>r w'. recoverOwnPending fuel E cfg h queues w = (Ret (Some r), w') \<and> I w' \<and>
      (\<forall>q'. own_pending cfg (db w') q' \<subseteq> own_pending cfg (db w) q') \<and>
      (r = None \<longrightarrow> (\<forall>q \<in> set queues. own_pending cfg (db w') q = {})) \<and> (\<forall>err. r = Some err \<longrightarrow> read_fails E cfg I err)"
proof (induction queues arbitrary: w)
  case Nil
  then show ?case by simp
next
  case (Cons q queues)
  from recover_queue_ends [OF settle, of w q fuel] Cons.prems obtain r w1 where
    run: "recover_queue fuel E cfg h q w = (Ret (Some r), w1)" and I1: "I w1"
    and sub: "\<forall>q'. own_pending cfg (db w1) q' \<subseteq> own_pending cfg (db w) q'"
    and empty: "r = None \<longrightarrow> own_pending cfg (db w1) q = {}" and fails: "\<forall>err. r = Some err \<longrightarrow> read_fails E cfg I err" by auto
  show ?case
  proof (cases r)
    case (Some err)
    with run have "recoverOwnPending fuel E cfg h (q # queues) w = (Ret (Some (Some err)), w1)"
      by (simp add: go_bind_Ret)
    with I1 sub fails Some show ?thesis by blast
  next
    case None
    have "finite (own_pending cfg (db w1) q') \<and> card (own_pending cfg (db w1) q') < fuel" if "q' \<in> set queues" for q'
      using Cons.prems(2) sub that by (meson card_mono finite_subset le_less_trans list.set_intros(2))
    with Cons.IH [OF I1] obtain r' w' where "recoverOwnPending fuel E cfg h queues w1 = (Ret (Some r'), w')"
      and "I w'" and "\<forall>q'. own_pending cfg (db w') q' \<subseteq> own_pending cfg (db w1) q'"
      and "(r' = None \<longrightarrow> (\<forall>q \<in> set queues. own_pending cfg (db w') q = {})) \<and> (\<forall>err. r' = Some err \<longrightarrow> read_fails E cfg I err)"
      by blast
    moreover from this(1) None run have "recoverOwnPending fuel E cfg h (q # queues) w = (Ret (Some r'), w')"
      by (simp add: go_bind_Ret)
    ultimately show ?thesis using sub empty None by (auto, blast)
  qed
qed

end

section \<open>One message\<close>

lemma unreadable_message:
  assumes "message_task msg = None" and "processMessage E cfg h q msg w = (Ret r, w')"
  shows "r \<noteq> None \<and> (\<exists>e. command_do E (XAck (streamKey q) (Group cfg) (xm_ID msg)) w = (e, w'))"
  using assms
  by (auto simp: processMessage_def message_task_def go_bind_Ret_iff go_lift_iff split: option.splits sum.splits)

lemma readable_message:
  assumes "message_task msg = Some t" and "processMessage E cfg h q msg w = (Ret r, w')"
  shows "\<exists>w1. (h (with_message_id (xm_ID msg) t) w = (Ret r, w1) \<and> r \<noteq> None \<and> w' = w1) \<or>
    (h (with_message_id (xm_ID msg) t) w = (Ret None, w1) \<and> Ack E cfg q (xm_ID msg) w1 = (Ret r, w'))"
proof -
  from assms(1) obtain data where "map_of (xm_Values msg) ''data'' = Some data" and "unmarshal_task data = Inr t"
    by (auto simp: message_task_def split: option.splits sum.splits)
  with assms(2) obtain err w1 where run: "h (with_message_id (xm_ID msg) t) w = (Ret err, w1)"
    and rest: "(case err of Some e \<Rightarrow> go_return (Some e) | None \<Rightarrow> Ack E cfg q (xm_ID msg)) w1 = (Ret r, w')"
    by (auto simp: processMessage_def go_bind_Ret_iff)
  show ?thesis using run rest by (cases err) auto
qed

text \<open>
  C15. What \<open>processMessage\<close> does with a message. A message that holds a task is given to the handler
  once, with its id; if the handler fails, the error is passed on and the message stays where the
  handler left it; if it succeeds and the acknowledgement does too, the message is gone and nothing else
  has changed since the handler returned. A message that holds no task is never given to the handler: it
  is acknowledged, and its entry stays in the stream.
\<close>

theorem processMessage_outcome:
  assumes "redis_server E db clk" and "processMessage E cfg h q msg w = (Ret r, w')"
  shows "case message_task msg of
      Some t \<Rightarrow> (\<exists>err w1. h (with_message_id (xm_ID msg) t) w = (Ret err, w1) \<and>
        (err \<noteq> None \<longrightarrow> r = err \<and> w' = w1) \<and>
        (err = None \<and> r = None \<longrightarrow>
          view cfg (db w') = (view cfg (db w1))(q := drop_message (xm_ID msg) (view cfg (db w1) q))))
    | None \<Rightarrow> r \<noteq> None \<and> (db w' = db w \<or>
        pel (db w') (streamKey q) (Group cfg) = (pel (db w) (streamKey q) (Group cfg))(xm_ID msg := None)) \<and>
        streams (db w') = streams (db w)"
proof (cases "message_task msg")
  case None
  obtain e where "r \<noteq> None" and run: "command_do E (XAck (streamKey q) (Group cfg) (xm_ID msg)) w = (e, w')"
    using unreadable_message [OF None assms(2)] by blast
  then have "db w' = db w \<or> command_step (XAck (streamKey q) (Group cfg) (xm_ID msg)) (db w) (db w')"
    using redis_server.do_ok [OF assms(1), of _ w w'] redis_server.do_fail [OF assms(1), of _ w _ w']
    by (cases e) blast+
  with None \<open>r \<noteq> None\<close> show ?thesis by (auto simp: command_step_simps db_simps)
next
  case (Some t)
  then show ?thesis
    using readable_message [OF Some assms(2)] by (auto dest: redis_server.Ack_refines [OF assms(1)])
qed

definition demo_stream_message :: XMessage where
  "demo_stream_message = \<lparr>xm_ID = ''i'', xm_Values = [(''data'', JsonText (json_task demo_task))]\<rparr>"

lemma demo_task_reads: "unmarshal_task (JsonText (json_task demo_task)) = Inr (norm_task demo_task)"
  using demo_task_marshals unfolding marshal_Inr by (simp add: decode_json_task)

lemma demo_processMessage: "processMessage mem_env DefaultConsumerConfig (\<lambda>t. go_return None) ''critical'' demo_stream_message empty_mem =
    (Ret None, snd (processMessage mem_env DefaultConsumerConfig (\<lambda>t. go_return None) ''critical'' demo_stream_message empty_mem))"
  by (simp add: processMessage_def demo_stream_message_def demo_task_reads Ack_def go_lift_def mem_pipe_def empty_mem_def)

theorem processMessage_outcome_witness:
  "let h = (\<lambda>t. go_return None); cfg = DefaultConsumerConfig; msg = demo_stream_message; r = None :: go_error option;
       w' = snd (processMessage mem_env cfg h ''critical'' msg empty_mem) in
   case message_task msg of
      Some t \<Rightarrow> (\<exists>err w1. h (with_message_id (xm_ID msg) t) empty_mem = (Ret err, w1) \<and>
        (err \<noteq> None \<longrightarrow> r = err \<and> w' = w1) \<and>
        (err = None \<and> r = None \<longrightarrow>
          view cfg (mem_db w') = (view cfg (mem_db w1))(''critical'' := drop_message (xm_ID msg) (view cfg (mem_db w1) ''critical''))))
    | None \<Rightarrow> r \<noteq> None \<and> (mem_db w' = mem_db empty_mem \<or>
        pel (mem_db w') (streamKey ''critical'') (Group cfg) =
          (pel (mem_db empty_mem) (streamKey ''critical'') (Group cfg))(xm_ID msg := None)) \<and>
        streams (mem_db w') = streams (mem_db empty_mem)"
  unfolding Let_def by (rule processMessage_outcome [OF mem.redis_server_axioms demo_processMessage])

text \<open>
  C16. Recovery of a consumer's own pending messages ends and, unless Redis fails, drains them: when
  handling a message that reading can give always settles it (it returns, and the message is no longer pending for this
  consumer), as many turns as there are pending messages in the fullest queue, and one more, are enough.
  Either no message of these queues is pending for the consumer any more, or the error returned is that
  of reading the pending messages of a queue.
\<close>

theorem recoverOwnPending_ends:
  assumes "redis_consumer E db clk" and "settles db E cfg h I P" and "I w"
    and "\<forall>q \<in> set queues. finite (own_pending cfg (db w) q) \<and> card (own_pending cfg (db w) q) < fuel"
  shows "\<exists>r w'. recoverOwnPending fuel E cfg h queues w = (Ret (Some r), w') \<and> I w' \<and>
      (case r of
         None \<Rightarrow> \<forall>q \<in> set queues. own_pending cfg (db w') q = {}
       | Some err \<Rightarrow> read_fails E cfg I err)"
  using redis_consumer.recoverOwnPending_drains [OF assms(1,2,3,4)] by (fastforce split: option.split)

definition healthy :: "mem \<Rightarrow> bool" where
  "healthy m \<longleftrightarrow> m_faults m = []"

lemma mem_pel_ack:
  "pel (mem_db (mem_command (XAck k g i) m)) =
     (pel (mem_db m))(k := (pel (mem_db m) k)(g := (pel (mem_db m) k g)(i := None)))"
  by (simp add: mem_command_eff db_simps del: mem_command.simps)

lemma mem_pel_del: "pel (mem_db (mem_command (XDel k i) m)) = pel (mem_db m)"
  by (simp add: mem_db_def)

lemma mem_pel_hincr: "pel (mem_db (mem_command (HIncrBy k f n) m)) = pel (mem_db m)"
  by (simp add: mem_db_def)

lemma mem_faults_command [simp]: "m_faults (mem_command c m) = m_faults m"
  by (cases c) auto

text \<open>On a healthy server, a handler that always succeeds settles messages.\<close>

lemma healthy_settles: "settles mem_db mem_env cfg (\<lambda>t. go_return None) healthy (\<lambda>q m. True)"
proof -
  have ack: "\<exists>w'. Ack mem_env cfg q i m = (Ret None, w') \<and> healthy w' \<and>
      pel (mem_db w') = (pel (mem_db m))(streamKey q := (pel (mem_db m) (streamKey q))
        (Group cfg := (pel (mem_db m) (streamKey q) (Group cfg))(i := None)))" if "healthy m" for q i m
    using that by (simp add: Ack_def go_lift_def mem_pipe_def healthy_def mem_pel_hincr mem_pel_del mem_pel_ack
        del: mem_command.simps)
  have xack: "\<exists>e w'. command_do mem_env (XAck (streamKey q) (Group cfg) i) m = (e, w') \<and> healthy w' \<and>
      pel (mem_db w') = (pel (mem_db m))(streamKey q := (pel (mem_db m) (streamKey q))
        (Group cfg := (pel (mem_db m) (streamKey q) (Group cfg))(i := None)))" if "healthy m" for q i m
    using that by (simp add: mem_pipe_def healthy_def mem_pel_ack del: mem_command.simps)
  have one: "\<exists>e w'. processMessage mem_env cfg (\<lambda>t. go_return None) q msg m = (Ret e, w') \<and> healthy w' \<and>
      pel (mem_db w') = (pel (mem_db m))(streamKey q := (pel (mem_db m) (streamKey q))
        (Group cfg := (pel (mem_db m) (streamKey q) (Group cfg))(xm_ID msg := None)))" if "healthy m" for q msg m
    using ack [OF that, of q "xm_ID msg"] xack [OF that, of q "xm_ID msg"]
    by (auto simp: processMessage_def go_bind_lift simp del: mem_env_sel split: option.split sum.split)
  have read: "healthy m'" if "healthy m"
    "x_read_group mem_env (Group cfg) (Consumer cfg) [(streamKey q, ''0'')] (BatchSize cfg) None m = (r, m')" for q m r m'
    using that by (auto simp: healthy_def mem_call_def)
  show ?thesis unfolding settles_def
  proof (intro conjI allI impI)
    fix q msg m assume "healthy m"
    from one [OF this, of q msg] show "\<exists>e w'. processMessage mem_env cfg (\<lambda>t. go_return None) q msg m = (Ret e, w') \<and>
      healthy w' \<and> xm_ID msg \<notin> own_pending cfg (mem_db w') q \<and>
      (\<forall>q'. own_pending cfg (mem_db w') q' \<subseteq> own_pending cfg (mem_db m) q')"
      by (auto simp: own_pending_def)
  qed (use read in \<open>auto simp: list_all_iff\<close>)
qed


definition pending_mem :: mem where
  "pending_mem = empty_mem\<lparr>m_streams := (\<lambda>_. [])(streamKey ''critical'' :=
       [(''i'', [(''data'', JsonText (json_task demo_task))])]),
     m_pel := [((streamKey ''critical'', Group DefaultConsumerConfig, ''i''), Consumer DefaultConsumerConfig)],
     m_delivered := [(streamKey ''critical'', Group DefaultConsumerConfig, ''i'')]\<rparr>"

lemma pending_mem_own: "own_pending DefaultConsumerConfig (mem_db pending_mem) ''critical'' = {''i''}"
  by (auto simp: own_pending_def pending_mem_def mem_db_def split: if_splits)

theorem recoverOwnPending_ends_witness:
  "\<exists>r w'. recoverOwnPending 2 mem_env DefaultConsumerConfig (\<lambda>t. go_return None) [''critical''] pending_mem =
       (Ret (Some r), w') \<and> healthy w' \<and>
     (case r of
        None \<Rightarrow> \<forall>q \<in> set [''critical'']. own_pending DefaultConsumerConfig (mem_db w') q = {}
      | Some err \<Rightarrow> read_fails mem_env DefaultConsumerConfig healthy err)"
  by (rule recoverOwnPending_ends [OF mem.redis_consumer_axioms healthy_settles])
    (simp_all add: pending_mem_own, simp add: healthy_def pending_mem_def empty_mem_def)

section \<open>The main loop gives up\<close>

definition sleep_all :: "'w env \<Rightarrow> duration list \<Rightarrow> 'w \<Rightarrow> 'w" where
  "sleep_all E ds w = fold (\<lambda>d w. snd (go_sleep E d w)) ds w"

definition backoff_schedule :: "duration list" where
  "backoff_schedule = map (\<lambda>s. dur (s * Second)) [1, 2, 4, 8, 16, 30, 30, 30, 30, 30]"

lemma subscribe_backoffs: "map subscribe_backoff [1..10] = backoff_schedule"
  by code_simp

lemma consume_step_transient:
  assumes read: "\<And>w. x_read_group E (Group cfg) (Consumer cfg) sts (BatchSize cfg) (Some (BlockDuration cfg)) w = (Inl e, w)"
    and "isTransientError (Some e)" and "\<not> errors_is e RedisNil" and "\<And>w. ctx_err E w = None"
  shows "consume_step E cfg h sts n w =
    (if n + 1 > 10 then (Ret (Inl (ErrWrap ''max retries (10) exceeded: '' e)), w)
     else (Ret (Inr (n + 1)), snd (go_sleep E (subscribe_backoff (n + 1)) w)))"
  using assms by (cases "go_sleep E (subscribe_backoff (n + 1)) w")
    (auto simp: consume_step_def go_bind_lift maxRetries_def Let_def go_bind_def [of "\<lambda>w. (Ret (ctx_err E w), w)"])

lemma consume_loop_transient:
  assumes read: "\<And>w. x_read_group E (Group cfg) (Consumer cfg) sts (BatchSize cfg) (Some (BlockDuration cfg)) w = (Inl e, w)"
    and "isTransientError (Some e)" and "\<not> errors_is e RedisNil" and "\<And>w. ctx_err E w = None"
    and "n \<le> 10"
  shows "nat (11 - n) \<le> fuel \<Longrightarrow> consume_loop fuel E cfg h sts n w =
    (Ret (Some (ErrWrap ''max retries (10) exceeded: '' e)), sleep_all E (map subscribe_backoff [n + 1..10]) w)"
  using assms(5)
proof (induction "nat (10 - n)" arbitrary: n fuel w)
  case 0
  then obtain f where "fuel = Suc f" and "n = 10" by (cases fuel) auto
  then show ?case
    by (simp add: go_bind_Ret consume_step_transient [OF assms(1-4)] sleep_all_def)
next
  case (Suc x)
  then obtain f where fuel: "fuel = Suc f" by (cases fuel) auto
  from Suc have "n < 10" by simp
  then have "map subscribe_backoff [n + 1..10] = subscribe_backoff (n + 1) # map subscribe_backoff [n + 1 + 1..10]"
    by (simp add: upto_rec1)
  with Suc fuel \<open>n < 10\<close> show ?case
    by (simp add: go_bind_Ret consume_step_transient [OF assms(1-4)] sleep_all_def)
qed

text \<open>
  C24. When every read fails with a transient error and the context is not cancelled, the main loop
  sleeps 1, 2, 4, 8, 16 and then five times 30 seconds, and returns the error with the eleventh failure.
\<close>

theorem consume_loop_gives_up:
  assumes "\<And>w. x_read_group E (Group cfg) (Consumer cfg) sts (BatchSize cfg) (Some (BlockDuration cfg)) w = (Inl e, w)"
    and "isTransientError (Some e)" and "\<not> errors_is e RedisNil" and "\<And>w. ctx_err E w = None" and "11 \<le> fuel"
  shows "consume_loop fuel E cfg h sts 0 w =
    (Ret (Some (ErrWrap ''max retries (10) exceeded: '' e)), sleep_all E backoff_schedule w)"
  using consume_loop_transient [OF assms(1-4), of 0 fuel h w] assms(5) subscribe_backoffs by simp

definition down_env :: "mem env" where
  "down_env = mem_env\<lparr>x_read_group := (\<lambda>g c sts n block m. (Inl (ErrText ''i/o timeout''), m))\<rparr>"

theorem consume_loop_gives_up_witness:
  "consume_loop 11 down_env DefaultConsumerConfig (\<lambda>t. go_return None) [(streamKey ''q'', ''>'')] 0 empty_mem =
    (Ret (Some (ErrWrap ''max retries (10) exceeded: '' (ErrText ''i/o timeout''))),
     sleep_all down_env backoff_schedule empty_mem)"
  by (rule consume_loop_gives_up)
    (simp_all add: down_env_def isTransientError_def transientPatterns_def)

end
