(* ===== verification/Broker_Scheduler.thy ===== *)
theory Broker_Scheduler
  imports Broker_Spec
begin

text \<open>
  The scheduler of \<^verbatim>\<open>broker/redis/redis.go\<close>: the Lua scripts that move due tasks from the scheduled and
  the retry sets to the streams, and \<open>EnqueueScheduled\<close> and \<open>EnqueueRetry\<close>, which run them. The scripts
  differ only in the set they read. A Lua table made by \<open>cjson.decode\<close> is a JSON tree; an error of the
  script (indexing a value that is no table, a failing command) is a panic of the model, and keeps what
  the script had done before.
\<close>

section \<open>Lua tables\<close>

text \<open>A repeated key keeps its last value.\<close>

definition lua_get :: "string \<Rightarrow> (string \<times> json) list \<Rightarrow> json option" where
  "lua_get k kvs = map_of (rev kvs) k"

definition lua_set :: "string \<Rightarrow> json \<Rightarrow> (string \<times> json) list \<Rightarrow> (string \<times> json) list" where
  "lua_set k j kvs = filter (\<lambda>(k', _). k' \<noteq> k) kvs @ [(k, j)]"

text \<open>The fields of a table; an array is a table with the indices 1, 2, ... as keys, which
  \<open>cjson.encode\<close> prints as strings once the table has another key.\<close>

fun lua_table :: "json \<Rightarrow> (string \<times> json) list option" where
  "lua_table (JObj kvs) = Some kvs"
| "lua_table (JArr js) = Some (zip (map (\<lambda>i. show_nat (Suc i)) [0..<length js]) js)"
| "lua_table _ = None"

text \<open>\<open>if task.metadata then task.metadata.state = 'pending' else task.metadata = {state = 'pending'} end\<close>:
  nil and false are no metadata; \<open>None\<close> is the error of indexing a value that is no table.\<close>

definition lua_set_pending :: "json \<Rightarrow> json option" where
  "lua_set_pending task = (case lua_table task of
      None \<Rightarrow> None
    | Some kvs \<Rightarrow> (case lua_get ''metadata'' kvs of
          None \<Rightarrow> Some (JObj (lua_set ''metadata'' (JObj [(''state'', JStr ''pending'')]) kvs))
        | Some m \<Rightarrow>
            if m = JBool False then Some (JObj (lua_set ''metadata'' (JObj [(''state'', JStr ''pending'')]) kvs))
            else (case lua_table m of
                None \<Rightarrow> None
              | Some ms \<Rightarrow> Some (JObj (lua_set ''metadata'' (JObj (lua_set ''state'' (JStr ''pending'') ms)) kvs)))))"

section \<open>The scripts\<close>

text \<open>The keys and prefixes that the Go code passes as \<open>KEYS\<close> and \<open>ARGV\<close> are the constants themselves.\<close>

definition lua_move_task ::
  "'w env \<Rightarrow> string \<Rightarrow> string \<Rightarrow> bulk \<Rightarrow> int \<Rightarrow> ('w, int) go" where
  "lua_move_task E setKey queue taskData totalCount =
     (case cjson_decode E taskData of
        None \<Rightarrow> go_panic ''Expected value but found invalid token''
      | Some task \<Rightarrow> (case lua_set_pending task of
            None \<Rightarrow> go_panic ''attempt to index a non-table value''
          | Some updated \<Rightarrow>
              go_bind (lua_call E (ZRem setKey taskData)) (\<lambda>_.
              go_bind (lua_call E (XAdd (streamPrefix @ queue) [(''data'', cjson_encode E updated)])) (\<lambda>_.
              go_bind (lua_call E (HIncrBy (statsPrefix @ queue) ''enqueued'' 1)) (\<lambda>_.
              go_return (totalCount + 1))))))"

definition lua_move_queue ::
  "'w env \<Rightarrow> string \<Rightarrow> int \<Rightarrow> int \<Rightarrow> string \<Rightarrow> int \<Rightarrow> ('w, int) go" where
  "lua_move_queue E setPrefix maxScore limit queue totalCount =
     go_bind (lua_zrangebyscore E (setPrefix @ queue) maxScore limit) (\<lambda>tasks.
       go_fold (lua_move_task E (setPrefix @ queue) queue) tasks totalCount)"

definition enqueue_script ::
  "'w env \<Rightarrow> string \<Rightarrow> int \<Rightarrow> int \<Rightarrow> ('w, int) go" where
  "enqueue_script E setPrefix maxScore limit =
     go_bind (lua_smembers E queuesKey) (\<lambda>queues.
       if queues = [] then go_return 0
       else go_fold (lua_move_queue E setPrefix maxScore limit) queues 0)"

definition enqueueScheduledScript :: "'w env \<Rightarrow> int \<Rightarrow> int \<Rightarrow> ('w, int) go" where
  "enqueueScheduledScript E maxScore limit = enqueue_script E scheduledPrefix maxScore limit"

definition enqueueRetryScript :: "'w env \<Rightarrow> int \<Rightarrow> int \<Rightarrow> ('w, int) go" where
  "enqueueRetryScript E maxScore limit = enqueue_script E retryPrefix maxScore limit"

definition EnqueueScheduled :: "'w env \<Rightarrow> time \<Rightarrow> int \<Rightarrow> ('w, go_error + int) go" where
  "EnqueueScheduled E until limit =
     go_bind (go_lift (script_run E (enqueueScheduledScript E (unix until) limit))) (\<lambda>res. case res of
         Inl err \<Rightarrow> go_return (Inl (ErrWrap ''failed to enqueue scheduled tasks: '' err))
       | Inr n \<Rightarrow> go_return (Inr n))"

definition EnqueueRetry :: "'w env \<Rightarrow> time \<Rightarrow> int \<Rightarrow> ('w, go_error + int) go" where
  "EnqueueRetry E until limit =
     go_bind (go_lift (script_run E (enqueueRetryScript E (unix until) limit))) (\<lambda>res. case res of
         Inl err \<Rightarrow> go_return (Inl (ErrWrap ''failed to enqueue retry tasks: '' err))
       | Inr n \<Rightarrow> go_return (Inr n))"

section \<open>What the scripts do\<close>

text \<open>The text a task has in the stream after the script moved it.\<close>

definition lua_pending :: "'w env \<Rightarrow> bulk \<Rightarrow> bulk option" where
  "lua_pending E m = Option.bind (cjson_decode E m) (\<lambda>t. map_option (cjson_encode E) (lua_set_pending t))"

definition moved_entries ::
  "'w env \<Rightarrow> bulk list \<Rightarrow> redis_db \<Rightarrow> string \<Rightarrow> (string \<times> (string \<times> bulk) list) list \<Rightarrow> bool" where
  "moved_entries E ms d k es \<longleftrightarrow>
     map snd es = map (\<lambda>m. [(''data'', the (lua_pending E m))]) ms \<and>
     distinct (map fst es) \<and> (\<forall>i \<in> fst ` set es. fresh_id d k i)"

text \<open>
  The script took the members \<open>ms q\<close> out of the set of queue \<open>q\<close> and appended them to its stream, for
  every queue, and did nothing else that shows in the queues.
\<close>

definition moved :: "'w env \<Rightarrow> string \<Rightarrow> (string \<Rightarrow> bulk list) \<Rightarrow> redis_db \<Rightarrow> redis_db \<Rightarrow> bool" where
  "moved E p ms d d' \<longleftrightarrow>
     (\<forall>q. \<forall>m \<in> set (ms q). lua_pending E m \<noteq> None) \<and>
     (\<forall>q. zsets d' (p @ q) = zsets d (p @ q) |` (- set (ms q))) \<and>
     (\<forall>k. (\<forall>q. k \<noteq> p @ q) \<longrightarrow> zsets d' k = zsets d k) \<and>
     (\<forall>q. \<exists>es. moved_entries E (ms q) d (streamKey q) es \<and>
        streams d' (streamKey q) = streams d (streamKey q) @ es) \<and>
     (\<forall>k. (\<forall>q. k \<noteq> streamKey q) \<longrightarrow> streams d' k = streams d k) \<and>
     sets d' = sets d \<and> pel d' = pel d \<and> strings d' = strings d \<and> delivered d' = delivered d"

lemma restrict_map_UNIV [simp]: "m |` UNIV = m"
  by (simp add: restrict_map_def)

lemma moved_refl: "moved E p (\<lambda>q. []) d d"
  by (simp add: moved_def moved_entries_def)

lemma moved_entries_append:
  assumes "moved_entries E ms d k es" and "moved_entries E ms' d' k es'"
    and "streams d' k = streams d k @ es" and "pel d' = pel d" and "delivered d' = delivered d"
  shows "moved_entries E (ms @ ms') d k (es @ es')"
proof -
  have fresh: "fresh_id d' k i \<longleftrightarrow> fresh_id d k i \<and> i \<notin> fst ` set es" for i
    using assms(3-5) by (auto simp: fresh_id_def)
  have "i \<notin> fst ` set es" if "i \<in> fst ` set es'" for i
    using assms(2) that fresh unfolding moved_entries_def by blast
  then have "fst ` set es \<inter> fst ` set es' = {}" by blast
  moreover have "\<forall>i \<in> fst ` set es'. fresh_id d k i" using assms(2) fresh unfolding moved_entries_def by blast
  ultimately show ?thesis using assms(1,2) by (simp add: moved_entries_def image_Un ball_Un)
qed

lemma moved_trans:
  assumes "moved E p ms d d1" and "moved E p ms' d1 d'"
  shows "moved E p (\<lambda>q. ms q @ ms' q) d d'"
proof -
  have same: "pel d1 = pel d" "delivered d1 = delivered d" using assms(1) by (simp_all add: moved_def)
  have "\<exists>es. moved_entries E (ms q @ ms' q) d (streamKey q) es \<and>
      streams d' (streamKey q) = streams d (streamKey q) @ es" for q
  proof -
    from assms(1) obtain es where "moved_entries E (ms q) d (streamKey q) es"
      and 1: "streams d1 (streamKey q) = streams d (streamKey q) @ es" unfolding moved_def by blast
    moreover from assms(2) obtain es' where "moved_entries E (ms' q) d1 (streamKey q) es'"
      and 2: "streams d' (streamKey q) = streams d1 (streamKey q) @ es'" unfolding moved_def by blast
    ultimately have "moved_entries E (ms q @ ms' q) d (streamKey q) (es @ es')"
      using same by (auto intro: moved_entries_append)
    with 1 2 show ?thesis by auto
  qed
  moreover have "- set (ms q) \<inter> - set (ms' q) = - set (ms q @ ms' q)" for q by auto
  ultimately show ?thesis using assms by (auto simp: moved_def)
qed

context redis_server
begin

lemma lua_move_task_moved:
  assumes "lua_move_task E (p @ q) q m n w = (Ret n', w')"
  shows "n' = n + 1 \<and> moved E p ((\<lambda>q. [])(q := [m])) (db w) (db w')"
proof -
  from assms obtain task updated where t: "cjson_decode E m = Some task" "lua_set_pending task = Some updated"
    by (auto simp: lua_move_task_def split: option.splits)
  with assms obtain w1 w2 u1 u2 u3 where n': "n' = n + 1"
    and 1: "lua_call E (ZRem (p @ q) m) w = (Ret u1, w1)"
    and 2: "lua_call E (XAdd (streamPrefix @ q) [(''data'', cjson_encode E updated)]) w1 = (Ret u2, w2)"
    and 3: "lua_call E (HIncrBy (statsPrefix @ q) ''enqueued'' 1) w2 = (Ret u3, w')"
    by (auto simp: lua_move_task_def go_bind_Ret_iff)
  from lua_call_ok [OF 1] lua_call_ok [OF 2] lua_call_ok [OF 3] obtain i
    where "fresh_id (command_eff '''' (ZRem (p @ q) m) (db w)) (streamPrefix @ q) i"
    and "db w' = command_eff '''' (HIncrBy (statsPrefix @ q) ''enqueued'' 1)
      (command_eff i (XAdd (streamPrefix @ q) [(''data'', cjson_encode E updated)])
        (command_eff '''' (ZRem (p @ q) m) (db w)))"
    by (auto simp: command_step_simps)
  then have "fresh_id (db w) (streamKey q) i"
    and db: "zsets (db w') = (zsets (db w))(p @ q := (zsets (db w) (p @ q))(m := None))"
      "streams (db w') = (streams (db w))(streamKey q :=
         streams (db w) (streamKey q) @ [(i, [(''data'', cjson_encode E updated)])])"
      "sets (db w') = sets (db w)" "pel (db w') = pel (db w)" "strings (db w') = strings (db w)"
      "delivered (db w') = delivered (db w)"
    by (simp_all add: db_simps fresh_id_def streamKey_def)
  moreover have "lua_pending E m = Some (cjson_encode E updated)" by (simp add: lua_pending_def t)
  moreover have "(zsets (db w) (p @ q))(m := None) = zsets (db w) (p @ q) |` (- {m})"
    by (auto simp: restrict_map_def fun_eq_iff)
  ultimately show ?thesis using n' by (auto simp: moved_def moved_entries_def)
qed

lemma lua_move_tasks_moved:
  assumes "go_fold (lua_move_task E (p @ q) q) ms n w = (Ret n', w')"
  shows "n' = n + int (length ms) \<and> moved E p ((\<lambda>q. [])(q := ms)) (db w) (db w')"
  using assms
proof (induction ms arbitrary: n w)
  case Nil
  then show ?case using moved_refl [of E p] by (simp add: fun_upd_idem)
next
  case (Cons m ms)
  then obtain n1 w1 where "lua_move_task E (p @ q) q m n w = (Ret n1, w1)"
    and rest: "go_fold (lua_move_task E (p @ q) q) ms n1 w1 = (Ret n', w')"
    by (auto simp: go_bind_Ret_iff)
  from lua_move_task_moved [OF this(1)] have "n1 = n + 1"
    and "moved E p ((\<lambda>q. [])(q := [m])) (db w) (db w1)" by blast+
  moreover from Cons.IH [OF rest] have "n' = n1 + int (length ms)"
    and "moved E p ((\<lambda>q. [])(q := ms)) (db w1) (db w')" by blast+
  moreover have "(\<lambda>x. ((\<lambda>q. [])(q := [m])) x @ ((\<lambda>q. [])(q := ms)) x) = (\<lambda>q. [])(q := m # ms)"
    by (auto simp: fun_eq_iff)
  ultimately show ?case using moved_trans [of E p "(\<lambda>q. [])(q := [m])" "db w" "db w1" "(\<lambda>q. [])(q := ms)" "db w'"]
    by (simp del: fun_upd_apply)
qed

lemma lua_move_queues_moved:
  assumes "go_fold (lua_move_queue E p hi limit) queues n w = (Ret n', w')" and "distinct queues"
  shows "\<exists>ms. n' = n + (\<Sum>q \<leftarrow> queues. int (length (ms q))) \<and> moved E p ms (db w) (db w') \<and>
    (\<forall>q. q \<notin> set queues \<longrightarrow> ms q = []) \<and> (\<forall>q \<in> set queues. zrange_ok (zsets (db w) (p @ q)) hi limit (ms q))"
  using assms
proof (induction queues arbitrary: n w)
  case Nil
  then show ?case using moved_refl [of E p "db w"] by (intro exI [of _ "\<lambda>q. []"]) simp
next
  case (Cons q queues)
  then obtain n1 w1 where "lua_move_queue E p hi limit q n w = (Ret n1, w1)"
    and rest: "go_fold (lua_move_queue E p hi limit) queues n1 w1 = (Ret n', w')"
    by (auto simp: go_bind_Ret_iff)
  then obtain tasks w0 where range: "lua_zrangebyscore E (p @ q) hi limit w = (Ret tasks, w0)"
    and "go_fold (lua_move_task E (p @ q) q) tasks n w0 = (Ret n1, w1)"
    by (auto simp: lua_move_queue_def go_bind_Ret_iff)
  from lua_move_tasks_moved [OF this(2)] lua_zrange_ok [OF range]
  have n1: "n1 = n + int (length tasks)" and m1: "moved E p ((\<lambda>q. [])(q := tasks)) (db w) (db w1)"
    and z: "zrange_ok (zsets (db w) (p @ q)) hi limit tasks" by simp_all
  from Cons.IH [OF rest] Cons.prems(2) obtain ms where n': "n' = n1 + (\<Sum>q \<leftarrow> queues. int (length (ms q)))"
    and m2: "moved E p ms (db w1) (db w')" and none: "\<forall>q. q \<notin> set queues \<longrightarrow> ms q = []"
    and zs: "\<forall>q \<in> set queues. zrange_ok (zsets (db w1) (p @ q)) hi limit (ms q)" by auto
  have q: "q \<notin> set queues" using Cons.prems(2) by simp
  let ?ms = "ms(q := tasks)"
  have "(\<lambda>x. ((\<lambda>q. [])(q := tasks)) x @ ms x) = ?ms" using none q by (auto simp: fun_eq_iff)
  with moved_trans [OF m1 m2] have "moved E p ?ms (db w) (db w')" by simp
  moreover have "zrange_ok (zsets (db w) (p @ q')) hi limit (?ms q')" if "q' \<in> set (q # queues)" for q'
  proof (cases "q' = q")
    case True
    with z show ?thesis by simp
  next
    case False
    with m1 have "zsets (db w1) (p @ q') = zsets (db w) (p @ q')" by (simp add: moved_def)
    with False zs that show ?thesis by auto
  qed
  moreover have "n' = n + (\<Sum>q \<leftarrow> q # queues. int (length (?ms q)))"
  proof -
    have "(\<Sum>x \<leftarrow> queues. int (length (?ms x))) = (\<Sum>x \<leftarrow> queues. int (length (ms x)))"
      using q by (intro arg_cong [where f = sum_list] map_cong) auto
    then show ?thesis using n' n1 by simp
  qed
  ultimately show ?case using none by (intro exI [of _ ?ms] conjI) (blast | simp)+
qed

lemma enqueue_script_moved:
  assumes "script_run E (enqueue_script E p hi limit) w = (Inr n, w')"
  shows "\<exists>ms queues. distinct queues \<and> set queues = sets (db w) queuesKey \<and>
    n = (\<Sum>q \<leftarrow> queues. int (length (ms q))) \<and> moved E p ms (db w) (db w') \<and>
    (\<forall>q. q \<notin> set queues \<longrightarrow> ms q = []) \<and> (\<forall>q \<in> set queues. zrange_ok (zsets (db w) (p @ q)) hi limit (ms q))"
proof -
  from script_ok [OF assms] obtain w1 w3 where w1: "db w1 = db w"
    and run: "enqueue_script E p hi limit w1 = (Ret n, w3)" and w3: "db w' = db w3" by blast
  then obtain queues w2 where members: "lua_smembers E queuesKey w1 = (Ret queues, w2)"
    and rest: "(if queues = [] then go_return 0 else go_fold (lua_move_queue E p hi limit) queues 0) w2 = (Ret n, w3)"
    by (auto simp: enqueue_script_def go_bind_Ret_iff)
  from lua_smembers_ok [OF members] have q: "db w2 = db w" "distinct queues" "set queues = sets (db w) queuesKey"
    using w1 by simp_all
  have "go_fold (lua_move_queue E p hi limit) queues 0 w2 = (Ret n, w3)"
    using rest by (cases "queues = []") simp_all
  from lua_move_queues_moved [OF this q(2)] q w3 show ?thesis by (metis add_0)
qed

end

section \<open>The task survives the scripts\<close>

text \<open>The task as the scripts put it into the stream.\<close>

definition pending_again :: "TaskProto \<Rightarrow> TaskProto" where
  "pending_again t = t\<lparr>Metadata := Some ((metadata_or_zero t)\<lparr>State := TaskStatePending\<rparr>)\<rparr>"

lemma lua_get_distinct: "distinct (map fst kvs) \<Longrightarrow> lua_get k kvs = map_of kvs k"
  unfolding lua_get_def by (metis (no_types, lifting) distinct_rev map_of_inject_set rev_map set_rev)

lemma lua_set_keys: "distinct (map fst kvs) \<Longrightarrow> distinct (map fst (lua_set k j kvs))"
  by (auto simp: lua_set_def distinct_map_filter)

lemma lua_set_same:
  assumes d: "distinct (map fst kvs)" and same: "json_same (JObj kvs) (JObj kvs')" and "json_same a b"
  shows "json_same (JObj (lua_set k a kvs)) (JObj (lua_set k b kvs'))"
proof -
  have d': "distinct (map fst kvs')" and s: "set (map canon_field kvs) = set (map canon_field kvs')"
    using json_same_JObj [OF d] same by blast+
  have "set (map canon_field (lua_set k j xs)) = {x \<in> set (map canon_field xs). fst x \<noteq> k} \<union> {(k, canon j)}" for j xs
    by (auto simp: lua_set_def canon_field_def)
  then have "set (map canon_field (lua_set k a kvs)) = set (map canon_field (lua_set k b kvs'))"
    using assms(3) s by (simp add: json_same_def)
  then show ?thesis
    using lua_set_keys [OF d'] by (simp only: json_same_JObj [OF lua_set_keys [OF d]])
qed

lemma json_depth_field: "x \<in> set kvs \<Longrightarrow> json_depth (snd x) < json_depth (JObj kvs)"
  by (auto simp: less_Suc_eq_le intro!: Max_ge) (metis (mono_tags) image_eqI old.prod.case prod.collapse)

text \<open>\<open>lua_set_pending\<close> does not see the order of fields either.\<close>

lemma lua_set_pending_same:
  assumes "lua_exact (JObj kvs)" and "json_same (JObj kvs) j'"
    and m: "map_of kvs ''metadata'' = None \<or> (\<exists>ms. map_of kvs ''metadata'' = Some (JObj ms))"
  shows "\<exists>r r'. lua_set_pending (JObj kvs) = Some r \<and> lua_set_pending j' = Some r' \<and> json_same r r'"
proof -
  from assms(2) obtain kvs' where j': "j' = JObj kvs'" by (blast dest: json_same_JObjD)
  from assms(1) have d: "distinct (map fst kvs)" by simp
  from json_same_JObj [OF d] assms(2) j' have d': "distinct (map fst kvs')" by blast
  have rel: "rel_option json_same (map_of kvs ''metadata'') (map_of kvs' ''metadata'')"
    by (rule json_same_field) (use assms(2) j' d in simp_all)
  show ?thesis
  proof (cases "map_of kvs ''metadata''")
    case None
    with rel have "map_of kvs' ''metadata'' = None" by simp
    with None show ?thesis
      using lua_set_same [OF d assms(2) [unfolded j'] json_same_refl]
      by (simp add: lua_set_pending_def j' lua_get_distinct [OF d] lua_get_distinct [OF d'])
  next
    case (Some x)
    with m obtain ms where x: "map_of kvs ''metadata'' = Some (JObj ms)" by auto
    with rel obtain ms' where x': "map_of kvs' ''metadata'' = Some (JObj ms')" and same: "json_same (JObj ms) (JObj ms')"
      by (auto simp: option_rel_Some1 dest: json_same_JObjD)
    have "\<forall>x \<in> set kvs. lua_exact (snd x)" using assms(1) unfolding lua_exact.simps(4) list_all_iff by auto
    with map_of_SomeD [OF x] have "lua_exact (JObj ms)" by (metis snd_conv)
    then have "distinct (map fst ms)" by simp
    from lua_set_same [OF this same json_same_refl] x x' show ?thesis
      using lua_set_same [OF d assms(2) [unfolded j']]
      by (simp add: lua_set_pending_def j' lua_get_distinct [OF d] lua_get_distinct [OF d'])
  qed
qed

text \<open>The fields of a task's text, and the text with the state set to pending.\<close>

definition task_head :: "TaskProto \<Rightarrow> (string \<times> json) list" where
  "task_head t = [(''id'', JStr (ID t)), (''type'', JStr (Type t))] @ payload_field ''payload'' (Payload t) @
     (case Options t of None \<Rightarrow> [] | Some r \<Rightarrow> [(''options'', json_options r)])"

definition metadata_field_of :: "TaskProto \<Rightarrow> (string \<times> json) list" where
  "metadata_field_of t = (case Metadata t of None \<Rightarrow> [] | Some m \<Rightarrow> [(''metadata'', json_metadata m)])"

lemma json_task_head: "json_task t = JObj (task_head t @ metadata_field_of t)"
  by (simp add: json_task_def task_head_def metadata_field_of_def)

lemma task_head_keys: "fst ` set (task_head t) \<subseteq> {''id'', ''type'', ''payload'', ''options''}"
  by (auto simp: task_head_def split: option.splits)

lemma task_head_distinct: "distinct (map fst (task_head t))"
  by (simp add: task_head_def payload_field_def split: option.split RawMessage.split)

lemma lua_set_fresh: "k \<notin> fst ` set xs \<Longrightarrow> lua_set k j (xs @ [(k, j')]) = xs @ [(k, j)]"
  "k \<notin> fst ` set xs \<Longrightarrow> lua_set k j xs = xs @ [(k, j)]"
  by (force simp: lua_set_def filter_id_conv)+

lemma metadata_state_last:
  "json_same (JObj (lua_set ''state'' (JStr ''pending'') (str_field ''state'' s @ metadata_rest m)))
     (json_metadata (m\<lparr>State := TaskStatePending\<rparr>))"
proof -
  have rest: "metadata_rest (m\<lparr>State := x\<rparr>) = metadata_rest m" for x by (simp add: metadata_rest_def)
  have new: "''state'' \<notin> fst ` set (metadata_rest m)" using metadata_rest_keys [of m] by auto
  have "lua_set ''state'' j (str_field ''state'' s @ metadata_rest m) = metadata_rest m @ [(''state'', j)]" for j
    using lua_set_fresh(2) [OF new] by (simp add: lua_set_def str_field_def)
  moreover have "distinct (map fst (metadata_rest m @ [(''state'', JStr ''pending'')]))"
    using new metadata_rest_distinct [of m] by simp
  ultimately show ?thesis
    using new metadata_rest_distinct [of m]
    by (simp add: json_metadata_rest rest str_field_def TaskStatePending_def json_same_JObj)
qed

lemma json_same_last: "json_same a b \<Longrightarrow> json_same (JObj (xs @ [(k, a)])) (JObj (xs @ [(k, b)]))"
  by (simp add: json_same_def canon_field_def)

lemma lua_set_pending_task:
  "\<exists>j. lua_set_pending (json_task t) = Some j \<and> json_same j (json_task (pending_again t))"
proof -
  have new: "''metadata'' \<notin> fst ` set (task_head t)" using task_head_keys [of t] by auto
  then have none: "lua_get ''metadata'' (task_head t) = None" by (simp add: lua_get_def map_of_eq_None_iff)
  have head: "task_head (pending_again t) = task_head t" by (simp add: task_head_def pending_again_def)
  have pend: "json_task (pending_again t) = JObj (task_head t @
      [(''metadata'', json_metadata ((metadata_or_zero t)\<lparr>State := TaskStatePending\<rparr>))])"
    by (simp add: json_task_head head) (simp add: metadata_field_of_def pending_again_def)
  show ?thesis
  proof (cases "Metadata t")
    case None
    have zero: "json_metadata (zero_metadata\<lparr>State := TaskStatePending\<rparr>) = JObj [(''state'', JStr ''pending'')]"
      by (simp add: json_metadata_def str_field_def time_field_def int_field_def zero_metadata_def TaskStatePending_def)
    have "lua_set_pending (json_task t) = Some (JObj (task_head t @ [(''metadata'', JObj [(''state'', JStr ''pending'')])]))"
      using None none lua_set_fresh(2) [OF new]
      by (simp add: json_task_head lua_set_pending_def metadata_field_of_def)
    with None show ?thesis by (simp add: pend zero metadata_or_zero_def)
  next
    case (Some m)
    let ?ms = "str_field ''state'' (State m) @ metadata_rest m"
    have "lua_set_pending (json_task t) = Some (JObj (task_head t @
        [(''metadata'', JObj (lua_set ''state'' (JStr ''pending'') ?ms))]))"
      using Some lua_set_fresh(1) [OF new]
      by (simp add: json_task_head lua_set_pending_def lua_get_def metadata_field_of_def json_metadata_rest)
    moreover have "json_same (JObj (task_head t @ [(''metadata'', JObj (lua_set ''state'' (JStr ''pending'') ?ms))]))
        (json_task (pending_again t))"
      unfolding pend using Some by (intro json_same_last) (simp add: metadata_or_zero_def metadata_state_last)
    ultimately show ?thesis by blast
  qed
qed

text \<open>The metadata of a task is always within what cjson keeps.\<close>

lemma lua_exact_int32 [simp]: "\<bar>sint (n :: i32)\<bar> < 100000000000000"
  using sint32_range [of n] by (simp add: abs_less_iff)

lemma lua_exact_JObj: "lua_exact (JObj kvs) \<longleftrightarrow> distinct (map fst kvs) \<and> (\<forall>x \<in> set kvs. lua_exact (snd x))"
  by (auto simp: list_all_iff)

lemma json_depth_JObj: "json_depth (JObj kvs) \<le> Suc n \<longleftrightarrow> (\<forall>x \<in> set kvs. json_depth (snd x) \<le> n)"
  by (auto simp: case_prod_unfold)

declare lua_exact.simps(4) [simp del] json_depth.simps(2) [simp del]

lemma lua_ok_metadata: "lua_exact (json_metadata m) \<and> json_depth (json_metadata m) \<le> 1"
proof -
  let ?fs = "str_field ''state'' (State m) @ metadata_rest m"
  have "''state'' \<notin> fst ` set (metadata_rest m)" using metadata_rest_keys [of m] by auto
  then have "distinct (map fst ?fs)" using metadata_rest_distinct [of m] by (auto simp: str_field_def)
  moreover have "\<forall>x \<in> set ?fs. lua_exact (snd x)"
    by (auto simp: metadata_rest_def)
  moreover have "\<forall>x \<in> set ?fs. json_depth (snd x) = 0" by (auto simp: metadata_rest_def)
  ultimately show ?thesis by (simp add: json_metadata_rest lua_exact_JObj json_depth_JObj del: map_append)
qed

lemma lua_ok_with_metadata:
  assumes "lua_ok (json_task t)"
  shows "lua_ok (json_task (t\<lparr>Metadata := Some m\<rparr>))"
proof -
  have head: "task_head (t\<lparr>Metadata := Some m\<rparr>) = task_head t" by (simp add: task_head_def)
  have new: "json_task (t\<lparr>Metadata := Some m\<rparr>) = JObj (task_head t @ [(''metadata'', json_metadata m)])"
    by (simp add: json_task_head head) (simp add: metadata_field_of_def)
  have "''metadata'' \<notin> fst ` set (task_head t)" using task_head_keys [of t] by auto
  then have "distinct (map fst (task_head t @ [(''metadata'', json_metadata m)]))"
    using task_head_distinct [of t] by simp
  moreover have "\<forall>x \<in> set (task_head t). lua_exact (snd x) \<and> json_depth (snd x) < 1000"
  proof
    fix x assume x: "x \<in> set (task_head t)"
    then have "json_depth (snd x) < json_depth (json_task t)"
      unfolding json_task_head by (intro json_depth_field) simp
    moreover from x assms have "lua_exact (snd x)"
      unfolding lua_ok_def json_task_head lua_exact_JObj by auto
    ultimately show "lua_exact (snd x) \<and> json_depth (snd x) < 1000" using assms by (simp add: lua_ok_def)
  qed
  ultimately show ?thesis
    using lua_ok_metadata [of m]
    by (auto simp: lua_ok_def new lua_exact_JObj json_depth_JObj [where n = 999, simplified] simp del: map_append)
qed

lemma lua_ok_pending_again: "lua_ok (json_task t) \<Longrightarrow> lua_ok (json_task (pending_again t))"
  unfolding pending_again_def by (rule lua_ok_with_metadata)

context cjson_codec
begin

lemma lua_pending_task:
  assumes "lua_ok (json_task t)"
  shows "\<exists>j. lua_pending E (JsonText (json_task t)) = Some (JsonText j) \<and> json_same j (json_task (pending_again t))"
proof -
  from decode_ok [OF assms] obtain j1 where j1: "cjson_decode E (JsonText (json_task t)) = Some j1"
    and same1: "json_same (json_task t) j1" by blast
  have m: "map_of (task_fields t) ''metadata'' = None \<or> (\<exists>ms. map_of (task_fields t) ''metadata'' = Some (JObj ms))"
  proof (cases "Metadata t")
    case None
    then have "''metadata'' \<notin> fst ` set (task_fields t)"
      by (auto simp: task_fields_def split: option.splits)
    then show ?thesis by (simp add: map_of_eq_None_iff)
  next
    case (Some m)
    then have "(''metadata'', json_metadata m) \<in> set (task_fields t)" by (simp add: task_fields_def)
    then have "map_of (task_fields t) ''metadata'' = Some (json_metadata m)"
      using task_fields_distinct by (simp add: map_of_eq_Some_iff)
    then show ?thesis by (simp add: json_metadata_def)
  qed
  from assms have "lua_exact (JObj (task_fields t))" by (simp only: lua_ok_def json_task_fields)
  from lua_set_pending_same [OF this same1 [unfolded json_task_fields] m] lua_set_pending_task [of t]
  obtain r where r: "lua_set_pending j1 = Some r" and same2: "json_same r (json_task (pending_again t))"
    unfolding json_task_fields [symmetric] by (metis json_same_sym json_same_trans option.inject)
  have "lua_ok r" using lua_ok_pending_again [OF assms] lua_ok_same [OF same2] by simp
  from encode_ok [OF this] obtain j where "cjson_encode E r = JsonText j" and "json_same r j" by blast
  moreover from this(2) same2 have "json_same j (json_task (pending_again t))"
    by (blast intro: json_same_sym json_same_trans)
  ultimately show ?thesis by (simp add: lua_pending_def j1 r)
qed

text \<open>The text in the stream reads back as the task in state pending, up to the order in the payload.\<close>

lemma lua_pending_reads:
  assumes "task_wf t" and "marshal_task t = Inr j0" and "lua_ok j0"
  shows "\<exists>b t'. lua_pending E (JsonText j0) = Some b \<and> unmarshal_task b = Inr t' \<and>
    canon_task t' = canon_task (norm_task (pending_again t))"
proof -
  from assms(2) have j0: "j0 = json_task t" and ok: "payload_valid t" "times_printable t" by (simp_all add: marshal_Inr)
  from lua_pending_task [of t] assms(3) j0 obtain j where b: "lua_pending E (JsonText (json_task t)) = Some (JsonText j)"
    and same: "json_same j (json_task (pending_again t))" by blast
  have wf: "task_wf (pending_again t)" using assms(1) by (simp add: pending_again_def task_wf_def)
  moreover have "payload_valid (pending_again t)" using ok(1) by (simp add: pending_again_def payload_valid_def)
  moreover have "times_printable (pending_again t)"
    using ok(2) zero_good by (auto simp: times_printable_def pending_again_def metadata_or_zero_def metadata_good_def
        split: option.splits)
  ultimately have "unmarshal_task (JsonText (json_task (pending_again t))) = Inr (norm_task (pending_again t))"
    by (simp add: decode_json_task)
  with unmarshal_same [OF json_same_sym [OF same] task_keys_ok_json [OF wf]]
  have "map_sum id canon_task (unmarshal_task (JsonText j)) = Inr (canon_task (norm_task (pending_again t)))"
    by (simp add: same_result_def)
  with b j0 show ?thesis by (cases "unmarshal_task (JsonText j)") auto
qed

end

end
