(* ===== verification/Scheduler_Properties.thy ===== *)
theory Scheduler_Properties
  imports Broker_Scheduler Broker_Properties
begin

text \<open>
  What the scheduler promises: due tasks, and only those, go from their set to the end of their queue's
  stream, lowest score first and at most a batch per queue, and nothing is lost or duplicated. A task
  that Lua's JSON library represents exactly arrives as it was, in state pending.
\<close>

lemma prefix_neq [simp]:
  "scheduledPrefix \<noteq> retryPrefix" "retryPrefix \<noteq> scheduledPrefix"
  "scheduledPrefix @ q \<noteq> retryPrefix @ q'" "retryPrefix @ q \<noteq> scheduledPrefix @ q'"
  "streamPrefix @ q \<noteq> dlqPrefix @ q'" "dlqPrefix @ q \<noteq> streamPrefix @ q'"
  by (simp_all add: prefix_defs)

lemma moved_scheduled_view:
  assumes "moved E scheduledPrefix ms d d'"
  shows "\<exists>es. moved_entries E (ms q) d (streamKey q) es \<and>
    view cfg d' q = (view cfg d q)\<lparr>ready := ready (view cfg d q) @ tasks_of es,
      later := later (view cfg d q) |` (- set (ms q))\<rparr>"
proof -
  from assms obtain es where "moved_entries E (ms q) d (streamKey q) es"
    and "streams d' (streamKey q) = streams d (streamKey q) @ es" unfolding moved_def by blast
  moreover from assms have "zsets d' (scheduledKey q) = zsets d (scheduledKey q) |` (- set (ms q))"
    "zsets d' (retryKey q) = zsets d (retryKey q)" "streams d' (dlqKey q) = streams d (dlqKey q)"
    "pel d' = pel d" "delivered d' = delivered d"
    by (simp_all add: moved_def scheduledKey_def retryKey_def streamKey_def dlqKey_def)
  ultimately show ?thesis by (auto simp: view_def)
qed

lemma moved_retry_view:
  assumes "moved E retryPrefix ms d d'"
  shows "\<exists>es. moved_entries E (ms q) d (streamKey q) es \<and>
    view cfg d' q = (view cfg d q)\<lparr>ready := ready (view cfg d q) @ tasks_of es,
      retrying := retrying (view cfg d q) |` (- set (ms q))\<rparr>"
proof -
  from assms obtain es where "moved_entries E (ms q) d (streamKey q) es"
    and "streams d' (streamKey q) = streams d (streamKey q) @ es" unfolding moved_def by blast
  moreover from assms have "zsets d' (retryKey q) = zsets d (retryKey q) |` (- set (ms q))"
    "zsets d' (scheduledKey q) = zsets d (scheduledKey q)" "streams d' (dlqKey q) = streams d (dlqKey q)"
    "pel d' = pel d" "delivered d' = delivered d"
    by (simp_all add: moved_def scheduledKey_def retryKey_def streamKey_def dlqKey_def)
  ultimately show ?thesis by (auto simp: view_def)
qed

context redis_server
begin

lemma EnqueueScheduled_moved:
  assumes "EnqueueScheduled E until limit w = (Ret (Inr n), w')"
  shows "\<exists>ms queues. distinct queues \<and> set queues = sets (db w) queuesKey \<and>
    n = (\<Sum>q \<leftarrow> queues. int (length (ms q))) \<and> moved E scheduledPrefix ms (db w) (db w') \<and>
    (\<forall>q. q \<notin> set queues \<longrightarrow> ms q = []) \<and>
    (\<forall>q \<in> set queues. zrange_ok (later (view cfg (db w) q)) (unix until) limit (ms q))"
proof -
  obtain r w1 where run: "script_run E (enqueueScheduledScript E (unix until) limit) w = (r, w1)"
    by (cases "script_run E (enqueueScheduledScript E (unix until) limit) w")
  with assms have "script_run E (enqueue_script E scheduledPrefix (unix until) limit) w = (Inr n, w')"
    by (cases r) (simp_all add: EnqueueScheduled_def go_bind_lift enqueueScheduledScript_def)
  from enqueue_script_moved [OF this] show ?thesis by (simp add: view_def scheduledKey_def)
qed

lemma EnqueueScheduled_result:
  assumes "EnqueueScheduled E until limit w = (Ret (Inr n), w')"
  shows "\<exists>ms queues. distinct queues \<and> set queues = sets (db w) queuesKey \<and>
    n = (\<Sum>q \<leftarrow> queues. int (length (ms q))) \<and> (\<forall>q. q \<notin> set queues \<longrightarrow> ms q = []) \<and>
    (\<forall>q \<in> set queues. zrange_ok (later (view cfg (db w) q)) (unix until) limit (ms q)) \<and>
    (\<forall>q. \<exists>es. map snd es = map (\<lambda>m. [(''data'', the (lua_pending E m))]) (ms q) \<and>
      view cfg (db w') q = (view cfg (db w) q)\<lparr>ready := ready (view cfg (db w) q) @ tasks_of es,
        later := later (view cfg (db w) q) |` (- set (ms q))\<rparr>)"
proof -
  from EnqueueScheduled_moved [OF assms, of cfg] obtain ms queues where "distinct queues" "set queues = sets (db w) queuesKey"
    "n = (\<Sum>q \<leftarrow> queues. int (length (ms q)))" "\<forall>q. q \<notin> set queues \<longrightarrow> ms q = []"
    "\<forall>q \<in> set queues. zrange_ok (later (view cfg (db w) q)) (unix until) limit (ms q)"
    and moved: "moved E scheduledPrefix ms (db w) (db w')" by blast
  moreover have "\<exists>es. map snd es = map (\<lambda>m. [(''data'', the (lua_pending E m))]) (ms q) \<and>
      view cfg (db w') q = (view cfg (db w) q)\<lparr>ready := ready (view cfg (db w) q) @ tasks_of es,
        later := later (view cfg (db w) q) |` (- set (ms q))\<rparr>" for q
    using moved_scheduled_view [OF moved, of q cfg] unfolding moved_entries_def by blast
  ultimately show ?thesis by (intro exI [of _ ms] exI [of _ queues]) simp
qed

lemma EnqueueRetry_moved:
  assumes "EnqueueRetry E until limit w = (Ret (Inr n), w')"
  shows "\<exists>ms queues. distinct queues \<and> set queues = sets (db w) queuesKey \<and>
    n = (\<Sum>q \<leftarrow> queues. int (length (ms q))) \<and> moved E retryPrefix ms (db w) (db w') \<and>
    (\<forall>q. q \<notin> set queues \<longrightarrow> ms q = []) \<and>
    (\<forall>q \<in> set queues. zrange_ok (retrying (view cfg (db w) q)) (unix until) limit (ms q))"
proof -
  obtain r w1 where run: "script_run E (enqueueRetryScript E (unix until) limit) w = (r, w1)"
    by (cases "script_run E (enqueueRetryScript E (unix until) limit) w")
  with assms have "script_run E (enqueue_script E retryPrefix (unix until) limit) w = (Inr n, w')"
    by (cases r) (simp_all add: EnqueueRetry_def go_bind_lift enqueueRetryScript_def)
  from enqueue_script_moved [OF this] show ?thesis by (simp add: view_def retryKey_def)
qed

lemma EnqueueRetry_result:
  assumes "EnqueueRetry E until limit w = (Ret (Inr n), w')"
  shows "\<exists>ms queues. distinct queues \<and> set queues = sets (db w) queuesKey \<and>
    n = (\<Sum>q \<leftarrow> queues. int (length (ms q))) \<and> (\<forall>q. q \<notin> set queues \<longrightarrow> ms q = []) \<and>
    (\<forall>q \<in> set queues. zrange_ok (retrying (view cfg (db w) q)) (unix until) limit (ms q)) \<and>
    (\<forall>q. \<exists>es. map snd es = map (\<lambda>m. [(''data'', the (lua_pending E m))]) (ms q) \<and>
      view cfg (db w') q = (view cfg (db w) q)\<lparr>ready := ready (view cfg (db w) q) @ tasks_of es,
        retrying := retrying (view cfg (db w) q) |` (- set (ms q))\<rparr>)"
proof -
  from EnqueueRetry_moved [OF assms, of cfg] obtain ms queues where "distinct queues" "set queues = sets (db w) queuesKey"
    "n = (\<Sum>q \<leftarrow> queues. int (length (ms q)))" "\<forall>q. q \<notin> set queues \<longrightarrow> ms q = []"
    "\<forall>q \<in> set queues. zrange_ok (retrying (view cfg (db w) q)) (unix until) limit (ms q)"
    and moved: "moved E retryPrefix ms (db w) (db w')" by blast
  moreover have "\<exists>es. map snd es = map (\<lambda>m. [(''data'', the (lua_pending E m))]) (ms q) \<and>
      view cfg (db w') q = (view cfg (db w) q)\<lparr>ready := ready (view cfg (db w) q) @ tasks_of es,
        retrying := retrying (view cfg (db w) q) |` (- set (ms q))\<rparr>" for q
    using moved_retry_view [OF moved, of q cfg] unfolding moved_entries_def by blast
  ultimately show ?thesis by (intro exI [of _ ms] exI [of _ queues]) simp
qed

end

text \<open>
  C17. When \<open>EnqueueScheduled\<close> succeeds, it has taken from every known queue's scheduled set members
  whose second has come (\<open>zrange_ok\<close>: lowest scores first, at most the limit, all of them if they fit)
  and appended each of them, marked pending, to that queue's stream in the same order; nothing else in
  any queue changed, and the result is how many it moved.
\<close>

theorem EnqueueScheduled_moves_due:
  assumes "redis_server E db clk" and "EnqueueScheduled E until limit w = (Ret (Inr n), w')"
  shows "\<exists>ms queues. distinct queues \<and> set queues = sets (db w) queuesKey \<and>
    n = (\<Sum>q \<leftarrow> queues. int (length (ms q))) \<and> (\<forall>q. q \<notin> set queues \<longrightarrow> ms q = []) \<and>
    (\<forall>q \<in> set queues. zrange_ok (later (view cfg (db w) q)) (unix until) limit (ms q)) \<and>
    (\<forall>q. \<exists>es. map snd es = map (\<lambda>m. [(''data'', the (lua_pending E m))]) (ms q) \<and>
      view cfg (db w') q = (view cfg (db w) q)\<lparr>ready := ready (view cfg (db w) q) @ tasks_of es,
        later := later (view cfg (db w) q) |` (- set (ms q))\<rparr>)"
  by (rule redis_server.EnqueueScheduled_result [OF assms])

definition due_mem :: mem where
  "due_mem = empty_mem\<lparr>m_sets := (\<lambda>_. [])(queuesKey := [''critical'']),
     m_zsets := (\<lambda>_. [])(scheduledKey ''critical'' := [(JsonText (json_task demo_task), 5)],
       retryKey ''critical'' := [(JsonText (json_task demo_task), 7)])\<rparr>"

lemma due_mem_simps [simp]: "m_faults due_mem = []" "m_sets due_mem queuesKey = [''critical'']"
  "m_zsets due_mem (scheduledPrefix @ ''critical'') = [(JsonText (json_task demo_task), 5)]"
  "m_zsets due_mem (retryPrefix @ ''critical'') = [(JsonText (json_task demo_task), 7)]"
  "due_mem\<lparr>m_faults := []\<rparr> = due_mem"
  by (simp_all add: due_mem_def empty_mem_def scheduledKey_def retryKey_def)

lemma demo_enqueue_script:
  assumes "p = scheduledPrefix \<or> p = retryPrefix"
  shows "\<exists>w'. mem_script (enqueue_script mem_env p 10 100) due_mem = (Inr 1, w')"
proof -
  obtain j where j: "lua_set_pending (json_task demo_task) = Some j" using lua_set_pending_task by blast
  from assms show ?thesis
    by (elim disjE) (simp_all add: mem_script_def enqueue_script_def lua_move_queue_def lua_move_task_def
        go_bind_def mem_zrange_def j)
qed

lemma demo_EnqueueScheduled: "EnqueueScheduled mem_env (10 * Second) 100 due_mem =
    (Ret (Inr 1), snd (EnqueueScheduled mem_env (10 * Second) 100 due_mem))"
proof -
  obtain w' where "mem_script (enqueueScheduledScript mem_env 10 100) due_mem = (Inr 1, w')"
    using demo_enqueue_script [of scheduledPrefix] by (auto simp: enqueueScheduledScript_def)
  then show ?thesis by (simp add: EnqueueScheduled_def go_bind_lift unix_def Second_def)
qed

lemma demo_EnqueueRetry: "EnqueueRetry mem_env (10 * Second) 100 due_mem =
    (Ret (Inr 1), snd (EnqueueRetry mem_env (10 * Second) 100 due_mem))"
proof -
  obtain w' where "mem_script (enqueueRetryScript mem_env 10 100) due_mem = (Inr 1, w')"
    using demo_enqueue_script [of retryPrefix] by (auto simp: enqueueRetryScript_def)
  then show ?thesis by (simp add: EnqueueRetry_def go_bind_lift unix_def Second_def)
qed

theorem EnqueueScheduled_moves_due_witness:
  "let d = mem_db due_mem; w' = snd (EnqueueScheduled mem_env (10 * Second) 100 due_mem);
       v = view DefaultConsumerConfig d in
   \<exists>ms queues. distinct queues \<and> set queues = sets d queuesKey \<and>
    1 = (\<Sum>q \<leftarrow> queues. int (length (ms q))) \<and> (\<forall>q. q \<notin> set queues \<longrightarrow> ms q = []) \<and>
    (\<forall>q \<in> set queues. zrange_ok (later (v q)) (unix (10 * Second)) 100 (ms q)) \<and>
    (\<forall>q. \<exists>es. map snd es = map (\<lambda>m. [(''data'', the (lua_pending mem_env m))]) (ms q) \<and>
      view DefaultConsumerConfig (mem_db w') q = (v q)\<lparr>ready := ready (v q) @ tasks_of es,
        later := later (v q) |` (- set (ms q))\<rparr>)"
  unfolding Let_def by (rule EnqueueScheduled_moves_due [OF mem.redis_server_axioms demo_EnqueueScheduled])

text \<open>
  \<open>EnqueueRetry\<close> does the same for the retry sets.
\<close>

theorem EnqueueRetry_moves_due:
  assumes "redis_server E db clk" and "EnqueueRetry E until limit w = (Ret (Inr n), w')"
  shows "\<exists>ms queues. distinct queues \<and> set queues = sets (db w) queuesKey \<and>
    n = (\<Sum>q \<leftarrow> queues. int (length (ms q))) \<and> (\<forall>q. q \<notin> set queues \<longrightarrow> ms q = []) \<and>
    (\<forall>q \<in> set queues. zrange_ok (retrying (view cfg (db w) q)) (unix until) limit (ms q)) \<and>
    (\<forall>q. \<exists>es. map snd es = map (\<lambda>m. [(''data'', the (lua_pending E m))]) (ms q) \<and>
      view cfg (db w') q = (view cfg (db w) q)\<lparr>ready := ready (view cfg (db w) q) @ tasks_of es,
        retrying := retrying (view cfg (db w) q) |` (- set (ms q))\<rparr>)"
  by (rule redis_server.EnqueueRetry_result [OF assms])

theorem EnqueueRetry_moves_due_witness:
  "let d = mem_db due_mem; w' = snd (EnqueueRetry mem_env (10 * Second) 100 due_mem);
       v = view DefaultConsumerConfig d in
   \<exists>ms queues. distinct queues \<and> set queues = sets d queuesKey \<and>
    1 = (\<Sum>q \<leftarrow> queues. int (length (ms q))) \<and> (\<forall>q. q \<notin> set queues \<longrightarrow> ms q = []) \<and>
    (\<forall>q \<in> set queues. zrange_ok (retrying (v q)) (unix (10 * Second)) 100 (ms q)) \<and>
    (\<forall>q. \<exists>es. map snd es = map (\<lambda>m. [(''data'', the (lua_pending mem_env m))]) (ms q) \<and>
      view DefaultConsumerConfig (mem_db w') q = (v q)\<lparr>ready := ready (v q) @ tasks_of es,
        retrying := retrying (v q) |` (- set (ms q))\<rparr>)"
  unfolding Let_def by (rule EnqueueRetry_moves_due [OF mem.redis_server_axioms demo_EnqueueRetry])

text \<open>
  C19. A stored task whose text cjson keeps (numbers of at most 14 digits, no empty array, no repeated
  name, at most 1000 levels) goes through the scripts as the same task in state pending: every field of
  the options and the metadata survives, and the payload but for the order of its fields.
\<close>

theorem scripts_keep_task:
  assumes "cjson_codec E" and "task_wf t" and "marshal_task t = Inr j" and "lua_ok j"
  shows "\<exists>b t'. Option.bind (cjson_decode E (JsonText j)) (\<lambda>x. map_option (cjson_encode E) (lua_set_pending x)) = Some b \<and>
    unmarshal_task b = Inr t' \<and> canon_task t' = canon_task (norm_task (pending_again t))"
  using cjson_codec.lua_pending_reads [OF assms] by (simp add: lua_pending_def)

lemma demo_lua_ok: "lua_ok (json_task demo_task)"
  by (simp add: lua_ok_def json_task_def demo_task_def json_options_def json_metadata_def str_field_def int_field_def
      time_field_def labels_field_def payload_field_def zero_options_def zero_metadata_def lua_exact_JObj
      json_depth_JObj [where n = 999, simplified] json_depth.simps dur_def TaskStatePending_def)

theorem scripts_keep_task_witness:
  "\<exists>b t'. Option.bind (cjson_decode mem_env (JsonText (json_task demo_task)))
      (\<lambda>x. map_option (cjson_encode mem_env) (lua_set_pending x)) = Some b \<and>
    unmarshal_task b = Inr t' \<and> canon_task t' = canon_task (norm_task (pending_again demo_task))"
  by (rule scripts_keep_task [OF mem.cjson_codec_axioms demo_task_wf demo_task_marshals demo_lua_ok])

section \<open>A member that cannot be decoded\<close>

text \<open>The scripts decode without \<open>pcall\<close>, so one such member stops them, and it stays where it is.\<close>

lemma go_fold_keeps:
  assumes "go_fold f xs s w = (r, w')" and "I w" and "\<And>x s w r w'. I w \<Longrightarrow> f x s w = (r, w') \<Longrightarrow> I w'"
  shows "I w'"
  using assms(1,2)
proof (induction xs arbitrary: s w)
  case Nil
  then show ?case by simp
next
  case (Cons x xs)
  obtain r1 w1 where 1: "f x s w = (r1, w1)" by (cases "f x s w")
  with assms(3) Cons.prems(2) have "I w1" by blast
  with 1 Cons show ?case by (cases r1) (auto simp: go_bind_def)
qed

lemma go_bind_keeps:
  assumes "go_bind m f w = (r, w')" and "I w" and "\<And>r w'. m w = (r, w') \<Longrightarrow> I w'"
    and "\<And>x w r w'. I w \<Longrightarrow> f x w = (r, w') \<Longrightarrow> I w'"
  shows "I w'"
proof -
  obtain r1 w1 where 1: "m w = (r1, w1)" by (cases "m w")
  with assms(3) have "I w1" by blast
  with 1 assms(1,4) show ?thesis by (cases r1) (auto simp: go_bind_def)
qed

definition stuck :: "'w env \<Rightarrow> ('w \<Rightarrow> redis_db) \<Rightarrow> redis_db \<Rightarrow> string \<Rightarrow> bulk \<Rightarrow> int \<Rightarrow> 'w \<Rightarrow> bool" where
  "stuck E db d k m at w \<longleftrightarrow> lua_pending E m = None \<and> zsets (db w) k m = Some at \<and>
     zsets (db w) k \<subseteq>\<^sub>m zsets d k \<and> sets (db w) = sets d"

context redis_server
begin

lemma lua_call_stuck:
  assumes "lua_call E c w = (r, w')" and "stuck E db d k m at w" and "c \<noteq> ZRem k m"
    and "\<And>s x. c \<noteq> ZAdd k s x" and "\<And>x. c \<noteq> Del x" and "\<And>x y. c \<noteq> SAdd x y"
  shows "stuck E db d k m at w'"
proof (cases r)
  case (Ret u)
  with lua_call_ok assms(1) have "command_step c (db w) (db w')" by blast
  with assms(2-6) show ?thesis
    by (cases c) (auto simp: stuck_def command_step_simps db_simps intro: map_le_trans [OF upd_None_map_le])
next
  case (Panic msg)
  with lua_call_fail assms(1,2) show ?thesis by (simp add: stuck_def)
qed

lemma move_task_stuck:
  assumes "lua_move_task E k' q x n w = (r, w')" and st: "stuck E db d k m at w"
  shows "stuck E db d k m at w'"
proof (cases "lua_pending E x")
  case None
  with assms show ?thesis
    by (auto simp: lua_move_task_def lua_pending_def go_panic_def split: option.splits)
next
  case (Some b)
  then obtain task updated where t: "cjson_decode E x = Some task" "lua_set_pending task = Some updated"
    by (auto simp: lua_pending_def bind_eq_Some_conv)
  from st Some have x: "x \<noteq> m" by (auto simp: stuck_def)
  from assms(1) have "go_bind (lua_call E (ZRem k' x)) (\<lambda>_.
      go_bind (lua_call E (XAdd (streamPrefix @ q) [(''data'', cjson_encode E updated)])) (\<lambda>_.
      go_bind (lua_call E (HIncrBy (statsPrefix @ q) ''enqueued'' 1)) (\<lambda>_. go_return (n + 1)))) w = (r, w')"
    by (simp add: lua_move_task_def t)
  then show ?thesis
  proof (rule go_bind_keeps [where I = "stuck E db d k m at"], goal_cases)
    case 1
    show ?case by (rule st)
  next
    case (2 r w')
    then show ?case using lua_call_stuck [OF _ st] x by simp
  next
    case (3 u w r w')
    then show ?case
      by (auto elim!: go_bind_keeps [where I = "stuck E db d k m at"] dest: lua_call_stuck)
  qed
qed

lemma script_stuck:
  assumes "enqueue_script E p hi limit w = (r, w')" and st: "stuck E db d k m at w"
  shows "stuck E db d k m at w'"
  using assms(1) unfolding enqueue_script_def
proof (rule go_bind_keeps [where I = "stuck E db d k m at"], goal_cases)
  case 1
  show ?case by (rule st)
next
  case (2 r w')
  then show ?case using lua_smembers_ok lua_smembers_fail st by (cases r) (auto simp: stuck_def)
next
  case (3 queues w r w')
  have queue: "stuck E db d k m at w'" if "lua_move_queue E p hi limit q n w = (r, w')" and "stuck E db d k m at w" for q n w r w'
    using that(1) unfolding lua_move_queue_def
  proof (rule go_bind_keeps [where I = "stuck E db d k m at"], goal_cases)
    case 1
    show ?case by (rule that(2))
  next
    case (2 r w')
    then show ?case using lua_zrange_ok lua_zrange_fail that(2) by (cases r) (auto simp: stuck_def)
  next
    case (3 tasks w r w')
    then show ?case by (auto elim: go_fold_keeps [where I = "stuck E db d k m at"] intro: move_task_stuck)
  qed
  from 3 show ?case
    by (cases "queues = []") (auto elim: go_fold_keeps [where I = "stuck E db d k m at"] intro: queue)
qed

text \<open>It is the first to be taken, so the script does not get past it.\<close>

lemma zrange_first:
  assumes "zrange_ok z hi limit ms" and "z m = Some at" and "at \<le> hi" and "limit \<noteq> 0"
    and "\<And>m' s. z m' = Some s \<Longrightarrow> m' \<noteq> m \<Longrightarrow> at < s"
  shows "m \<in> set ms"
proof (rule ccontr)
  assume m: "m \<notin> set ms"
  with assms(1-3) have "0 \<le> limit" "length ms = nat limit" unfolding zrange_ok_def by blast+
  with assms(4) obtain x where x: "x \<in> set ms" by (cases ms) auto
  with assms(1) obtain s where "z x = Some s" unfolding zrange_ok_def by blast
  moreover from this assms(1-3) m x have "s \<le> at" unfolding zrange_ok_def by fastforce
  ultimately show False using assms(5) [of x s] m x by fastforce
qed

lemma EnqueueScheduled_blocked:
  assumes "EnqueueScheduled E until limit w = (Ret r, w')" and q: "q \<in> sets (db w) queuesKey"
    and m: "later (view cfg (db w) q) m = Some at" "at \<le> unix until" "lua_pending E m = None"
    and "\<And>m' s. later (view cfg (db w) q) m' = Some s \<Longrightarrow> m' \<noteq> m \<Longrightarrow> at < s" and "limit \<noteq> 0"
  shows "(\<exists>e. r = Inl e) \<and> later (view cfg (db w') q) m = Some at \<and>
    later (view cfg (db w') q) \<subseteq>\<^sub>m later (view cfg (db w) q) \<and> q \<in> sets (db w') queuesKey"
proof (cases r)
  case (Inr n)
  from EnqueueScheduled_moved [OF assms(1) [unfolded Inr], of cfg] obtain ms queues where
    "set queues = sets (db w) queuesKey" "moved E scheduledPrefix ms (db w) (db w')"
    "\<forall>q \<in> set queues. zrange_ok (later (view cfg (db w) q)) (unix until) limit (ms q)" by blast
  with q have z: "zrange_ok (later (view cfg (db w) q)) (unix until) limit (ms q)" and some: "\<forall>m \<in> set (ms q). lua_pending E m \<noteq> None"
    by (blast, auto simp: moved_def)
  have "m \<in> set (ms q)" by (rule zrange_first [OF z m(1,2) assms(7)]) (rule assms(6))
  with some m(3) show ?thesis by blast
next
  case (Inl e)
  obtain rs w1 where "script_run E (enqueueScheduledScript E (unix until) limit) w = (rs, w1)"
    by (cases "script_run E (enqueueScheduledScript E (unix until) limit) w")
  with assms(1) Inl obtain e' where "script_run E (enqueueScheduledScript E (unix until) limit) w = (Inl e', w')"
    by (cases rs) (auto simp: EnqueueScheduled_def go_bind_lift)
  from script_fail [OF this] consider "db w' = db w"
    | v1 rr v2 where "db v1 = db w" "enqueueScheduledScript E (unix until) limit v1 = (rr, v2)" "db w' = db v2" by blast
  then have "stuck E db (db w) (scheduledKey q) m at w'"
  proof cases
    case 1
    with m show ?thesis by (simp add: stuck_def view_def)
  next
    case 2
    have "stuck E db (db w) (scheduledKey q) m at v1" using m 2(1) by (simp add: stuck_def view_def)
    from script_stuck [OF 2(2) [unfolded enqueueScheduledScript_def] this] 2(3) show ?thesis by (simp add: stuck_def)
  qed
  with Inl q show ?thesis by (simp add: stuck_def view_def)
qed

end

text \<open>
  C23. A member of a scheduled set that the Lua interpreter cannot decode or that is no table, once it is due
  before everything else in the set, makes every run of \<open>EnqueueScheduled\<close> that returns fail: the member
  stays, nothing is added to the set, and so the next run fails in the same way. One such member of one queue stops
  the scheduled tasks of that queue, and of the queues the script comes to after it.
\<close>

theorem undecodable_member_blocks:
  assumes "redis_server E db clk" and "EnqueueScheduled E until limit w = (Ret r, w')" and "limit \<noteq> 0"
    and "q \<in> sets (db w) queuesKey" and "later (view cfg (db w) q) m = Some at" and "at \<le> unix until"
    and "Option.bind (cjson_decode E m) lua_set_pending = None"
    and "\<forall>m' s. later (view cfg (db w) q) m' = Some s \<longrightarrow> m' \<noteq> m \<longrightarrow> at < s"
  shows "(\<exists>e. r = Inl e) \<and> later (view cfg (db w') q) m = Some at \<and>
    later (view cfg (db w') q) \<subseteq>\<^sub>m later (view cfg (db w) q) \<and> q \<in> sets (db w') queuesKey"
proof -
  have none: "lua_pending E m = None" using assms(7) by (cases "cjson_decode E m") (simp_all add: lua_pending_def)
  show ?thesis by (rule redis_server.EnqueueScheduled_blocked [OF assms(1,2,4,5,6) none _ assms(3)]) (use assms(8) in blast)
qed

definition poisoned_mem :: mem where
  "poisoned_mem = empty_mem\<lparr>m_sets := (\<lambda>_. [])(queuesKey := [''critical'']),
     m_zsets := (\<lambda>_. [])(scheduledKey ''critical'' := [(PlainText ''{'', 5), (JsonText (json_task demo_task), 6)])\<rparr>"

lemma poisoned_mem_simps [simp]: "m_faults poisoned_mem = []" "m_sets poisoned_mem queuesKey = [''critical'']"
  "m_zsets poisoned_mem (scheduledPrefix @ ''critical'') = [(PlainText ''{'', 5), (JsonText (json_task demo_task), 6)]"
  "poisoned_mem\<lparr>m_faults := []\<rparr> = poisoned_mem"
  by (simp_all add: poisoned_mem_def empty_mem_def scheduledKey_def)

lemma poisoned_run: "\<exists>e w'. EnqueueScheduled mem_env (10 * Second) 100 poisoned_mem = (Ret (Inl e), w')"
proof -
  have "\<exists>e w'. mem_script (enqueueScheduledScript mem_env 10 100) poisoned_mem = (Inl e, w')"
    by (simp add: mem_script_def enqueueScheduledScript_def enqueue_script_def lua_move_queue_def lua_move_task_def
        go_bind_def go_panic_def mem_zrange_def)
  then show ?thesis by (auto simp: EnqueueScheduled_def go_bind_lift unix_def Second_def)
qed

theorem undecodable_member_blocks_witness:
  "\<exists>e w'. EnqueueScheduled mem_env (10 * Second) 100 poisoned_mem = (Ret (Inl e), w') \<and>
     later (view DefaultConsumerConfig (mem_db w') ''critical'') (PlainText ''{'') = Some 5"
proof -
  obtain e w' where run: "EnqueueScheduled mem_env (10 * Second) 100 poisoned_mem = (Ret (Inl e), w')"
    using poisoned_run by blast
  have later: "later (view DefaultConsumerConfig (mem_db poisoned_mem) ''critical'') =
      map_of [(PlainText ''{'', 5), (JsonText (json_task demo_task), 6)]"
    by (simp add: view_def poisoned_mem_def mem_db_def)
  have known: "''critical'' \<in> sets (mem_db poisoned_mem) queuesKey" by (simp add: poisoned_mem_def mem_db_def)
  have first: "\<forall>m s. later (view DefaultConsumerConfig (mem_db poisoned_mem) ''critical'') m = Some s \<longrightarrow>
      m \<noteq> PlainText ''{'' \<longrightarrow> 5 < s" by (simp add: later)
  have due: "5 \<le> unix (10 * Second)" "(100 :: int) \<noteq> 0" by (simp_all add: unix_def Second_def)
  have member: "later (view DefaultConsumerConfig (mem_db poisoned_mem) ''critical'') (PlainText ''{'') = Some 5"
    and bad: "Option.bind (cjson_decode mem_env (PlainText ''{'')) lua_set_pending = None" by (simp_all add: later)
  have "later (view DefaultConsumerConfig (mem_db w') ''critical'') (PlainText ''{'') = Some 5"
    using undecodable_member_blocks [OF mem.redis_server_axioms run due(2) known member due(1) bad first] by blast
  with run show ?thesis by blast
qed

end
