(* ===== verification/Broker_Api.thy ===== *)
theory Broker_Api
  imports Broker_Properties Broker_Scheduler
begin

text \<open>
  The interface \<open>broker.Broker\<close> of \<^verbatim>\<open>broker/broker.go\<close>: a record of the operations that the client and
  the server call, its implementation on Redis, and the contract the callers rely on, stated over the
  view of the queues (\<open>queue_view\<close>) as the locale \<open>task_broker\<close>. \<open>Subscribe\<close>, which does not return,
  is in \<open>Broker_Consumer\<close>; \<open>Close\<close> is \<open>broker_Close\<close>. The store interface that client and server share
  is here too.
\<close>

section \<open>The broker\<close>

record 'w broker_ops =
  op_Publish :: "string \<Rightarrow> TaskProto \<Rightarrow> ('w, go_error option) go"
  op_Ack :: "string \<Rightarrow> string \<Rightarrow> ('w, go_error option) go"
  op_Schedule :: "TaskProto \<Rightarrow> time \<Rightarrow> ('w, go_error option) go"
  op_EnqueueScheduled :: "time \<Rightarrow> int \<Rightarrow> ('w, go_error + int) go"
  op_Retry :: "string \<Rightarrow> TaskProto \<Rightarrow> duration \<Rightarrow> ('w, go_error option \<times> TaskProto) go"
  op_EnqueueRetry :: "time \<Rightarrow> int \<Rightarrow> ('w, go_error + int) go"
  op_MoveToDLQ :: "string \<Rightarrow> TaskProto \<Rightarrow> go_error option \<Rightarrow> ('w, go_error option \<times> TaskProto) go"
  op_GetDLQ :: "string \<Rightarrow> int \<Rightarrow> ('w, go_error + TaskProto list) go"
  op_RetryFromDLQ :: "string \<Rightarrow> string \<Rightarrow> ('w, go_error option) go"
  op_SetProcessed :: "string \<Rightarrow> duration \<Rightarrow> ('w, go_error + bool) go"
  op_SetUnique :: "string \<Rightarrow> string \<Rightarrow> duration \<Rightarrow> ('w, go_error + bool) go"
  op_GetQueueInfo :: "string \<Rightarrow> ('w, go_error + QueueInfo) go"
  op_GetQueues :: "('w, go_error + string list) go"
  op_GetConsumerGroup :: string
  op_GetScheduledCount :: "string \<Rightarrow> ('w, go_error + int) go"
  op_GetRetryCount :: "string \<Rightarrow> ('w, go_error + int) go"
  op_GetConsumerGroups :: "string \<Rightarrow> ('w, go_error + ConsumerGroupInfo list) go"
  op_GetGroupConsumers :: "string \<Rightarrow> string \<Rightarrow> ('w, go_error + ConsumerInfo list) go"
  op_RemoveConsumer :: "string \<Rightarrow> string \<Rightarrow> string \<Rightarrow> ('w, go_error option) go"
  op_PurgeQueue :: "string \<Rightarrow> ('w, go_error option) go"
  op_PurgeDLQ :: "string \<Rightarrow> ('w, go_error option) go"
  op_Ping :: "('w, go_error option) go"

definition redis_broker :: "'w env \<Rightarrow> ConsumerConfig \<Rightarrow> 'w broker_ops" where
  "redis_broker E cfg = \<lparr>op_Publish = Publish E, op_Ack = Ack E cfg, op_Schedule = Schedule E,
     op_EnqueueScheduled = EnqueueScheduled E, op_Retry = Retry E cfg, op_EnqueueRetry = EnqueueRetry E,
     op_MoveToDLQ = MoveToDLQ E cfg, op_GetDLQ = GetDLQ E, op_RetryFromDLQ = RetryFromDLQ E,
     op_SetProcessed = SetProcessed E, op_SetUnique = SetUnique E, op_GetQueueInfo = GetQueueInfo E cfg,
     op_GetQueues = GetQueues E, op_GetConsumerGroup = GetConsumerGroup cfg,
     op_GetScheduledCount = GetScheduledCount E, op_GetRetryCount = GetRetryCount E,
     op_GetConsumerGroups = GetConsumerGroups E, op_GetGroupConsumers = GetGroupConsumers E,
     op_RemoveConsumer = RemoveConsumer E, op_PurgeQueue = PurgeQueue E, op_PurgeDLQ = PurgeDLQ E,
     op_Ping = broker_Ping E\<rparr>"

lemma redis_broker_sel [simp]:
  "op_Publish (redis_broker E cfg) = Publish E" "op_Ack (redis_broker E cfg) = Ack E cfg"
  "op_Schedule (redis_broker E cfg) = Schedule E" "op_EnqueueScheduled (redis_broker E cfg) = EnqueueScheduled E"
  "op_Retry (redis_broker E cfg) = Retry E cfg" "op_EnqueueRetry (redis_broker E cfg) = EnqueueRetry E"
  "op_MoveToDLQ (redis_broker E cfg) = MoveToDLQ E cfg" "op_GetDLQ (redis_broker E cfg) = GetDLQ E"
  "op_RetryFromDLQ (redis_broker E cfg) = RetryFromDLQ E" "op_SetProcessed (redis_broker E cfg) = SetProcessed E"
  "op_SetUnique (redis_broker E cfg) = SetUnique E" "op_GetQueueInfo (redis_broker E cfg) = GetQueueInfo E cfg"
  "op_GetQueues (redis_broker E cfg) = GetQueues E" "op_GetConsumerGroup (redis_broker E cfg) = GetConsumerGroup cfg"
  "op_GetConsumerGroups (redis_broker E cfg) = GetConsumerGroups E"
  "op_GetGroupConsumers (redis_broker E cfg) = GetGroupConsumers E"
  "op_RemoveConsumer (redis_broker E cfg) = RemoveConsumer E" "op_Ping (redis_broker E cfg) = broker_Ping E"
  "op_PurgeQueue (redis_broker E cfg) = PurgeQueue E" "op_PurgeDLQ (redis_broker E cfg) = PurgeDLQ E"
  by (simp_all add: redis_broker_def)

section \<open>The store, and changing a task in place\<close>

text \<open>The methods of the \<open>Store\<close> interface of \<^verbatim>\<open>strego_store.go\<close>, but for \<open>Close\<close>.\<close>

record 'w store_ops =
  st_CreateTask :: "TaskProto \<Rightarrow> ('w, go_error option) go"
  st_UpdateTask :: "TaskProto \<Rightarrow> ('w, go_error option) go"
  st_UpdateTaskState :: "string \<Rightarrow> string \<Rightarrow> string \<Rightarrow> ('w, go_error option) go"
  st_GetTask :: "string \<Rightarrow> ('w, go_error + TaskProto) go"

text \<open>The task with its metadata changed; dereferencing a nil pointer panics.\<close>

definition set_metadata :: "(TaskMetadata \<Rightarrow> TaskMetadata) \<Rightarrow> TaskProto \<Rightarrow> ('w, TaskProto) go" where
  "set_metadata f t = (case Metadata t of
      None \<Rightarrow> go_panic ''invalid memory address or nil pointer dereference''
    | Some m \<Rightarrow> go_return (t\<lparr>Metadata := Some (f m)\<rparr>))"

section \<open>The contract\<close>

text \<open>
  \<open>qv\<close> is the view of the queues in a world, \<open>bnow\<close> the time the broker reads. An operation that
  returns without an error has done its one thing to the view; those on keys leave the view alone; none
  of them panics.
\<close>

locale task_broker =
  fixes B :: "'w broker_ops" and qv :: "'w \<Rightarrow> string \<Rightarrow> queue_view" and bnow :: "'w \<Rightarrow> time"
  assumes publish_ok: "op_Publish B q t w = (Ret None, w') \<Longrightarrow> task_wf t \<Longrightarrow>
      \<exists>i. qv w' = (qv w)(q := put_ready i (norm_task t) (qv w q))"
    and schedule_ok: "op_Schedule B t at w = (Ret None, w') \<Longrightarrow>
      \<exists>j. marshal_task t = Inr j \<and>
        qv w' = (qv w)(task_Queue t := put_later (JsonText j) (unix at) (qv w (task_Queue t)))"
    and ack_ok: "op_Ack B q i w = (Ret None, w') \<Longrightarrow> qv w' = (qv w)(q := drop_message i (qv w q))"
    and retry_ok: "op_Retry B q t delay w = (Ret (None, t'), w') \<Longrightarrow>
      \<exists>j. marshal_task (retried t) = Inr j \<and>
        qv w' = (qv w)(q := put_retry (JsonText j) (unix (bnow w + sint delay))
          (take_off (StreamMsgID (metadata_or_zero t)) (qv w q)))"
    and retry_task: "op_Retry B q t delay w = (Ret (err, t'), w') \<Longrightarrow> t' = retried t"
    and dlq_ok: "op_MoveToDLQ B q t e w = (Ret (None, t'), w') \<Longrightarrow> task_wf t \<Longrightarrow>
      \<exists>i. qv w' = (qv w)(q := put_dead i (norm_task (buried e t))
          (take_off (StreamMsgID (metadata_or_zero t)) (qv w q)))"
    and dlq_task: "op_MoveToDLQ B q t e w = (Ret (err, t'), w') \<Longrightarrow> t' = buried e t"
    and processed_view: "op_SetProcessed B tid ttl w = (r, w') \<Longrightarrow> qv w' = qv w"
    and unique_view: "op_SetUnique B key tid ttl w = (ru, w') \<Longrightarrow> qv w' = qv w"
    and no_panic: "op_Publish B q t w \<noteq> (Panic msg, w')" "op_Schedule B t at w \<noteq> (Panic msg, w')"
      "op_Ack B q i w \<noteq> (Panic msg, w')" "op_Retry B q t delay w \<noteq> (Panic msg, w')"
      "op_MoveToDLQ B q t e w \<noteq> (Panic msg, w')" "op_SetProcessed B tid ttl w \<noteq> (Panic msg, w')"
      "op_SetUnique B key tid ttl w \<noteq> (Panic msg, w')"

lemma view_set_nx: "set_nx_eff k v ttl now d b d' \<Longrightarrow> view cfg d' = view cfg d"
  by (auto simp: set_nx_eff_def view_def fun_eq_iff split: if_splits)


context redis_server
begin

lemma set_nx_view: "set_nx E k v ttl w = (r, w') \<Longrightarrow> view cfg (db w') = view cfg (db w)"
  using set_nx_ok [of k v ttl w _ w'] set_nx_fail [of k v ttl w _ w'] view_set_nx
  by (cases r) metis+

lemma redis_no_panic:
  "Publish E q t w \<noteq> (Panic msg, w')" "Schedule E t at w \<noteq> (Panic msg, w')"
  "Ack E cfg q i w \<noteq> (Panic msg, w')" "Retry E cfg q t delay w \<noteq> (Panic msg, w')"
  "MoveToDLQ E cfg q t e w \<noteq> (Panic msg, w')" "SetProcessed E tid ttl w \<noteq> (Panic msg, w')"
  "SetUnique E key tid ttl w \<noteq> (Panic msg, w')"
  by (auto simp: Publish_def Schedule_def Ack_def Retry_def MoveToDLQ_def SetProcessed_def SetUnique_def Let_def
      go_lift_iff go_bind_Panic_iff split: sum.splits)

end

text \<open>Every Redis server gives a broker that keeps the contract.\<close>

sublocale redis_server \<subseteq> broker: task_broker "redis_broker E cfg" "\<lambda>w. view cfg (db w)" "\<lambda>w. fst (clock E w)" for cfg
proof (unfold_locales, goal_cases)
  case (1 q t w w')
  then show ?case using Publish_refines [of t q w w' cfg] by auto
next
  case (2 t at w w')
  then show ?case using Schedule_refines [of t at w w' cfg] by auto
next
  case (3 q i w w')
  then show ?case using Ack_refines by simp
next
  case (4 q t delay w t' w')
  then show ?case using Retry_refines by simp
next
  case (5 q t delay w err t' w')
  then show ?case using Retry_result by simp
next
  case (6 q t e w t' w')
  then show ?case using MoveToDLQ_refines by simp
next
  case (7 q t e w err t' w')
  then show ?case using MoveToDLQ_result by simp
next
  case (8 tid ttl w r w')
  then show ?case by (auto simp: SetProcessed_def go_lift_iff intro: set_nx_view)
next
  case (9 key tid ttl w r w')
  then show ?case by (auto simp: SetUnique_def go_lift_iff intro: set_nx_view)
qed (simp_all add: redis_no_panic)

interpretation mem_broker: task_broker "redis_broker mem_env DefaultConsumerConfig"
  "\<lambda>w. view DefaultConsumerConfig (mem_db w)" "\<lambda>w. fst (clock mem_env w)"
  by (rule mem.broker.task_broker_axioms)

text \<open>A store whose updates always fail, for the concrete runs.\<close>

definition demo_store :: "mem store_ops" where
  "demo_store = \<lparr>st_CreateTask = (\<lambda>t. go_return None), st_UpdateTask = (\<lambda>t. go_return (Some (ErrText ''down''))),
     st_UpdateTaskState = (\<lambda>tid st e. go_return None), st_GetTask = (\<lambda>tid. go_return (Inl ErrTaskNotFound))\<rparr>"

end
