(* ===== verification/Server_Core.thy ===== *)
theory Server_Core
  imports Broker_Api Serve_Mux
begin

text \<open>
  \<^verbatim>\<open>server.go\<close>: the server's configuration and options, the processing of one task with its idempotency
  check, panic recovery and failure handling, the retry backoff, a tick of the scheduler and of the
  consumer cleanup. The server calls the broker and the store through their interfaces, the handlers of
  the application through the mux and the clock \<open>now\<close>; these are parameters. A handler may change the
  task behind its pointer, so it returns the task too, also when it panics. Log output, and the clock
  readings that only the log uses, are not modelled. Start and Shutdown are in \<open>Server_Lifecycle\<close>.
\<close>

section \<open>Handlers\<close>

text \<open>\<open>Handler.ProcessTask\<close> under a context with the given timeout.\<close>

type_synonym 'w Handler = "duration option \<Rightarrow> TaskProto \<Rightarrow> 'w \<Rightarrow> (go_error option outcome \<times> TaskProto) \<times> 'w"

section \<open>Configuration\<close>

definition DefaultConcurrency :: int where "DefaultConcurrency = 10"
definition DefaultShutdownTimeout :: duration where "DefaultShutdownTimeout = dur (10 * Second)"
definition DefaultProcessedTTL :: duration where "DefaultProcessedTTL = dur (24 * Hour)"
definition DefaultSchedulerInterval :: duration where "DefaultSchedulerInterval = dur (5 * Second)"
definition DefaultSchedulerBatchSize :: int where "DefaultSchedulerBatchSize = 100"
definition DefaultRetryBaseDuration :: duration where "DefaultRetryBaseDuration = dur (1 * Second)"
definition DefaultRetryMaxDuration :: duration where "DefaultRetryMaxDuration = dur (10 * Minute)"

record 'w Server =
  srv_broker :: "'w broker_ops"
  srv_store :: "'w store_ops option"
  srv_mux :: "'w Handler ServeMux"
  srv_workerID :: string
  srv_concurrency :: int
  srv_queues :: "string list"
  srv_shutdownTimeout :: duration
  srv_processedTTL :: duration
  srv_schedulerInterval :: duration
  srv_schedulerBatchSize :: int
  srv_retryBaseDuration :: duration
  srv_retryMaxDuration :: duration
  srv_enableConsumerCleanup :: bool
  srv_cleanupInterval :: duration
  srv_cleanupIdleThreshold :: duration

type_synonym 'w ServerOption = "'w Server \<Rightarrow> 'w Server"

definition WithConcurrency :: "int \<Rightarrow> 'w ServerOption" where
  "WithConcurrency n s = (if n > 0 then s\<lparr>srv_concurrency := n\<rparr> else s)"

definition WithQueues :: "string list \<Rightarrow> 'w ServerOption" where
  "WithQueues queues s = s\<lparr>srv_queues := queues\<rparr>"

definition WithServerStore :: "'w store_ops option \<Rightarrow> 'w ServerOption" where
  "WithServerStore st s = s\<lparr>srv_store := st\<rparr>"

definition WithShutdownTimeout :: "duration \<Rightarrow> 'w ServerOption" where
  "WithShutdownTimeout d s = s\<lparr>srv_shutdownTimeout := d\<rparr>"

definition WithConsumerCleanup :: "duration \<Rightarrow> duration \<Rightarrow> 'w ServerOption" where
  "WithConsumerCleanup interval threshold s =
     s\<lparr>srv_enableConsumerCleanup := True, srv_cleanupInterval := interval, srv_cleanupIdleThreshold := threshold\<rparr>"

definition WithProcessedTTL :: "duration \<Rightarrow> 'w ServerOption" where
  "WithProcessedTTL d s = s\<lparr>srv_processedTTL := d\<rparr>"

definition WithRetryConfig :: "duration \<Rightarrow> duration \<Rightarrow> 'w ServerOption" where
  "WithRetryConfig base mx s = s\<lparr>srv_retryBaseDuration := base, srv_retryMaxDuration := mx\<rparr>"

definition WithSchedulerInterval :: "duration \<Rightarrow> 'w ServerOption" where
  "WithSchedulerInterval d s = (if sint d > 0 then s\<lparr>srv_schedulerInterval := d\<rparr> else s)"

definition WithSchedulerBatchSize :: "int \<Rightarrow> 'w ServerOption" where
  "WithSchedulerBatchSize n s = (if n > 0 then s\<lparr>srv_schedulerBatchSize := n\<rparr> else s)"

definition NewServer :: "string \<Rightarrow> string \<Rightarrow> 'w broker_ops \<Rightarrow> 'w ServerOption list \<Rightarrow> 'w Server" where
  "NewServer hostname pid b opts = fold (\<lambda>opt s. opt s) opts
     \<lparr>srv_broker = b, srv_store = None, srv_mux = NewServeMux, srv_workerID = hostname @ ''-'' @ pid,
      srv_concurrency = DefaultConcurrency, srv_queues = [''default''],
      srv_shutdownTimeout = DefaultShutdownTimeout, srv_processedTTL = DefaultProcessedTTL,
      srv_schedulerInterval = DefaultSchedulerInterval, srv_schedulerBatchSize = DefaultSchedulerBatchSize,
      srv_retryBaseDuration = DefaultRetryBaseDuration, srv_retryMaxDuration = DefaultRetryMaxDuration,
      srv_enableConsumerCleanup = False, srv_cleanupInterval = 0, srv_cleanupIdleThreshold = 0\<rparr>"

definition server_Handle :: "string \<Rightarrow> 'w Handler option \<Rightarrow> 'w Server \<Rightarrow> 'w Server outcome" where
  "server_Handle taskType handler s = (case mux_Handle taskType handler (srv_mux s) of
      Panic msg \<Rightarrow> Panic msg
    | Ret m \<Rightarrow> Ret (s\<lparr>srv_mux := m\<rparr>))"

section \<open>Backoff\<close>

text \<open>
  \<open>time.Duration(math.Pow(2, float64(e)))\<close>: exact up to \<open>2^62\<close>, 0 for a negative exponent. Beyond the
  range of \<open>int64\<close> Go leaves the conversion to the platform, so its result \<open>big\<close> is a parameter.
\<close>

definition pow2_duration :: "i64 \<Rightarrow> int \<Rightarrow> duration" where
  "pow2_duration big e = (if e < 0 then 0 else if e < 63 then word_of_int (2 ^ nat e) else big)"

definition calculateBackoff :: "i64 \<Rightarrow> 'w Server \<Rightarrow> int \<Rightarrow> duration" where
  "calculateBackoff big s attempt =
     (let delay = srv_retryBaseDuration s * pow2_duration big (attempt - 1)
      in if sint delay > sint (srv_retryMaxDuration s) then srv_retryMaxDuration s else delay)"

section \<open>Processing a task\<close>

text \<open>A failed update of the store is logged only; without a store nothing happens.\<close>

definition update_store :: "'w Server \<Rightarrow> TaskProto \<Rightarrow> ('w, unit) go" where
  "update_store s t = (case srv_store s of
      None \<Rightarrow> go_return ()
    | Some st \<Rightarrow> go_bind (st_UpdateTask st t) (\<lambda>err. go_return ()))"

definition failed_once :: "go_error \<Rightarrow> TaskProto \<Rightarrow> TaskProto" where
  "failed_once taskErr t =
     (let m = metadata_or_zero t
      in t\<lparr>Metadata := Some (m\<lparr>RetryCount := RetryCount m + 1, LastError := error_text taskErr\<rparr>)\<rparr>)"

definition max_retry :: "TaskProto \<Rightarrow> i32" where
  "max_retry t = (case Options t of
      None \<Rightarrow> 3
    | Some r \<Rightarrow> if sint (MaxRetry r) > 0 then MaxRetry r else 3)"

definition handleFailure ::
  "('w \<Rightarrow> time \<times> 'w) \<Rightarrow> i64 \<Rightarrow> 'w Server \<Rightarrow> TaskProto \<Rightarrow> go_error \<Rightarrow> ('w, go_error option) go" where
  "handleFailure now big s t taskErr =
     (let t = failed_once taskErr t; queue = task_Queue t; m = metadata_or_zero t
      in if sint (RetryCount m) \<ge> sint (max_retry t) then
           go_bind (op_MoveToDLQ (srv_broker s) queue t (Some taskErr)) (\<lambda>(err, t). case err of
               Some e \<Rightarrow> go_return (Some e)
             | None \<Rightarrow>
                 if srv_store s = None then go_return (Some ErrTaskDead)
                 else go_bind (go_lift now) (\<lambda>at.
                      go_bind (set_metadata (\<lambda>m. m\<lparr>State := TaskStateDead, CompletedAt := Some at\<rparr>) t) (\<lambda>t.
                      go_bind (update_store s t) (\<lambda>_. go_return (Some ErrTaskDead)))))
         else
           go_bind (op_Retry (srv_broker s) queue t (calculateBackoff big s (sint (RetryCount m)))) (\<lambda>(err, t). case err of
               Some e \<Rightarrow> go_return (Some e)
             | None \<Rightarrow>
                 if srv_store s = None then go_return (Some ErrTaskRetried)
                 else go_bind (set_metadata (\<lambda>m. m\<lparr>State := TaskStateRetry\<rparr>) t) (\<lambda>t.
                      go_bind (update_store s t) (\<lambda>_. go_return (Some ErrTaskRetried)))))"

text \<open>The idempotency check, on the first attempt only; an error lets the task through.\<close>

definition should_process :: "'w Server \<Rightarrow> TaskProto \<Rightarrow> ('w, bool) go" where
  "should_process s t =
     (if task_RetryCount t = 0 then
        go_bind (op_SetProcessed (srv_broker s) (ID t) (srv_processedTTL s)) (\<lambda>r. case r of
            Inl err \<Rightarrow> go_return True
          | Inr ok \<Rightarrow> go_return ok)
      else go_return True)"

definition handler_timeout :: "TaskProto \<Rightarrow> duration option" where
  "handler_timeout t = (case Options t of
      None \<Rightarrow> None
    | Some r \<Rightarrow> if sint (Timeout r) > 0 then Some (Timeout r) else None)"

text \<open>The call of the handler under \<open>recover\<close>: a panic becomes an error.\<close>

definition run_handler :: "'w Handler \<Rightarrow> TaskProto \<Rightarrow> ('w, go_error option \<times> TaskProto) go" where
  "run_handler h t = go_bind (go_lift (h (handler_timeout t) t)) (\<lambda>(res, t'). case res of
      Ret err \<Rightarrow> go_return (err, t')
    | Panic msg \<Rightarrow> go_return (Some (ErrText (''panic: '' @ msg)), t'))"

definition active :: "'w Server \<Rightarrow> time \<Rightarrow> TaskMetadata \<Rightarrow> TaskMetadata" where
  "active s at m = m\<lparr>State := TaskStateActive, StartedAt := Some at, WorkerID := srv_workerID s,
     ConsumerGroup := op_GetConsumerGroup (srv_broker s)\<rparr>"

definition processTask ::
  "('w \<Rightarrow> time \<times> 'w) \<Rightarrow> i64 \<Rightarrow> 'w Server \<Rightarrow> TaskProto \<Rightarrow> ('w, go_error option) go" where
  "processTask now big s t =
     go_bind (should_process s t) (\<lambda>ok. if \<not> ok then go_return None else
     go_bind (go_lift now) (\<lambda>at.
     go_bind (set_metadata (active s at) t) (\<lambda>t.
     go_bind (update_store s t) (\<lambda>_. case mux_Handler (srv_mux s) (Type t) of
         None \<Rightarrow> handleFailure now big s t (ErrText (''no handler for task type: '' @ Type t))
       | Some h \<Rightarrow>
           go_bind (run_handler h t) (\<lambda>(err, t). case err of
               Some e \<Rightarrow> handleFailure now big s t e
             | None \<Rightarrow>
                 go_bind (go_lift now) (\<lambda>done_at.
                 go_bind (set_metadata (\<lambda>m. m\<lparr>State := TaskStateCompleted, CompletedAt := Some done_at\<rparr>) t) (\<lambda>t.
                 go_bind (update_store s t) (\<lambda>_. go_return None))))))))"

section \<open>The scheduler and the cleanup\<close>

definition processScheduled :: "('w \<Rightarrow> time \<times> 'w) \<Rightarrow> 'w Server \<Rightarrow> ('w, unit) go" where
  "processScheduled now s = go_bind (go_lift now) (\<lambda>t.
     go_bind (op_EnqueueScheduled (srv_broker s) t (srv_schedulerBatchSize s)) (\<lambda>r. go_return ()))"

definition processRetries :: "('w \<Rightarrow> time \<times> 'w) \<Rightarrow> 'w Server \<Rightarrow> ('w, unit) go" where
  "processRetries now s = go_bind (go_lift now) (\<lambda>t.
     go_bind (op_EnqueueRetry (srv_broker s) t (srv_schedulerBatchSize s)) (\<lambda>r. go_return ()))"

text \<open>One tick of \<open>runScheduler\<close>.\<close>

definition scheduler_tick :: "('w \<Rightarrow> time \<times> 'w) \<Rightarrow> 'w Server \<Rightarrow> ('w, unit) go" where
  "scheduler_tick now s = go_bind (processScheduled now s) (\<lambda>_. processRetries now s)"

text \<open>The interval and the threshold that \<open>runConsumerCleanup\<close> uses.\<close>

definition cleanup_interval :: "'w Server \<Rightarrow> duration" where
  "cleanup_interval s = (if srv_cleanupInterval s = 0 then dur (10 * Minute) else srv_cleanupInterval s)"

definition cleanup_threshold :: "'w Server \<Rightarrow> duration" where
  "cleanup_threshold s = (if srv_cleanupIdleThreshold s = 0 then dur (60 * Minute) else srv_cleanupIdleThreshold s)"

definition should_cleanup :: "'w Server \<Rightarrow> duration \<Rightarrow> ConsumerInfo \<Rightarrow> bool" where
  "should_cleanup s idleThreshold c \<longleftrightarrow>
     ci_Name c \<noteq> srv_workerID s \<and> ci_Pending c = 0 \<and> ci_Idle c > go_div (sint idleThreshold) Millisecond"

definition cleanup_consumer ::
  "'w Server \<Rightarrow> duration \<Rightarrow> string \<Rightarrow> string \<Rightarrow> ConsumerInfo \<Rightarrow> int \<Rightarrow> ('w, int) go" where
  "cleanup_consumer s idleThreshold queue grp c removed =
     (if should_cleanup s idleThreshold c then
        go_bind (op_RemoveConsumer (srv_broker s) queue grp (ci_Name c)) (\<lambda>err. case err of
            Some e \<Rightarrow> go_return removed
          | None \<Rightarrow> go_return (removed + 1))
      else go_return removed)"

definition cleanup_group ::
  "'w Server \<Rightarrow> duration \<Rightarrow> string \<Rightarrow> string \<Rightarrow> int \<Rightarrow> ('w, int) go" where
  "cleanup_group s idleThreshold queue grp removed =
     go_bind (op_GetGroupConsumers (srv_broker s) queue grp) (\<lambda>r. case r of
         Inl err \<Rightarrow> go_return removed
       | Inr consumers \<Rightarrow> go_fold (cleanup_consumer s idleThreshold queue grp) consumers removed)"

text \<open>The value is \<open>totalRemoved\<close>, which the code only logs.\<close>

definition cleanupDeadConsumers :: "'w Server \<Rightarrow> duration \<Rightarrow> ('w, int) go" where
  "cleanupDeadConsumers s idleThreshold = go_fold (\<lambda>queue removed.
     go_bind (op_GetConsumerGroups (srv_broker s) queue) (\<lambda>r. case r of
         Inl err \<Rightarrow> go_return removed
       | Inr groups \<Rightarrow>
           go_fold (\<lambda>grp n. cleanup_group s idleThreshold queue (cg_Name grp) n) groups removed))
     (srv_queues s) 0"

end
