(* ===== verification/Server_Spec.thy ===== *)
theory Server_Spec
  imports Server_Core Broker_Consumer
begin

text \<open>
  The server as a client of the broker's contract: what a failed task becomes, what processing a task
  does to the queues, and, when every service answers, that processing always ends with the task
  settled. \<open>task_server\<close> asks of the clock and of the store only that they leave the queues alone;
  \<open>steady_server\<close> asks besides that, in the worlds \<open>I\<close>, the broker answers, and that the application's
  handlers return (or panic) and leave the queues and their task alone.
\<close>

locale task_server = task_broker "srv_broker S" qv bnow
  for S :: "'w Server" and qv :: "'w \<Rightarrow> string \<Rightarrow> queue_view" and bnow :: "'w \<Rightarrow> time" +
  fixes now :: "'w \<Rightarrow> time \<times> 'w"
  assumes now_view: "now w = (at, w') \<Longrightarrow> qv w' = qv w"
    and store_view: "srv_store S = Some st \<Longrightarrow> st_UpdateTask st t w = (sr, w') \<Longrightarrow> qv w' = qv w \<and> (\<exists>err. sr = Ret err)"

section \<open>A task after a failure\<close>

definition gives_up :: "TaskProto \<Rightarrow> bool" where
  "gives_up t \<longleftrightarrow> sint (RetryCount (metadata_or_zero t) + 1) \<ge> sint (max_retry t)"

lemma metadata_or_zero_Some [simp]: "metadata_or_zero (t\<lparr>Metadata := Some m\<rparr>) = m"
  by (simp add: metadata_or_zero_def)

lemma failed_once_sel [simp]:
  "ID (failed_once e t) = ID t" "Type (failed_once e t) = Type t" "Payload (failed_once e t) = Payload t"
  "Options (failed_once e t) = Options t" "max_retry (failed_once e t) = max_retry t"
  "task_Queue (failed_once e t) = task_Queue t" "task_wf (failed_once e t) = task_wf t"
  "RetryCount (metadata_or_zero (failed_once e t)) = RetryCount (metadata_or_zero t) + 1"
  "StreamMsgID (metadata_or_zero (failed_once e t)) = StreamMsgID (metadata_or_zero t)"
  "LastError (metadata_or_zero (failed_once e t)) = error_text e"
  by (simp_all add: failed_once_def Let_def max_retry_def task_Queue_def task_wf_def)

text \<open>The task of the next attempt, or of the dead letter queue: the same task, one retry on.\<close>

definition next_attempt :: "TaskState \<Rightarrow> go_error \<Rightarrow> TaskProto \<Rightarrow> TaskProto \<Rightarrow> bool" where
  "next_attempt st e t u \<longleftrightarrow> ID u = ID t \<and> Type u = Type t \<and> Payload u = Payload t \<and> Options u = Options t \<and>
     State (metadata_or_zero u) = st \<and> LastError (metadata_or_zero u) = error_text e \<and>
     RetryCount (metadata_or_zero u) = RetryCount (metadata_or_zero t) + 1"

lemma next_attempt_failed:
  "next_attempt TaskStateRetry e t (retried (failed_once e t))"
  "next_attempt TaskStateDead e t (buried (Some e) (failed_once e t))"
  by (simp_all add: next_attempt_def retried_def buried_def Let_def)

lemma good_failed:
  assumes "task_good t"
  shows "task_good (retried (failed_once e t))" "task_good (buried (Some e) (failed_once e t))"
  using assms
  by (auto simp: task_good_iff retried_def buried_def failed_once_def Let_def payload_valid_def metadata_good_def
      metadata_or_zero_def zero_metadata_def time_printable_def split: option.splits)

section \<open>Processing without assumptions on errors\<close>

context task_server
begin

lemma now_runs: obtains at w1 where "now w = (at, w1)" and "qv w1 = qv w"
  using now_view by (cases "now w") blast

lemma update_store_runs: "\<exists>w'. update_store S t w = (Ret (), w') \<and> qv w' = qv w"
proof (cases "srv_store S")
  case None
  then show ?thesis by (simp add: update_store_def)
next
  case (Some st)
  obtain r w' where "st_UpdateTask st t w = (r, w')" by (cases "st_UpdateTask st t w")
  with store_view [OF Some this] Some show ?thesis by (auto simp: update_store_def go_bind_Ret)
qed

lemma handleFailure_dead:
  assumes "gives_up t" and "task_wf t" and "handleFailure now big S t e w = (Ret r, w')"
  shows "r \<noteq> None \<and> ((\<exists>t'. op_MoveToDLQ (srv_broker S) (task_Queue t) (failed_once e t) (Some e) w = (Ret (r, t'), w')) \<or>
    r = Some ErrTaskDead \<and> (\<exists>i. qv w' = (qv w)(task_Queue t :=
      put_dead i (norm_task (buried (Some e) (failed_once e t))) (take_off (StreamMsgID (metadata_or_zero t)) (qv w (task_Queue t))))))"
proof -
  from assms(1,3) obtain err t1 w1 where
    dlq: "op_MoveToDLQ (srv_broker S) (task_Queue t) (failed_once e t) (Some e) w = (Ret (err, t1), w1)"
    and rest: "handleFailure now big S t e w = (case err of
        Some e \<Rightarrow> go_return (Some e)
      | None \<Rightarrow>
          if srv_store S = None then go_return (Some ErrTaskDead)
          else go_bind (go_lift now) (\<lambda>at.
               go_bind (set_metadata (\<lambda>m. m\<lparr>State := TaskStateDead, CompletedAt := Some at\<rparr>) t1) (\<lambda>t.
               go_bind (update_store S t) (\<lambda>_. go_return (Some ErrTaskDead))))) w1"
    by (auto simp: handleFailure_def gives_up_def Let_def go_bind_Ret_iff)
  show ?thesis
  proof (cases err)
    case (Some e')
    with dlq rest assms(3) show ?thesis by auto
  next
    case None
    from dlq_ok [OF dlq [unfolded None]] assms(2) obtain i where
      "qv w1 = (qv w)(task_Queue t := put_dead i (norm_task (buried (Some e) (failed_once e t)))
        (take_off (StreamMsgID (metadata_or_zero t)) (qv w (task_Queue t))))" by auto
    moreover have "r = Some ErrTaskDead \<and> qv w' = qv w1"
    proof (cases "srv_store S = None")
      case True
      with None rest assms(3) show ?thesis by simp
    next
      case False
      obtain at w2 where now: "now w1 = (at, w2)" "qv w2 = qv w1" by (rule now_runs)
      from dlq_task [OF dlq] obtain m where "Metadata t1 = Some m" by (auto simp: buried_def)
      with None False rest now assms(3) show ?thesis
        using update_store_runs [of "t1\<lparr>Metadata := Some (m\<lparr>State := TaskStateDead, CompletedAt := Some at\<rparr>)\<rparr>" w2]
        by (auto simp: go_bind_lift set_metadata_def go_bind_Ret)
    qed
    ultimately show ?thesis by auto
  qed
qed

lemma handleFailure_retry:
  assumes "\<not> gives_up t" and "handleFailure now big S t e w = (Ret r, w')"
  defines "delay \<equiv> calculateBackoff big S (sint (RetryCount (metadata_or_zero t) + 1))"
  shows "r \<noteq> None \<and> ((\<exists>t'. op_Retry (srv_broker S) (task_Queue t) (failed_once e t) delay w = (Ret (r, t'), w')) \<or>
    r = Some ErrTaskRetried \<and> (\<exists>j. marshal_task (retried (failed_once e t)) = Inr j \<and> qv w' = (qv w)(task_Queue t :=
      put_retry (JsonText j) (unix (bnow w + sint delay)) (take_off (StreamMsgID (metadata_or_zero t)) (qv w (task_Queue t))))))"
proof -
  from assms(1,2) obtain err t1 w1 where
    retry: "op_Retry (srv_broker S) (task_Queue t) (failed_once e t) delay w = (Ret (err, t1), w1)"
    and rest: "handleFailure now big S t e w = (case err of
        Some e \<Rightarrow> go_return (Some e)
      | None \<Rightarrow>
          if srv_store S = None then go_return (Some ErrTaskRetried)
          else go_bind (set_metadata (\<lambda>m. m\<lparr>State := TaskStateRetry\<rparr>) t1) (\<lambda>t.
               go_bind (update_store S t) (\<lambda>_. go_return (Some ErrTaskRetried)))) w1"
    by (auto simp: handleFailure_def gives_up_def delay_def Let_def go_bind_Ret_iff)
  show ?thesis
  proof (cases err)
    case (Some e')
    with retry rest assms(2) show ?thesis by auto
  next
    case None
    from retry_ok [OF retry [unfolded None]] obtain j where "marshal_task (retried (failed_once e t)) = Inr j"
      "qv w1 = (qv w)(task_Queue t := put_retry (JsonText j) (unix (bnow w + sint delay))
        (take_off (StreamMsgID (metadata_or_zero t)) (qv w (task_Queue t))))" by auto
    moreover have "r = Some ErrTaskRetried \<and> qv w' = qv w1"
    proof (cases "srv_store S = None")
      case True
      with None rest assms(2) show ?thesis by simp
    next
      case False
      from retry_task [OF retry] obtain m where "Metadata t1 = Some m" by (auto simp: retried_def)
      with None False rest assms(2) show ?thesis
        using update_store_runs [of "t1\<lparr>Metadata := Some (m\<lparr>State := TaskStateRetry\<rparr>)\<rparr>" w1]
        by (auto simp: set_metadata_def go_bind_Ret)
    qed
    ultimately show ?thesis by auto
  qed
qed

end


section \<open>Processing when the services answer\<close>

locale steady_broker = task_broker B qv bnow
  for B :: "'w broker_ops" and qv :: "'w \<Rightarrow> string \<Rightarrow> queue_view" and bnow :: "'w \<Rightarrow> time" +
  fixes I :: "'w \<Rightarrow> bool"
  assumes ack_answers: "I w \<Longrightarrow> \<exists>w'. op_Ack B q i w = (Ret None, w') \<and> I w'"
    and retry_answers: "I w \<Longrightarrow> task_good (retried t) \<Longrightarrow> \<exists>w'. op_Retry B q t delay w = (Ret (None, retried t), w') \<and> I w'"
    and dlq_answers: "I w \<Longrightarrow> task_good (buried e t) \<Longrightarrow> \<exists>w'. op_MoveToDLQ B q t e w = (Ret (None, buried e t), w') \<and> I w'"
    and processed_answers: "I w \<Longrightarrow> \<exists>r w'. op_SetProcessed B tid ttl w = (Ret r, w') \<and> I w'"

locale steady_server = task_server S qv bnow now + steady_broker "srv_broker S" qv bnow I
  for S :: "'w Server" and qv :: "'w \<Rightarrow> string \<Rightarrow> queue_view" and bnow :: "'w \<Rightarrow> time"
    and now :: "'w \<Rightarrow> time \<times> 'w" and I :: "'w \<Rightarrow> bool" +
  assumes now_steady: "I w \<Longrightarrow> now w = (at, w') \<Longrightarrow> I w' \<and> time_printable (Some at)"
    and store_steady: "I w \<Longrightarrow> srv_store S = Some st \<Longrightarrow> st_UpdateTask st t w = (sr, w') \<Longrightarrow> I w'"
    and handler_steady: "I w \<Longrightarrow> mux_Handler (srv_mux S) ty = Some h \<Longrightarrow> h d t w = ((res, t'), w') \<Longrightarrow>
      I w' \<and> t' = t \<and> qv w' = qv w"

text \<open>
  What has become of the task of a message, with the view of the queues before and after: it is done and
  the queues are as they were, or its message is off the stream and it waits for its next attempt, or is
  dead when it had none left.
\<close>

definition task_settled :: "TaskProto \<Rightarrow> go_error option \<Rightarrow> (string \<Rightarrow> queue_view) \<Rightarrow> (string \<Rightarrow> queue_view) \<Rightarrow> bool" where
  "task_settled t r v v' \<longleftrightarrow>
     (let q = task_Queue t; left = take_off (StreamMsgID (metadata_or_zero t)) (v q) in
      (r = None \<and> v' = v) \<or>
      (r = Some ErrTaskRetried \<and> \<not> gives_up t \<and> (\<exists>u e s. task_good u \<and> next_attempt TaskStateRetry e t u \<and>
         v' = v(q := put_retry (JsonText (json_task u)) s left))) \<or>
      (r = Some ErrTaskDead \<and> gives_up t \<and> (\<exists>u e i. task_good u \<and> next_attempt TaskStateDead e t u \<and>
         v' = v(q := put_dead i (norm_task u) left))))"

lemma task_settled_retry:
  "\<not> gives_up t \<Longrightarrow> task_good u \<Longrightarrow> next_attempt TaskStateRetry e t u \<Longrightarrow>
   v' = v(task_Queue t := put_retry (JsonText (json_task u)) s (take_off (StreamMsgID (metadata_or_zero t)) (v (task_Queue t)))) \<Longrightarrow>
   task_settled t (Some ErrTaskRetried) v v'"
  by (auto simp: task_settled_def Let_def)

lemma task_settled_dead:
  "gives_up t \<Longrightarrow> task_good u \<Longrightarrow> next_attempt TaskStateDead e t u \<Longrightarrow>
   v' = v(task_Queue t := put_dead i (norm_task u) (take_off (StreamMsgID (metadata_or_zero t)) (v (task_Queue t)))) \<Longrightarrow>
   task_settled t (Some ErrTaskDead) v v'"
  by (auto simp: task_settled_def Let_def)

context steady_server
begin

lemma now_answers: "I w \<Longrightarrow> \<exists>at w'. now w = (at, w') \<and> I w' \<and> time_printable (Some at) \<and> qv w' = qv w"
  using now_steady now_view by (cases "now w") blast

lemma update_store_answers: "I w \<Longrightarrow> \<exists>w'. update_store S t w = (Ret (), w') \<and> I w' \<and> qv w' = qv w"
proof (cases "srv_store S")
  case None
  then show "I w \<Longrightarrow> ?thesis" by (simp add: update_store_def)
next
  case (Some st)
  obtain r w' where run: "st_UpdateTask st t w = (r, w')" by (cases "st_UpdateTask st t w")
  show "I w \<Longrightarrow> ?thesis"
    using store_view [OF Some run] store_steady [OF _ Some run] run Some by (auto simp: update_store_def go_bind_Ret)
qed

lemma failure_answers:
  assumes "I w" and "task_good t"
  shows "\<exists>r w'. handleFailure now big S t e w = (Ret (Some r), w') \<and> I w' \<and>
    (r = ErrTaskRetried \<longleftrightarrow> \<not> gives_up t) \<and> (r = ErrTaskDead \<longleftrightarrow> gives_up t)"
proof (cases "gives_up t")
  case True
  let ?b = "buried (Some e) (failed_once e t)"
  obtain w1 where dlq: "op_MoveToDLQ (srv_broker S) (task_Queue t) (failed_once e t) (Some e) w = (Ret (None, ?b), w1)" and I1: "I w1"
    using dlq_answers [OF assms(1) good_failed(2) [OF assms(2)]] by blast
  show ?thesis
  proof (cases "srv_store S = None")
    case store: True
    from True dlq store I1 show ?thesis by (auto simp: handleFailure_def gives_up_def go_bind_Ret Let_def)
  next
    case store: False
    obtain at w2 where now: "now w1 = (at, w2)" and I2: "I w2" using now_answers [OF I1] by blast
    obtain m where m: "Metadata ?b = Some m" by (simp add: buried_def)
    obtain w3 where "update_store S (?b\<lparr>Metadata := Some (m\<lparr>State := TaskStateDead, CompletedAt := Some at\<rparr>)\<rparr>) w2 = (Ret (), w3)"
      and "I w3" using update_store_answers [OF I2] by blast
    with True store dlq now m show ?thesis
      by (auto simp: handleFailure_def gives_up_def go_bind_Ret go_bind_lift Let_def set_metadata_def)
  qed
next
  case False
  let ?d = "calculateBackoff big S (sint (RetryCount (metadata_or_zero t) + 1))"
  let ?b = "retried (failed_once e t)"
  obtain w1 where retry: "op_Retry (srv_broker S) (task_Queue t) (failed_once e t) ?d w = (Ret (None, ?b), w1)" and I1: "I w1"
    using retry_answers [OF assms(1) good_failed(1) [OF assms(2)]] by blast
  show ?thesis
  proof (cases "srv_store S = None")
    case store: True
    from False retry store I1 show ?thesis by (auto simp: handleFailure_def gives_up_def go_bind_Ret Let_def)
  next
    case store: False
    obtain m where m: "Metadata ?b = Some m" by (simp add: retried_def)
    obtain w3 where "update_store S (?b\<lparr>Metadata := Some (m\<lparr>State := TaskStateRetry\<rparr>)\<rparr>) w1 = (Ret (), w3)"
      and "I w3" using update_store_answers [OF I1] by blast
    with False store retry m show ?thesis
      by (auto simp: handleFailure_def gives_up_def go_bind_Ret go_bind_lift Let_def set_metadata_def)
  qed
qed

lemma failure_settles:
  assumes "I w" and "task_good t"
  shows "\<exists>r w'. handleFailure now big S t e w = (Ret r, w') \<and> I w' \<and> task_settled t r (qv w) (qv w')"
proof (cases "gives_up t")
  case True
  let ?b = "buried (Some e) (failed_once e t)"
  obtain r w' where run: "handleFailure now big S t e w = (Ret (Some r), w')" and "I w'" and r: "r = ErrTaskDead"
    using failure_answers [OF assms] True by blast
  obtain w1 where dlq: "op_MoveToDLQ (srv_broker S) (task_Queue t) (failed_once e t) (Some e) w = (Ret (None, ?b), w1)"
    using dlq_answers [OF assms(1) good_failed(2) [OF assms(2)]] by blast
  from assms(2) have "task_wf t" by (simp add: task_good_def)
  from handleFailure_dead [OF True this run] dlq obtain i where
    "qv w' = (qv w)(task_Queue t := put_dead i (norm_task ?b) (take_off (StreamMsgID (metadata_or_zero t)) (qv w (task_Queue t))))"
    by auto
  with run r True \<open>I w'\<close> show ?thesis
    using task_settled_dead [OF True good_failed(2) [OF assms(2)] next_attempt_failed(2)] by blast
next
  case False
  let ?d = "calculateBackoff big S (sint (RetryCount (metadata_or_zero t) + 1))"
  let ?b = "retried (failed_once e t)"
  obtain r w' where run: "handleFailure now big S t e w = (Ret (Some r), w')" and "I w'" and r: "r = ErrTaskRetried"
    using failure_answers [OF assms] False by blast
  obtain w1 where retry: "op_Retry (srv_broker S) (task_Queue t) (failed_once e t) ?d w = (Ret (None, ?b), w1)"
    using retry_answers [OF assms(1) good_failed(1) [OF assms(2)]] by blast
  from handleFailure_retry [OF False run] retry good_marshals [OF good_failed(1) [OF assms(2)]] have
    "qv w' = (qv w)(task_Queue t := put_retry (JsonText (json_task ?b)) (unix (bnow w + sint ?d))
       (take_off (StreamMsgID (metadata_or_zero t)) (qv w (task_Queue t))))"
    by auto
  with run r False \<open>I w'\<close> show ?thesis
    using task_settled_retry [OF False good_failed(1) [OF assms(2)] next_attempt_failed(1)] by blast
qed

lemma task_settled_active:
  assumes "Metadata t = Some m" and "task_settled (t\<lparr>Metadata := Some (active S at m)\<rparr>) r v v'"
  shows "task_settled t r v v'"
proof -
  let ?u = "t\<lparr>Metadata := Some (active S at m)\<rparr>"
  have same: "task_Queue ?u = task_Queue t" "max_retry ?u = max_retry t"
    by (simp_all add: task_Queue_def max_retry_def)
  have m: "metadata_or_zero t = m" using assms(1) by (simp add: metadata_or_zero_def)
  have "gives_up ?u = gives_up t" unfolding gives_up_def same metadata_or_zero_Some m by (simp add: active_def)
  moreover have "next_attempt st e ?u = next_attempt st e t" for st e
    by (simp add: next_attempt_def m fun_eq_iff active_def)
  moreover have "StreamMsgID (metadata_or_zero ?u) = StreamMsgID (metadata_or_zero t)" by (simp add: m active_def)
  ultimately show ?thesis using assms(2) unfolding task_settled_def same by simp
qed

lemma good_active:
  assumes "task_good t" and "Metadata t = Some m" and "time_printable (Some at)"
  shows "task_good (t\<lparr>Metadata := Some (active S at m)\<rparr>)"
  using assms by (simp add: task_good_iff payload_valid_def metadata_good_def active_def)

lemma task_settled_done: "v' = v \<Longrightarrow> task_settled t None v v'"
  by (simp add: task_settled_def Let_def)

lemma should_process_answers:
  "I w \<Longrightarrow> \<exists>ok w'. should_process S t w = (Ret ok, w') \<and> I w' \<and> qv w' = qv w"
proof (cases "task_RetryCount t = 0")
  case True
  assume "I w"
  then obtain r w' where "op_SetProcessed (srv_broker S) (ID t) (srv_processedTTL S) w = (Ret r, w')" and "I w'"
    using processed_answers by blast
  with True processed_view [OF this(1)] show ?thesis by (cases r) (auto simp: should_process_def go_bind_Ret intro: exI [of _ True])
qed (auto simp: should_process_def intro: exI [of _ True])

text \<open>The part of \<open>processTask\<close> from the handler on.\<close>

lemma run_handler_settles:
  assumes "I w" and "task_good t" and t: "Metadata t = Some m" and h: "mux_Handler (srv_mux S) (Type t) = Some h"
  shows "\<exists>r w'. go_bind (run_handler h t) (\<lambda>(err, t). case err of
      Some e \<Rightarrow> handleFailure now big S t e
    | None \<Rightarrow>
        go_bind (go_lift now) (\<lambda>done_at.
        go_bind (set_metadata (\<lambda>m. m\<lparr>State := TaskStateCompleted, CompletedAt := Some done_at\<rparr>) t) (\<lambda>t.
        go_bind (update_store S t) (\<lambda>_. go_return None)))) w = (Ret r, w') \<and> I w' \<and> task_settled t r (qv w) (qv w')"
proof -
  obtain res t' w1 where run: "h (handler_timeout t) t w = ((res, t'), w1)"
    by (metis prod.collapse)
  with handler_steady [OF assms(1) h run] have I1: "I w1" and run': "h (handler_timeout t) t w = ((res, t), w1)"
    and qv1: "qv w1 = qv w" by auto
  have fail: ?thesis if "run_handler h t w = (Ret (Some e, t), w1)" for e
    using failure_settles [OF I1 assms(2), of big e] qv1 that by (simp add: go_bind_Ret)
  show ?thesis
  proof (cases res)
    case (Panic msg)
    with run' show ?thesis by (intro fail) (simp add: run_handler_def go_bind_lift)
  next
    case (Ret err)
    show ?thesis
    proof (cases err)
      case (Some e)
      with Ret run' show ?thesis by (intro fail) (simp add: run_handler_def go_bind_lift)
    next
      case None
      with Ret run' have ok: "run_handler h t w = (Ret (None, t), w1)" by (simp add: run_handler_def go_bind_lift)
      obtain at w2 where now: "now w1 = (at, w2)" and I2: "I w2" and qv2: "qv w2 = qv w1"
        using now_answers [OF I1] by blast
      obtain w3 where "update_store S (t\<lparr>Metadata := Some (m\<lparr>State := TaskStateCompleted, CompletedAt := Some at\<rparr>)\<rparr>) w2 = (Ret (), w3)"
        and "I w3" and "qv w3 = qv w2" using update_store_answers [OF I2] by blast
      with ok now t qv1 qv2 show ?thesis
        by (simp add: go_bind_Ret go_bind_lift set_metadata_def task_settled_done)
    qed
  qed
qed

lemma processTask_settles:
  assumes "I w" and "task_good t" and t: "Metadata t = Some m"
  shows "\<exists>r w'. processTask now big S t w = (Ret r, w') \<and> I w' \<and> task_settled t r (qv w) (qv w')"
proof -
  obtain ok w1 where check: "should_process S t w = (Ret ok, w1)" and I1: "I w1" and qv1: "qv w1 = qv w"
    using should_process_answers [OF assms(1)] by blast
  show ?thesis
  proof (cases ok)
    case False
    with check qv1 I1 show ?thesis by (simp add: processTask_def go_bind_Ret task_settled_done)
  next
    case True
    obtain at w2 where now: "now w1 = (at, w2)" and I2: "I w2" and at: "time_printable (Some at)" and qv2: "qv w2 = qv w1"
      using now_answers [OF I1] by blast
    let ?t = "t\<lparr>Metadata := Some (active S at m)\<rparr>"
    have good: "task_good ?t" by (rule good_active [OF assms(2) t at])
    obtain w3 where store: "update_store S ?t w2 = (Ret (), w3)" and I3: "I w3" and qv3: "qv w3 = qv w2"
      using update_store_answers [OF I2] by blast
    have "\<exists>r w'. processTask now big S t w = (Ret r, w') \<and> I w' \<and> task_settled ?t r (qv w) (qv w')"
    proof (cases "mux_Handler (srv_mux S) (Type t)")
      case None
      with check True now t store failure_settles [OF I3 good, of big] qv1 qv2 qv3 show ?thesis
        by (simp add: processTask_def go_bind_Ret go_bind_lift set_metadata_def)
    next
      case (Some h)
      with check True now t store run_handler_settles [OF I3 good, of _ h big] qv1 qv2 qv3 show ?thesis
        by (simp add: processTask_def go_bind_Ret go_bind_lift set_metadata_def)
    qed
    then show ?thesis using task_settled_active [OF t] by blast
  qed
qed

end


text \<open>What the handler says decides: done, or another attempt while there are any.\<close>

definition verdict :: "TaskProto \<Rightarrow> go_error option \<Rightarrow> go_error option" where
  "verdict t err = (case err of
      None \<Rightarrow> None
    | Some e \<Rightarrow> Some (if gives_up t then ErrTaskDead else ErrTaskRetried))"

context steady_server
begin

lemma gives_up_active: "Metadata t = Some m \<Longrightarrow> gives_up (t\<lparr>Metadata := Some (active S at m)\<rparr>) = gives_up t"
  by (simp add: gives_up_def max_retry_def metadata_or_zero_def active_def)

lemma processTask_verdict:
  assumes "I w" and "task_good t" and t: "Metadata t = Some m" and check: "should_process S t w = (Ret True, w1)"
    and h: "mux_Handler (srv_mux S) (Type t) = Some h"
    and says: "\<forall>d at v. fst (fst (h d (t\<lparr>Metadata := Some (active S at m)\<rparr>) v)) = Ret err"
  shows "\<exists>w'. processTask now big S t w = (Ret (verdict t err), w') \<and> I w' \<and> task_settled t (verdict t err) (qv w) (qv w')"
proof -
  have I1: "I w1" using should_process_answers [OF assms(1), of t] check by auto
  obtain at w2 where now: "now w1 = (at, w2)" and I2: "I w2" and at: "time_printable (Some at)"
    using now_answers [OF I1] by blast
  let ?t = "t\<lparr>Metadata := Some (active S at m)\<rparr>"
  have good: "task_good ?t" by (rule good_active [OF assms(2) t at])
  obtain w3 where store: "update_store S ?t w2 = (Ret (), w3)" and I3: "I w3"
    using update_store_answers [OF I2] by blast
  obtain res t' w4 where run: "h (handler_timeout ?t) ?t w3 = ((res, t'), w4)" by (metis prod.collapse)
  have I4: "I w4" and t': "t' = ?t" using handler_steady [OF I3 h run] by simp_all
  have "res = Ret err" using says [rule_format, of "handler_timeout ?t" at w3] run by simp
  then have handled: "run_handler h ?t w3 = (Ret (err, ?t), w4)" using run t' by (simp add: run_handler_def go_bind_lift)
  have "\<exists>w'. processTask now big S t w = (Ret (verdict t err), w')"
  proof (cases err)
    case None
    obtain at' w5 where now': "now w4 = (at', w5)" and I5: "I w5" using now_answers [OF I4] by blast
    obtain w6 where "update_store S (?t\<lparr>Metadata := Some ((active S at m)\<lparr>State := TaskStateCompleted, CompletedAt := Some at'\<rparr>)\<rparr>) w5 = (Ret (), w6)"
      using update_store_answers [OF I5] by blast
    with check now t store h handled now' None show ?thesis
      by (simp add: processTask_def go_bind_Ret go_bind_lift set_metadata_def verdict_def)
  next
    case (Some e)
    obtain r w' where fail: "handleFailure now big S ?t e w4 = (Ret (Some r), w')"
      and "(r = ErrTaskRetried) = (\<not> gives_up ?t)" and "(r = ErrTaskDead) = gives_up ?t"
      using failure_answers [OF I4 good] by blast
    then have "Some r = verdict t err" using gives_up_active [OF t] Some by (auto simp: verdict_def)
    with check now t store h handled fail Some show ?thesis
      by (simp add: processTask_def go_bind_Ret go_bind_lift set_metadata_def)
  qed
  with processTask_settles [OF assms(1,2) t, of big] show ?thesis by auto
qed

end

section \<open>A message under the server's handler\<close>

lemma with_message_id_sel [simp]:
  "ID (with_message_id i t) = ID t" "Type (with_message_id i t) = Type t" "Payload (with_message_id i t) = Payload t"
  "Options (with_message_id i t) = Options t" "StreamMsgID (metadata_or_zero (with_message_id i t)) = i"
  "RetryCount (metadata_or_zero (with_message_id i t)) = RetryCount (metadata_or_zero t)"
  "Metadata (with_message_id i t) = Some ((metadata_or_zero t)\<lparr>StreamMsgID := i\<rparr>)"
  by (simp_all add: with_message_id_def)

lemma with_message_id_same [simp]:
  "task_Queue (with_message_id i t) = task_Queue t" "gives_up (with_message_id i t) = gives_up t"
  "next_attempt st e (with_message_id i t) = next_attempt st e t"
  by (simp_all add: task_Queue_def gives_up_def max_retry_def next_attempt_def fun_eq_iff)

lemma good_with_message_id: "task_good t \<Longrightarrow> task_good (with_message_id i t)"
  by (auto simp: task_good_iff payload_valid_def metadata_good_def metadata_or_zero_def zero_metadata_def
      time_printable_def with_message_id_def split: option.splits)

text \<open>The same as \<open>task_settled\<close>, for the message the task came in: in every case it leaves the queue.\<close>

definition message_settled ::
  "string \<Rightarrow> TaskProto \<Rightarrow> go_error option \<Rightarrow> (string \<Rightarrow> queue_view) \<Rightarrow> (string \<Rightarrow> queue_view) \<Rightarrow> bool" where
  "message_settled i t r v v' \<longleftrightarrow>
     (let q = task_Queue t; left = drop_message i (v q) in
      (r = None \<and> v' = v(q := left)) \<or>
      (r = Some ErrTaskRetried \<and> \<not> gives_up t \<and> (\<exists>u e s. task_good u \<and> next_attempt TaskStateRetry e t u \<and>
         v' = v(q := put_retry (JsonText (json_task u)) s left))) \<or>
      (r = Some ErrTaskDead \<and> gives_up t \<and> (\<exists>u e j. task_good u \<and> next_attempt TaskStateDead e t u \<and>
         v' = v(q := put_dead j (norm_task u) left))))"

context steady_server
begin

lemma processMessage_settles:
  assumes B: "srv_broker S = redis_broker E cfg" and "I w" and t: "message_task msg = Some t" and i: "xm_ID msg \<noteq> ''''"
  shows "\<exists>r w'. processMessage E cfg (processTask now big S) (task_Queue t) msg w = (Ret r, w') \<and> I w' \<and>
    message_settled (xm_ID msg) t r (qv w) (qv w')"
proof -
  let ?t = "with_message_id (xm_ID msg) t"
  have good: "task_good ?t" using message_task_good [OF t] by (rule good_with_message_id)
  from t obtain data where data: "map_of (xm_Values msg) ''data'' = Some data" "unmarshal_task data = Inr t"
    by (auto simp: message_task_def split: option.splits sum.splits)
  obtain r w1 where run: "processTask now big S ?t w = (Ret r, w1)" and I1: "I w1" and set: "task_settled ?t r (qv w) (qv w1)"
    using processTask_settles [OF assms(2) good with_message_id_sel(7)] by blast
  show ?thesis
  proof (cases r)
    case None
    obtain w2 where ack: "Ack E cfg (task_Queue t) (xm_ID msg) w1 = (Ret None, w2)" and I2: "I w2"
      using ack_answers [OF I1, of "task_Queue t" "xm_ID msg"] B by auto
    from ack_ok [of "task_Queue t" "xm_ID msg" w1 w2] ack B set None
    have "message_settled (xm_ID msg) t None (qv w) (qv w2)"
      by (simp add: message_settled_def task_settled_def Let_def)
    with data run ack I2 None show ?thesis by (simp add: processMessage_def go_bind_Ret)
  next
    case (Some e)
    with set i have "message_settled (xm_ID msg) t r (qv w) (qv w1)"
      by (simp add: message_settled_def task_settled_def Let_def take_off_def)
    with data run I1 Some show ?thesis by (simp add: processMessage_def go_bind_Ret)
  qed
qed

lemma processMessage_verdict:
  assumes B: "srv_broker S = redis_broker E cfg" and "I w" and t: "message_task msg = Some t" and i: "xm_ID msg \<noteq> ''''"
    and check: "should_process S (with_message_id (xm_ID msg) t) w = (Ret True, w1)"
    and h: "mux_Handler (srv_mux S) (Type t) = Some h"
    and says: "\<forall>d at v. fst (fst (h d ((with_message_id (xm_ID msg) t)\<lparr>Metadata := Some (active S at
      ((metadata_or_zero t)\<lparr>StreamMsgID := xm_ID msg\<rparr>))\<rparr>) v)) = Ret err"
  shows "\<exists>w'. processMessage E cfg (processTask now big S) (task_Queue t) msg w = (Ret (verdict t err), w') \<and> I w' \<and>
    message_settled (xm_ID msg) t (verdict t err) (qv w) (qv w')"
proof -
  let ?t = "with_message_id (xm_ID msg) t"
  have good: "task_good ?t" using message_task_good [OF t] by (rule good_with_message_id)
  have h': "mux_Handler (srv_mux S) (Type ?t) = Some h" using h by simp
  have same: "verdict ?t err = verdict t err" by (simp add: verdict_def split: option.split)
  from t obtain data where data: "map_of (xm_Values msg) ''data'' = Some data" "unmarshal_task data = Inr t"
    by (auto simp: message_task_def split: option.splits sum.splits)
  obtain w2 where run: "processTask now big S ?t w = (Ret (verdict t err), w2)" and I2: "I w2"
    using processTask_verdict [OF assms(2) good with_message_id_sel(7) check h' says] same by auto
  have "\<exists>w'. processMessage E cfg (processTask now big S) (task_Queue t) msg w = (Ret (verdict t err), w')"
  proof (cases "verdict t err")
    case None
    obtain w3 where "Ack E cfg (task_Queue t) (xm_ID msg) w2 = (Ret None, w3)"
      using ack_answers [OF I2, of "task_Queue t" "xm_ID msg"] B by auto
    with data run None show ?thesis by (simp add: processMessage_def go_bind_Ret)
  next
    case (Some e)
    with data run show ?thesis by (simp add: processMessage_def go_bind_Ret)
  qed
  with processMessage_settles [OF B assms(2) t i, of big] show ?thesis by auto
qed

end

section \<open>A Redis server that answers\<close>

locale steady_redis = redis_server E db clk
  for E :: "'w env" and db :: "'w \<Rightarrow> redis_db" and clk :: "'w \<Rightarrow> time" +
  fixes I :: "'w \<Rightarrow> bool"
  assumes pipe_steady: "I w \<Longrightarrow> pipe_exec E cs w = (re, w') \<Longrightarrow> re = None \<and> I w'"
    and clock_steady: "I w \<Longrightarrow> clock E w = (at, w') \<Longrightarrow> I w' \<and> time_printable (Some at)"
    and set_nx_steady: "I w \<Longrightarrow> set_nx E k v ttl w = (rb, w') \<Longrightarrow> I w'"
begin

lemma pipe_answers: "I w \<Longrightarrow> \<exists>w'. pipe_exec E cs w = (None, w') \<and> I w'"
  using pipe_steady by (cases "pipe_exec E cs w") blast

lemma Retry_answers:
  assumes "I w" and "task_good (retried t)"
  shows "\<exists>w'. Retry E cfg q t delay w = (Ret (None, retried t), w') \<and> I w'"
proof -
  obtain at w1 where at: "clock E w = (at, w1)" by (cases "clock E w")
  with clock_steady [OF assms(1)] have I1: "I w1" by blast
  obtain w2 where "pipe_exec E (unstream cfg q ((metadata_or_zero t)\<lparr>State := TaskStateRetry\<rparr>) @
      [ZAdd (retryKey q) (unix (at + sint delay)) (JsonText (json_task (retried t)))]) w1 = (None, w2)" and "I w2"
    using pipe_answers [OF I1] by blast
  with good_marshals [OF assms(2)] at show ?thesis
    by (simp add: Retry_def Let_def retried_def go_bind_lift)
qed

lemma MoveToDLQ_answers:
  assumes "I w" and "task_good (buried e t)"
  shows "\<exists>w'. MoveToDLQ E cfg q t e w = (Ret (None, buried e t), w') \<and> I w'"
proof -
  obtain w1 where "pipe_exec E (unstream cfg q (metadata_or_zero (buried e t)) @
      [XAdd (dlqKey q) [(''data'', JsonText (json_task (buried e t)))]]) w = (None, w1)" and "I w1"
    using pipe_answers [OF assms(1)] by blast
  with good_marshals [OF assms(2)] show ?thesis
    by (cases e) (simp_all add: MoveToDLQ_def Let_def buried_def go_bind_lift)
qed

end

sublocale steady_redis \<subseteq> steady: steady_broker "redis_broker E cfg" "\<lambda>w. view cfg (db w)" "\<lambda>w. fst (clock E w)" I for cfg
proof (unfold_locales, goal_cases)
  case (1 w q i)
  then show ?case
    using pipe_answers [of w "[XAck (streamKey q) (Group cfg) i, XDel (streamKey q) i, HIncrBy (statsPrefix @ q) ''completed'' 1]"]
    by (auto simp: Ack_def go_lift_def)
next
  case (2 w t q delay)
  then show ?case using Retry_answers by simp
next
  case (3 w e t q)
  then show ?case using MoveToDLQ_answers by simp
next
  case (4 w tid ttl)
  then show ?case using set_nx_steady
    by (cases "set_nx E (processedPrefix @ tid) ''1'' ttl w") (auto simp: SetProcessed_def go_lift_def)
qed

definition steady_mem :: "mem \<Rightarrow> bool" where
  "steady_mem m \<longleftrightarrow> healthy m \<and> time_printable (Some (m_now m)) \<and> (\<forall>k. distinct (map fst (m_streams m k)))"

lemma steady_command: "steady_mem m \<Longrightarrow> steady_mem (mem_command c m)"
  using mem_id_fresh [of m]
  by (cases c) (auto simp: steady_mem_def healthy_def fresh_id_def mem_db_streams distinct_map_filter)

lemma steady_commands: "steady_mem m \<Longrightarrow> steady_mem (fold mem_command cs m)"
  by (induction cs arbitrary: m) (simp_all add: steady_command)

interpretation mem_steady: steady_redis mem_env mem_db m_now steady_mem
proof (unfold_locales, goal_cases)
  case (1 w cs re w')
  then have f: "m_faults w = []" and "steady_mem w" by (simp_all add: steady_mem_def healthy_def)
  then have "w\<lparr>m_faults := []\<rparr> = w" by (cases w) simp
  with 1 f show ?case by (auto simp: mem_pipe_def intro: steady_commands)
next
  case (2 w at w')
  then show ?case by (auto simp: steady_mem_def)
next
  case (3 w k v ttl rb w')
  then show ?case by (auto simp: steady_mem_def healthy_def mem_call_def mem_set_nx_def split: if_splits)
qed

end
