(* ===== verification/Server_Properties.thy ===== *)
theory Server_Properties
  imports Server_Spec
begin

text \<open>
  The properties of the server: its configuration, the retry delays, the outcome of a failure and of a
  message, the effect of the processed marker, and the cleanup of idle consumers. The concrete runs use
  a server on the in-memory Redis whose one handler fails and whose store always reports an error.
\<close>

section \<open>Backoff\<close>

text \<open>The reference: start at the base, double with every attempt, never exceed the maximum.\<close>

fun capped_doubling :: "int \<Rightarrow> int \<Rightarrow> nat \<Rightarrow> int" where
  "capped_doubling base mx 0 = min base mx"
| "capped_doubling base mx (Suc n) = min (2 * capped_doubling base mx n) mx"

lemma capped_doubling_closed: "0 \<le> mx \<Longrightarrow> capped_doubling base mx n = min (base * 2 ^ n) mx"
  by (induction n) (auto simp: min_def)

lemma exact_shift:
  fixes b :: i64
  assumes "0 \<le> sint b" and "sint b * 2 ^ n < 2 ^ 63"
  shows "sint (b * pow2_duration big (int n)) = sint b * 2 ^ n"
proof (cases "b = 0")
  case False
  then have "1 \<le> sint b" using assms(1) by (metis signed_eq_0_iff int_one_le_iff_zero_less order_le_less)
  then have "(2 :: int) ^ n \<le> sint b * 2 ^ n" by simp
  then have "(2 :: int) ^ n < 2 ^ 63" using assms(2) by linarith
  then have n: "n < 63" by (meson power_strict_increasing_iff one_less_numeral_iff semiring_norm(76))
  have "b * pow2_duration big (int n) = word_of_int (sint b * 2 ^ n)"
    using n by (simp add: pow2_duration_def)
  also have "sint (word_of_int (sint b * 2 ^ n) :: i64) = sint b * 2 ^ n"
  proof (rule sint_word_of_int_range64)
    have "0 \<le> sint b * 2 ^ n" using assms(1) by simp
    then show "- (2 ^ 63) \<le> sint b * 2 ^ n" by (rule order_trans [rotated]) simp
  qed (rule assms(2))
  finally show ?thesis .
qed simp


definition demo_failing :: "mem Handler" where
  "demo_failing d t w = ((Ret (Some (ErrText ''boom'')), t), w)"

definition demo_server :: "mem Server" where
  "demo_server = (NewServer ''host'' ''1'' (redis_broker mem_env DefaultConsumerConfig) [WithServerStore (Some demo_store)])
     \<lparr>srv_mux := \<lparr>handlers = [(''email:send'', demo_failing)]\<rparr>\<rparr>"

lemma demo_server_sel [simp]:
  "srv_broker demo_server = redis_broker mem_env DefaultConsumerConfig" "srv_store demo_server = Some demo_store"
  "mux_Handler (srv_mux demo_server) ty = (if ty = ''email:send'' then Some demo_failing else None)"
  "srv_retryBaseDuration demo_server = dur (1 * Second)" "srv_retryMaxDuration demo_server = dur (10 * Minute)"
  "srv_processedTTL demo_server = dur (24 * Hour)" "srv_queues demo_server = [''default'']"
  "srv_workerID demo_server = ''host-1''" "srv_cleanupIdleThreshold demo_server = 0"
  by (simp_all add: demo_server_def NewServer_def WithServerStore_def mux_Handler_def DefaultRetryBaseDuration_def
      DefaultRetryMaxDuration_def DefaultProcessedTTL_def)


text \<open>
  With the default configuration the delays are 1, 2, 4, ..., 512 seconds before the first ten
  retries and ten minutes before the next twenty-four; the one after those has overflowed to a negative
  delay, so the task is due at once.
\<close>

theorem default_backoff_schedule:
  "map (\<lambda>n. sint (calculateBackoff big (NewServer host pid b []) n)) [1..35] =
     map (\<lambda>n. 2 ^ n * Second) [0..<10] @ replicate 24 (600 * Second) @ [-1266874889709551616]"
  by (simp add: NewServer_def calculateBackoff_def pow2_duration_def DefaultRetryBaseDuration_def
      DefaultRetryMaxDuration_def dur_def Second_def Minute_def Let_def upto.simps upt_rec numeral_eq_Suc)


section \<open>Configuration\<close>

text \<open>The options this package exports, but for the logger.\<close>

inductive server_option :: "'w ServerOption \<Rightarrow> bool" where
  "server_option (WithConcurrency n)"
| "server_option (WithQueues qs)"
| "server_option (WithServerStore st)"
| "server_option (WithShutdownTimeout d)"
| "server_option (WithConsumerCleanup i th)"
| "server_option (WithProcessedTTL d)"
| "server_option (WithRetryConfig base mx)"
| "server_option (WithSchedulerInterval d)"
| "server_option (WithSchedulerBatchSize n)"

lemmas server_option_defs = WithConcurrency_def WithQueues_def WithServerStore_def WithShutdownTimeout_def
  WithConsumerCleanup_def WithProcessedTTL_def WithRetryConfig_def WithSchedulerInterval_def WithSchedulerBatchSize_def

definition server_usable :: "'w broker_ops \<Rightarrow> string \<Rightarrow> 'w Server \<Rightarrow> bool" where
  "server_usable b wid s \<longleftrightarrow> srv_broker s = b \<and> srv_workerID s = wid \<and> srv_mux s = NewServeMux \<and>
     0 < srv_concurrency s \<and> 0 < sint (srv_schedulerInterval s) \<and> 0 < srv_schedulerBatchSize s"

lemma server_option_usable: "server_option opt \<Longrightarrow> server_usable b wid s \<Longrightarrow> server_usable b wid (opt s)"
  by (induction opt rule: server_option.induct) (simp_all add: server_usable_def server_option_defs)

lemma fold_server_options:
  "list_all server_option opts \<Longrightarrow> server_usable b wid s \<Longrightarrow> server_usable b wid (fold (\<lambda>opt s. opt s) opts s)"
  by (induction opts arbitrary: s) (auto intro: server_option_usable)

text \<open>
  C26. Whatever options it is given, a new server has the broker it was given, the worker id made of the
  host and the process, no handler yet, and a concurrency, a scheduler interval (on which the ticker
  would panic otherwise) and a batch size that are positive.
\<close>

theorem NewServer_usable:
  assumes "list_all server_option opts"
  shows "server_usable b (host @ ''-'' @ pid) (NewServer host pid b opts)"
  unfolding NewServer_def by (rule fold_server_options [OF assms])
    (simp add: server_usable_def DefaultConcurrency_def DefaultSchedulerInterval_def DefaultSchedulerBatchSize_def
      dur_def Second_def)

theorem NewServer_usable_witness:
  "server_usable (redis_broker mem_env DefaultConsumerConfig) ''host-1''
     (NewServer ''host'' ''1'' (redis_broker mem_env DefaultConsumerConfig) [WithConcurrency (-3), WithSchedulerInterval 0])"
  using NewServer_usable [of "[WithConcurrency (-3), WithSchedulerInterval 0]" "redis_broker mem_env DefaultConsumerConfig"
      "''host''" "''1''"]
  by (simp add: server_option.intros)

section \<open>Failures\<close>

text \<open>
  C8. A failed task goes to the dead letter queue when the retry it has just used up was its last, and to the
  retry set at its backoff otherwise, and its message leaves the stream. The result says which of the two
  happened; when the broker fails, its error is the result and nothing else is done. It is never nil, so
  the message is not acknowledged a second time.
\<close>

theorem handleFailure_decides:
  assumes "task_server S qv bnow now" and "task_wf t" and "handleFailure now big S t e w = (Ret r, w')"
  shows "let f = failed_once e t; q = task_Queue t; left = take_off (StreamMsgID (metadata_or_zero t)) (qv w q);
      delay = calculateBackoff big S (sint (RetryCount (metadata_or_zero t) + 1)) in
    r \<noteq> None \<and>
    (if sint (RetryCount (metadata_or_zero t) + 1) \<ge> sint (max_retry t) then
       (\<exists>t'. op_MoveToDLQ (srv_broker S) q f (Some e) w = (Ret (r, t'), w')) \<or>
       r = Some ErrTaskDead \<and> (\<exists>i. qv w' = (qv w)(q := put_dead i (norm_task (buried (Some e) f)) left))
     else
       (\<exists>t'. op_Retry (srv_broker S) q f delay w = (Ret (r, t'), w')) \<or>
       r = Some ErrTaskRetried \<and> (\<exists>j. marshal_task (retried f) = Inr j \<and>
         qv w' = (qv w)(q := put_retry (JsonText j) (unix (bnow w + sint delay)) left)))"
proof (cases "gives_up t")
  case True
  with task_server.handleFailure_dead [OF assms(1) True assms(2,3)] show ?thesis by (simp add: gives_up_def Let_def)
next
  case False
  with task_server.handleFailure_retry [OF assms(1) False assms(3)] show ?thesis by (simp add: gives_up_def Let_def)
qed

interpretation mem_server: steady_server demo_server "\<lambda>w. view DefaultConsumerConfig (mem_db w)"
  "\<lambda>w. fst (clock mem_env w)" "clock mem_env" steady_mem
proof (intro steady_server.intro task_server.intro task_server_axioms.intro steady_server_axioms.intro, goal_cases)
  case 1
  show ?case unfolding demo_server_sel by (rule mem.broker.task_broker_axioms)
next
  case (2 w at w')
  then show ?case by simp
next
  case (3 st t w r w')
  then show ?case by (auto simp: demo_store_def)
next
  case 4
  show ?case unfolding demo_server_sel by (rule mem_steady.steady.steady_broker_axioms)
next
  case (5 w at w')
  then show ?case by (auto simp: steady_mem_def)
next
  case (6 w st t r w')
  then show ?case by (auto simp: demo_store_def)
next
  case (7 w ty h d t res t' w')
  then show ?case by (auto simp: demo_failing_def split: if_splits)
qed

lemma demo_max_retry [simp]: "max_retry demo_task = 5" "RetryCount (metadata_or_zero demo_task) = 0"
  "task_Queue demo_task = ''critical''"
  by (simp_all add: max_retry_def demo_task_def zero_options_def zero_metadata_def metadata_or_zero_def task_Queue_def)

lemma demo_good: "task_good demo_task"
  using demo_task_marshals unfolding marshal_Inr by (simp add: task_good_def)

lemma steady_empty: "steady_mem empty_mem"
  by (simp add: steady_mem_def healthy_def empty_mem_def time_printable_def unix_def Second_def)


text \<open>One failure of the demo task on the demo server goes back to the retry set.\<close>

lemma demo_failure_runs:
  "\<exists>r w'. handleFailure (clock mem_env) big demo_server demo_task e empty_mem = (Ret r, w')"
  using mem_server.failure_settles [OF steady_empty demo_good] by blast

theorem handleFailure_decides_witness:
  "\<exists>r w'. handleFailure (clock mem_env) 0 demo_server demo_task (ErrText ''boom'') empty_mem = (Ret r, w') \<and> r \<noteq> None"
proof -
  obtain r w' where run: "handleFailure (clock mem_env) 0 demo_server demo_task (ErrText ''boom'') empty_mem = (Ret r, w')"
    using demo_failure_runs by blast
  from handleFailure_decides [OF mem_server.task_server_axioms demo_task_wf run] have "r \<noteq> None" by (simp add: Let_def)
  with run show ?thesis by blast
qed

section \<open>Messages\<close>

text \<open>
  C7. When the broker answers, the handlers return or panic and leave the queues and their task alone,
  and the clock is in range, every message that holds a task is settled: handling it returns, the message
  is off the stream and acknowledged, and the task is finished (or was handled before), or waits for its
  next attempt with one retry more, or, when it had none left, is in the dead letter queue. Nothing else
  in any queue changes.
\<close>

theorem server_settles_message:
  assumes "steady_server S (\<lambda>w. view cfg (db w)) bnow now I" and "srv_broker S = redis_broker E cfg"
    and "I w" and "message_task msg = Some t" and "xm_ID msg \<noteq> ''''"
  shows "\<exists>r w'. processMessage E cfg (processTask now big S) (task_Queue t) msg w = (Ret r, w') \<and>
    message_settled (xm_ID msg) t r (view cfg (db w)) (view cfg (db w'))"
  using steady_server.processMessage_settles [OF assms] by blast

lemma demo_message_task: "message_task demo_stream_message = Some (norm_task demo_task)"
  by (simp add: demo_stream_message_def demo_task_reads)

theorem server_settles_message_witness:
  "\<exists>r w'. processMessage mem_env DefaultConsumerConfig (processTask (clock mem_env) 0 demo_server)
      (task_Queue (norm_task demo_task)) demo_stream_message empty_mem = (Ret r, w') \<and>
    message_settled ''i'' (norm_task demo_task) r (view DefaultConsumerConfig (mem_db empty_mem))
      (view DefaultConsumerConfig (mem_db w'))"
  using server_settles_message [OF mem_server.steady_server_axioms demo_server_sel(1) steady_empty demo_message_task, of 0]
  by (simp add: demo_stream_message_def)

lemma marked_message_acked:
  assumes "redis_server E db clk" and "srv_broker S = redis_broker E cfg"
    and "SetProcessed E (ID t) (srv_processedTTL S) w = (Ret (Inr True), w1)"
    and "strings (db w2) (processedPrefix @ ID t) = strings (db w1) (processedPrefix @ ID t)"
    and "message_task msg = Some t" and "task_RetryCount t = 0"
    and "SetProcessed E (ID t) (srv_processedTTL S) w2 = (Ret (Inr b), w3)"
    and "srv_processedTTL S = 0 \<or> clk w3 < clk w + sint (srv_processedTTL S) div Millisecond * Millisecond"
  shows "processMessage E cfg (processTask now big S) q msg w2 = Ack E cfg q (xm_ID msg) w3 \<and> db w3 = db w2"
proof -
  have again: "\<not> b \<and> db w3 = db w2"
    by (rule redis_server.SetProcessed_again [OF assms(1,3,4,7,8)])
  from assms(6) have "task_RetryCount (with_message_id (xm_ID msg) t) = 0"
    by (simp add: task_RetryCount_def with_message_id_def metadata_or_zero_def zero_metadata_def split: option.splits)
  with assms(2,7) again have "should_process S (with_message_id (xm_ID msg) t) w2 = (Ret False, w3)"
    by (simp add: should_process_def go_bind_Ret)
  then have "processTask now big S (with_message_id (xm_ID msg) t) w2 = (Ret None, w3)"
    by (simp add: processTask_def go_bind_def)
  moreover from assms(5) obtain data where "map_of (xm_Values msg) ''data'' = Some data" "unmarshal_task data = Inr t"
    by (auto simp: message_task_def split: option.splits sum.splits)
  ultimately show ?thesis using again by (simp add: processMessage_def go_bind_Ret)
qed

text \<open>
  C10. The handler runs at most once for a first attempt: when the marker has been won for a task that has
  used no retry, then, until the marker expires or is deleted, a message with that task is acknowledged
  without the handler, the retry set or the dead letter queue being touched, whatever became of the
  delivery that won the marker.
\<close>

theorem first_attempt_handled_once:
  assumes "redis_server E db clk" and "srv_broker S = redis_broker E cfg"
    and "SetProcessed E (ID t) (srv_processedTTL S) w = (Ret (Inr True), w1)"
    and "strings (db w2) (processedPrefix @ ID t) = strings (db w1) (processedPrefix @ ID t)"
    and "message_task msg = Some t" and "task_RetryCount t = 0"
    and "SetProcessed E (ID t) (srv_processedTTL S) w2 = (Ret (Inr b), w3)"
    and "srv_processedTTL S = 0 \<or> clk w3 < clk w + sint (srv_processedTTL S) div Millisecond * Millisecond"
  shows "processMessage E cfg (processTask now big S) q msg w2 = Ack E cfg q (xm_ID msg) w3 \<and> db w3 = db w2"
  by (rule marked_message_acked [OF assms])

theorem first_attempt_handled_once_witness:
  "processMessage mem_env DefaultConsumerConfig (processTask (clock mem_env) 0 demo_server) ''critical'' demo_stream_message marked_mem =
     Ack mem_env DefaultConsumerConfig ''critical'' ''i'' marked_mem \<and> mem_db marked_mem = mem_db marked_mem"
proof -
  have t: "ID (norm_task demo_task) = ''t1''" "task_RetryCount (norm_task demo_task) = 0"
    by (simp_all add: norm_task_def demo_task_def task_RetryCount_def zero_metadata_def)
  show ?thesis
    using first_attempt_handled_once [OF mem.redis_server_axioms demo_server_sel(1), of "norm_task demo_task" empty_mem marked_mem
        marked_mem demo_stream_message False marked_mem "clock mem_env" 0 "''critical''"]
    by (simp add: t demo_SetProcessed demo_message_task del: mem_env_sel)
      (simp add: demo_stream_message_def marked_mem_def empty_mem_def dur_def Hour_def Minute_def Second_def Millisecond_def)
qed

section \<open>Cleanup\<close>

lemma forget_idle: "pending_of c (pel d k g) = {} \<Longrightarrow> forget_consumer k g c d = d"
  by (simp add: forget_consumer_def)

context redis_consumer
begin

lemma GetGroupConsumers_pending:
  assumes "GetGroupConsumers E q g w = (Ret (Inr cs), w')"
  shows "db w' = db w \<and> (\<forall>c \<in> set cs. finite (pending_of (ci_Name c) (pel (db w) (streamKey q) g)) \<and>
    ci_Pending c = int (card (pending_of (ci_Name c) (pel (db w) (streamKey q) g))))"
proof -
  obtain r w1 where info: "x_info_consumers E (streamKey q) g w = (r, w1)" by (cases "x_info_consumers E (streamKey q) g w")
  with assms have "w' = w1" and "list_or_error ''failed to get group consumers: '' r = Inr cs"
    by (simp_all add: GetGroupConsumers_def go_bind_lift)
  with info_consumers_ok [OF info] show ?thesis
    by (cases r) (auto simp: list_or_error_def split: if_splits)
qed

text \<open>A loop over the listed consumers that removes none but those without pending messages.\<close>

lemma remove_idle_keeps:
  assumes get: "GetGroupConsumers E q g w = (Ret (Inr cs), w1)"
    and step: "\<And>c k v k' v'. f c k v = (Ret k', v') \<Longrightarrow> v' = v \<or>
      ci_Pending c = 0 \<and> (\<exists>err. x_group_del_consumer E (streamKey q) g (ci_Name c) v = (err, v'))"
    and run: "go_fold f cs (n :: 'k) w1 = (Ret n', w')"
  shows "db w' = db w"
proof -
  have db1: "db w1 = db w"
    using get info_consumers_ok [of "streamKey q" g w _ w1] by (auto simp: GetGroupConsumers_def run_iff)
  define inv where "inv = (\<lambda>(xs :: ConsumerInfo list) (k :: 'k) w'. db w' = db w \<and> (\<forall>c \<in> set xs. ci_Pending c = 0 \<longrightarrow>
    pending_of (ci_Name c) (pel (db w) (streamKey q) g) = {}))"
  have start: "inv cs n w1"
    using GetGroupConsumers_pending [OF get] db1 by (auto simp: inv_def)
  have "inv [] n' w'"
  proof (rule go_fold_invariant [where I = inv, OF start run])
    fix c xs k v k' v'
    assume inv: "inv (c # xs) k v" and run: "f c k v = (Ret k', v')"
    have "db v' = db v"
    proof (cases "v' = v")
      case False
      with step [OF run] obtain err where "ci_Pending c = 0"
        and del: "x_group_del_consumer E (streamKey q) g (ci_Name c) v = (err, v')" by blast
      with inv have "pending_of (ci_Name c) (pel (db v) (streamKey q) g) = {}" by (simp add: inv_def)
      from del_consumer_ok [OF del] forget_idle [OF this] show ?thesis by auto
    qed simp
    with inv show "inv xs k' v'" by (simp add: inv_def)
  qed
  then show ?thesis by (simp add: inv_def)
qed

lemma cleanup_group_keeps:
  assumes B: "srv_broker S = redis_broker E cfg" and run: "cleanup_group S th q g n w = (Ret n', w')"
  shows "db w' = db w"
proof -
  from run B obtain r w1 where get: "GetGroupConsumers E q g w = (Ret r, w1)"
    and rest: "(case r of Inl err \<Rightarrow> go_return n
      | Inr consumers \<Rightarrow> go_fold (cleanup_consumer S th q g) consumers n) w1 = (Ret n', w')"
    by (auto simp: cleanup_group_def go_bind_Ret_iff)
  show ?thesis
  proof (cases r)
    case (Inl err)
    with rest get info_consumers_ok [of "streamKey q" g w _ w1] show ?thesis
      by (auto simp: GetGroupConsumers_def run_iff)
  next
    case (Inr cs)
    show ?thesis
      by (rule remove_idle_keeps [OF get [unfolded Inr] _ rest [unfolded Inr sum.case]])
        (auto simp: B cleanup_consumer_def should_cleanup_def RemoveConsumer_def run_iff split: if_splits option.splits)
  qed
qed

lemma cleanup_keeps:
  assumes B: "srv_broker S = redis_broker E cfg" and run: "cleanupDeadConsumers S th w = (Ret n, w')"
  shows "db w' = db w"
proof -
  show ?thesis
  proof (rule go_fold_invariant [where I = "\<lambda>xs k v. db v = db w", OF _ run [unfolded cleanupDeadConsumers_def]])
    fix q qs k v k' v'
    assume inv: "db v = db w" and step: "go_bind (op_GetConsumerGroups (srv_broker S) q) (\<lambda>r. case r of
         Inl err \<Rightarrow> go_return k
       | Inr groups \<Rightarrow> go_fold (\<lambda>grp n. cleanup_group S th q (cg_Name grp) n) groups k) v = (Ret k', v')"
    from step B obtain r v1 where get: "GetConsumerGroups E q v = (Ret r, v1)"
      and rest: "(case r of Inl err \<Rightarrow> go_return k
       | Inr groups \<Rightarrow> go_fold (\<lambda>grp n. cleanup_group S th q (cg_Name grp) n) groups k) v1 = (Ret k', v')"
      by (auto simp: go_bind_Ret_iff)
    have db1: "db v1 = db v"
      using get info_groups_ok [of "streamKey q" v _ v1] by (auto simp: GetConsumerGroups_def run_iff)
    show "db v' = db w"
    proof (cases r)
      case (Inl err)
      with rest db1 inv show ?thesis by simp
    next
      case (Inr groups)
      have "db v' = db v1"
        by (rule go_fold_invariant [where I = "\<lambda>xs k u. db u = db v1", OF _ rest [unfolded Inr sum.case]])
          (auto dest: cleanup_group_keeps [OF B])
      with db1 inv show ?thesis by simp
    qed
  qed simp
qed

end

text \<open>
  The cleanup of idle consumers loses nothing: as long as nobody else acts in between, it only removes
  consumers that have no message pending, so the data of the server (streams, pending lists, sets,
  counters and keys) is what it was.
\<close>

theorem cleanup_loses_nothing:
  assumes "redis_consumer E db clk" and "srv_broker S = redis_broker E cfg"
    and "cleanupDeadConsumers S idleThreshold w = (Ret n, w')"
  shows "db w' = db w"
  by (rule redis_consumer.cleanup_keeps [OF assms])

definition idle_mem :: mem where
  "idle_mem = empty_mem\<lparr>m_consumers := [((streamKey ''default'', ''workers''), ''old'', 7200000),
      ((streamKey ''default'', ''workers''), ''busy'', 7200000)],
     m_pel := [((streamKey ''default'', ''workers'', ''i''), ''busy'')]\<rparr>"

lemma demo_cleanup: "cleanupDeadConsumers demo_server (cleanup_threshold demo_server) idle_mem =
    (Ret 1, idle_mem\<lparr>m_consumers := [((streamKey ''default'', ''workers''), ''busy'', 7200000)]\<rparr>)"
  by (simp add: cleanupDeadConsumers_def cleanup_group_def cleanup_consumer_def GetConsumerGroups_def GetGroupConsumers_def RemoveConsumer_def
      list_or_error_def go_bind_assoc go_bind_lift_case mem_call_def idle_mem_def empty_mem_def mem_info_groups_def
      mem_info_consumers_def mem_pending_ids_def mem_del_consumer_def should_cleanup_def cleanup_threshold_def
      dur_def Minute_def Second_def Millisecond_def)

theorem cleanup_loses_nothing_witness:
  "mem_db (idle_mem\<lparr>m_consumers := [((streamKey ''default'', ''workers''), ''busy'', 7200000)]\<rparr>) = mem_db idle_mem"
  by (rule cleanup_loses_nothing [OF mem.redis_consumer_axioms demo_server_sel(1) demo_cleanup])

end
