(* ===== verification/Server_Recovery.thy ===== *)
theory Server_Recovery
  imports Server_Properties
begin

text \<open>
  Broker and server together: what a server that starts does with the messages that were delivered to it
  before and never acknowledged. \<open>recoverOwnPending\<close> hands each of them to \<open>processTask\<close>; when the
  services answer, it returns with all of them settled. \<open>steady_consumer\<close> adds to \<open>steady_redis\<close> that the
  commands of the recovery and reading a whole stream answer, and that the entries of a stream have different ids.
\<close>

section \<open>A Redis server that answers a consumer\<close>

locale steady_consumer = redis_consumer E db clk + steady_redis E db clk I
  for E :: "'w env" and db :: "'w \<Rightarrow> redis_db" and clk :: "'w \<Rightarrow> time" and I :: "'w \<Rightarrow> bool" +
  assumes command_steady: "I w \<Longrightarrow> command_do E c w = (re, w') \<Longrightarrow> re = None \<and> I w'"
    and read_steady: "I w \<Longrightarrow> x_read_group E g name [(k, ''0'')] n None w = (rr, w') \<Longrightarrow> (\<exists>res. rr = Inr res) \<and> I w'"
    and range_steady: "I w \<Longrightarrow> x_range E k w = (rm, w') \<Longrightarrow> (\<exists>ms. rm = Inr ms) \<and> I w'"
    and ids_unique: "I w \<Longrightarrow> distinct (map fst (streams (db w) k))"

interpretation mem_steady_consumer: steady_consumer mem_env mem_db m_now steady_mem
proof (unfold_locales, goal_cases)
  case (1 w c re w')
  then show ?case using mem_steady.pipe_steady [of w "[c]" re w'] by simp
next
  case (2 w g name k n rr w')
  then have "w\<lparr>m_faults := []\<rparr> = w" by (cases w) (simp add: steady_mem_def healthy_def)
  with 2 show ?case by (auto simp: mem_call_def steady_mem_def healthy_def)
next
  case (3 w k rm w')
  then have "w\<lparr>m_faults := []\<rparr> = w" by (cases w) (simp add: steady_mem_def healthy_def)
  with 3 show ?case by (auto simp: mem_call_def steady_mem_def healthy_def)
next
  case (4 w k)
  then show ?case by (simp add: steady_mem_def mem_db_streams)
qed

section \<open>What recovery leaves of a queue\<close>

text \<open>
  Some messages that were pending for the consumer \<open>c\<close> have gone from the stream and from the
  unacknowledged ones. A task that is new in the dead letter queue or in the retry set is the next
  attempt of one of them, in the dead letter queue exactly when it had none left.
\<close>

definition died_of :: "string set \<Rightarrow> queue_view \<Rightarrow> TaskProto \<Rightarrow> bool" where
  "died_of gone v u \<longleftrightarrow> (\<exists>i t e u'. (i, t) \<in> set (ready v) \<and> i \<in> gone \<and> gives_up t \<and>
     u = norm_task u' \<and> next_attempt TaskStateDead e t u')"

definition waits_of :: "string set \<Rightarrow> queue_view \<Rightarrow> bulk \<Rightarrow> bool" where
  "waits_of gone v m \<longleftrightarrow> (\<exists>i t e u. (i, t) \<in> set (ready v) \<and> i \<in> gone \<and> \<not> gives_up t \<and>
     m = JsonText (json_task u) \<and> next_attempt TaskStateRetry e t u)"

lemma of_mono: "gone \<subseteq> gone' \<Longrightarrow> died_of gone v u \<Longrightarrow> died_of gone' v u"
  "gone \<subseteq> gone' \<Longrightarrow> waits_of gone v m \<Longrightarrow> waits_of gone' v m"
  unfolding died_of_def waits_of_def by blast+

definition recovered_from :: "string set \<Rightarrow> queue_view \<Rightarrow> queue_view \<Rightarrow> bool" where
  "recovered_from gone v v' \<longleftrightarrow>
     ready v' = filter (\<lambda>e. fst e \<notin> gone) (ready v) \<and> unacked v' = unacked v |` (- gone) \<and> later v' = later v \<and>
     (\<exists>ds. dead v' = dead v @ ds \<and> (\<forall>e \<in> set ds. died_of gone v (snd e))) \<and>
     dom (retrying v) \<subseteq> dom (retrying v') \<and> (\<forall>m \<in> dom (retrying v'). m \<in> dom (retrying v) \<or> waits_of gone v m)"

definition recovered :: "string \<Rightarrow> queue_view \<Rightarrow> queue_view \<Rightarrow> bool" where
  "recovered c v v' \<longleftrightarrow> (\<exists>gone \<subseteq> pending_of c (unacked v). recovered_from gone v v')"

lemma recovered_from_refl: "recovered_from {} v v"
  by (auto simp: recovered_from_def)

lemma recovered_refl: "recovered c v v"
  unfolding recovered_def using recovered_from_refl by blast

text \<open>One message more: it is gone, and its task is done, dead or waiting.\<close>

lemma recovered_drop:
  assumes "recovered_from gone v v'"
  shows "recovered_from (insert i gone) v (drop_message i v')"
proof -
  have "filter (\<lambda>e. fst e \<noteq> i) (filter (\<lambda>e. fst e \<notin> gone) (ready v)) = filter (\<lambda>e. fst e \<notin> insert i gone) (ready v)"
    by (auto simp: filter_filter intro!: filter_cong)
  moreover have "(unacked v |` (- gone))(i := None) = unacked v |` (- insert i gone)"
    by (auto simp: fun_eq_iff restrict_map_def)
  moreover note mono = of_mono [OF subset_insertI [of gone i], of v]
  from assms obtain ds where "dead v' = dead v @ ds" and "\<forall>e \<in> set ds. died_of gone v (snd e)"
    unfolding recovered_from_def by blast
  then have "\<exists>ds. dead v' = dead v @ ds \<and> (\<forall>e \<in> set ds. died_of (insert i gone) v (snd e))" using mono(1) by blast
  moreover have "\<forall>m \<in> dom (retrying v'). m \<in> dom (retrying v) \<or> waits_of (insert i gone) v m"
    using assms mono(2) unfolding recovered_from_def by blast
  ultimately show ?thesis using assms
    unfolding recovered_from_def drop_message_def by simp
qed

lemma recovered_dead:
  assumes "recovered_from gone v v'" and "(i, t) \<in> set (ready v)" and "i \<in> gone" and "gives_up t"
    and "next_attempt TaskStateDead e t u"
  shows "recovered_from gone v (put_dead j (norm_task u) v')"
proof -
  have "died_of gone v (norm_task u)" using assms(2-5) unfolding died_of_def by blast
  with assms(1) show ?thesis unfolding recovered_from_def put_dead_def by auto
qed

lemma recovered_retry:
  assumes "recovered_from gone v v'" and "(i, t) \<in> set (ready v)" and "i \<in> gone" and "\<not> gives_up t"
    and "next_attempt TaskStateRetry e t u"
  shows "recovered_from gone v (put_retry (JsonText (json_task u)) s v')"
proof -
  have "waits_of gone v (JsonText (json_task u))" using assms(2-5) unfolding waits_of_def by blast
  with assms(1) show ?thesis unfolding recovered_from_def put_retry_def by auto
qed

lemma recovered_message:
  assumes rec: "\<And>q. recovered c (v0 q) (v q)" and t: "(i, t) \<in> set (ready (v0 (task_Queue t)))"
    and own: "i \<in> pending_of c (unacked (v0 (task_Queue t)))" and "message_settled i t r v v'"
  shows "recovered c (v0 q) (v' q)"
proof (cases "q = task_Queue t")
  case False
  with assms(4) rec [of q] show ?thesis by (auto simp: message_settled_def Let_def)
next
  case True
  from rec [of q] obtain gone where sub: "gone \<subseteq> pending_of c (unacked (v0 q))" and g: "recovered_from gone (v0 q) (v q)"
    unfolding recovered_def by blast
  let ?gone = "insert i gone"
  have sub': "?gone \<subseteq> pending_of c (unacked (v0 q))" using sub own True by simp
  note drop = recovered_drop [OF g, of i]
  from t True have t': "(i, t) \<in> set (ready (v0 q))" "i \<in> ?gone" by simp_all
  have "recovered_from ?gone (v0 q) (v' q)"
    using assms(4) drop recovered_dead [OF drop t'] recovered_retry [OF drop t'] True
    by (auto simp: message_settled_def Let_def)
  with sub' show ?thesis unfolding recovered_def by blast
qed

text \<open>A message that holds no task is acknowledged.\<close>

lemma recovered_skip:
  assumes "recovered c v v'" and "i \<in> pending_of c (unacked v)" and "i \<notin> fst ` set (ready v)"
  shows "recovered c v (v'\<lparr>unacked := (unacked v')(i := None)\<rparr>)"
proof -
  from assms(1) obtain gone where sub: "gone \<subseteq> pending_of c (unacked v)" and g: "recovered_from gone v v'"
    unfolding recovered_def by blast
  have "set (ready v') \<subseteq> set (ready v)" using g by (auto simp: recovered_from_def)
  with assms(3) have "i \<notin> fst ` set (ready v')" by blast
  then have "filter (\<lambda>e. fst e \<noteq> i) (ready v') = ready v'" by (force simp: filter_id_conv)
  then have "drop_message i v' = v'\<lparr>unacked := (unacked v')(i := None)\<rparr>" by (simp add: drop_message_def)
  with recovered_drop [OF g, of i] sub assms(2) show ?thesis unfolding recovered_def by (metis insert_subset)
qed


section \<open>Handling the pending messages\<close>

lemma own_pending_view: "own_pending cfg d q = pending_of (Consumer cfg) (unacked (view cfg d q))"
  by (simp add: own_pending_def pending_of_def view_def)

lemma pending_of_drop: "pending_of c (p(i := None)) = pending_of c p - {i}"
  by (auto simp: pending_of_def)

lemma settled_unacked:
  "message_settled i t r v v' \<Longrightarrow>
    unacked (v' q) = (if q = task_Queue t then (unacked (v q))(i := None) else unacked (v q))"
  by (auto simp: message_settled_def Let_def view_ops)

text \<open>What reading gives of a queue, as it was before the recovery.\<close>

definition of_queue :: "ConsumerConfig \<Rightarrow> (string \<Rightarrow> queue_view) \<Rightarrow> string \<Rightarrow> XMessage \<Rightarrow> bool" where
  "of_queue cfg v0 q msg \<longleftrightarrow> xm_ID msg \<in> pending_of (Consumer cfg) (unacked (v0 q)) \<and>
     (case message_task msg of
        None \<Rightarrow> xm_ID msg \<notin> fst ` set (ready (v0 q))
      | Some t \<Rightarrow> (xm_ID msg, t) \<in> set (ready (v0 q)))"

lemma tasks_of_mem: "(i, vs) \<in> set es \<Longrightarrow> message_task \<lparr>xm_ID = i, xm_Values = vs\<rparr> = Some t \<Longrightarrow> (i, t) \<in> set (tasks_of es)"
  by (induction es rule: tasks_of.induct) (auto split: option.splits)

lemma tasks_of_memD: "(i, t) \<in> set (tasks_of es) \<Longrightarrow> \<exists>vs. (i, vs) \<in> set es \<and> message_task \<lparr>xm_ID = i, xm_Values = vs\<rparr> = Some t"
  by (induction es rule: tasks_of.induct) (auto split: option.splits)

lemma message_task_id: "message_task \<lparr>xm_ID = i, xm_Values = vs\<rparr> = message_task \<lparr>xm_ID = j, xm_Values = vs\<rparr>"
  by (simp add: message_task_def)

lemma read_of_queue:
  assumes "distinct (map fst (streams d (streamKey q)))" and rec: "recovered (Consumer cfg) (v0 q) (view cfg d q)"
    and own: "pel d (streamKey q) (Group cfg) i = Some (Consumer cfg)"
    and vs: "vs = (case map_of (streams d (streamKey q)) i of None \<Rightarrow> [] | Some vs \<Rightarrow> vs)"
  shows "of_queue cfg v0 q \<lparr>xm_ID = i, xm_Values = vs\<rparr>"
proof -
  let ?m = "\<lparr>xm_ID = i, xm_Values = vs\<rparr>" and ?es = "streams d (streamKey q)"
  from rec obtain gone where sub: "gone \<subseteq> pending_of (Consumer cfg) (unacked (v0 q))"
    and g: "recovered_from gone (v0 q) (view cfg d q)" unfolding recovered_def by blast
  have now: "i \<in> pending_of (Consumer cfg) (unacked (view cfg d q))" using own by (simp add: pending_of_def view_def)
  with g have "i \<notin> gone" and was: "i \<in> pending_of (Consumer cfg) (unacked (v0 q))"
    by (auto simp: recovered_from_def pending_of_def restrict_map_def split: if_splits)
  with g have same: "(i, t) \<in> set (ready (v0 q)) \<longleftrightarrow> (i, t) \<in> set (tasks_of ?es)" for t
    by (auto simp: recovered_from_def view_def)
  show ?thesis
  proof (cases "message_task ?m")
    case (Some t)
    then have "map_of ?es i = Some vs" using vs by (cases "map_of ?es i") (simp_all add: message_task_def)
    then have "(i, t) \<in> set (tasks_of ?es)" using Some by (auto intro: tasks_of_mem map_of_SomeD)
    with was same Some show ?thesis by (simp add: of_queue_def)
  next
    case None
    have "(i, t) \<notin> set (tasks_of ?es)" for t
    proof
      assume "(i, t) \<in> set (tasks_of ?es)"
      then obtain us where us: "(i, us) \<in> set ?es" and task: "message_task \<lparr>xm_ID = i, xm_Values = us\<rparr> = Some t"
        using tasks_of_memD by blast
      with assms(1) have "us = vs" using vs by simp
      with task None show False by simp
    qed
    with was same None show ?thesis by (force simp: of_queue_def)
  qed
qed

context steady_consumer
begin

lemma unreadable_runs:
  assumes "message_task msg = None" and "I w"
  shows "\<exists>r w'. processMessage E cfg h q msg w = (Ret r, w') \<and> I w' \<and> view cfg (db w') = (view cfg (db w))
    (q := (view cfg (db w) q)\<lparr>unacked := (unacked (view cfg (db w) q))(xm_ID msg := None)\<rparr>)"
proof -
  let ?c = "XAck (streamKey q) (Group cfg) (xm_ID msg)"
  obtain re w1 where run: "command_do E ?c w = (re, w1)" by (cases "command_do E ?c w")
  with command_steady [OF assms(2) run] have "re = None" and I1: "I w1" by simp_all
  with do_ok run have "command_step ?c (db w) (db w1)" by blast
  then have "view cfg (db w1) = (view cfg (db w))
      (q := (view cfg (db w) q)\<lparr>unacked := (unacked (view cfg (db w) q))(xm_ID msg := None)\<rparr>)"
    by (auto simp: command_step_simps db_simps view_def fun_eq_iff)
  moreover from assms(1) run have "\<exists>r. processMessage E cfg h q msg w = (Ret r, w1)"
    by (auto simp: processMessage_def message_task_def go_bind_lift split: option.splits sum.splits)
  ultimately show ?thesis using I1 by blast
qed

lemma read_settled:
  assumes "I w" and rec: "\<And>q. recovered (Consumer cfg) (v0 q) (view cfg (db w) q)"
    and read: "x_read_group E (Group cfg) (Consumer cfg) [(streamKey q, ''0'')] n None w = (res, w')"
  shows "I w' \<and> (\<forall>q. recovered (Consumer cfg) (v0 q) (view cfg (db w') q)) \<and>
    (\<forall>k ms. res = Inr [(k, ms)] \<longrightarrow> list_all (of_queue cfg v0 q) ms)"
proof -
  from read_steady [OF assms(1) read] obtain out where out: "res = Inr out" and "I w'" by blast
  from read_pending_ok [OF read [unfolded out]] obtain ms where "db w' = db w" and ms: "out = [(streamKey q, ms)]"
    and ok: "read_pending_ok (streamKey q) (Group cfg) (Consumer cfg) (db w) ms" by blast
  have "of_queue cfg v0 q m" if "m \<in> set ms" for m
  proof -
    from ok that have "pel (db w) (streamKey q) (Group cfg) (xm_ID m) = Some (Consumer cfg)"
      and "xm_Values m = (case map_of (streams (db w) (streamKey q)) (xm_ID m) of None \<Rightarrow> [] | Some vs \<Rightarrow> vs)"
      by (simp_all add: read_pending_ok_def)
    with read_of_queue [of "db w" q cfg v0 "xm_ID m" "xm_Values m"] ids_unique [OF assms(1)] rec show ?thesis
      by (cases m) simp
  qed
  with out ms \<open>I w'\<close> \<open>db w' = db w\<close> rec show ?thesis by (auto simp: list_all_iff)
qed

end

text \<open>The server's handler settles everything that can be read.\<close>

lemma processTask_settles_all:
  assumes S: "steady_server S (\<lambda>w. view cfg (db w)) bnow now I" and B: "srv_broker S = redis_broker E cfg"
    and C: "steady_consumer E db clk I"
    and placed: "\<And>q i t. (i, t) \<in> set (ready (v0 q)) \<Longrightarrow> task_Queue t = q \<and> i \<noteq> ''''"
  shows "settles db E cfg (processTask now big S)
    (\<lambda>w. I w \<and> (\<forall>q. recovered (Consumer cfg) (v0 q) (view cfg (db w) q))) (of_queue cfg v0)"
  unfolding settles_def
proof (rule conjI; intro allI impI)
  fix q msg w
  assume w: "I w \<and> (\<forall>q. recovered (Consumer cfg) (v0 q) (view cfg (db w) q))" and msg: "of_queue cfg v0 q msg"
  show "\<exists>e w'. processMessage E cfg (processTask now big S) q msg w = (Ret e, w') \<and>
     (I w' \<and> (\<forall>q. recovered (Consumer cfg) (v0 q) (view cfg (db w') q))) \<and>
     xm_ID msg \<notin> own_pending cfg (db w') q \<and> (\<forall>q'. own_pending cfg (db w') q' \<subseteq> own_pending cfg (db w) q')"
  proof (cases "message_task msg")
    case None
    with msg have own: "xm_ID msg \<in> pending_of (Consumer cfg) (unacked (v0 q))" "xm_ID msg \<notin> fst ` set (ready (v0 q))"
      by (simp_all add: of_queue_def)
    from w steady_consumer.unreadable_runs [OF C None, of w cfg "processTask now big S" q] obtain r w' where
      "processMessage E cfg (processTask now big S) q msg w = (Ret r, w')" and "I w'" and v: "view cfg (db w') =
        (view cfg (db w))(q := (view cfg (db w) q)\<lparr>unacked := (unacked (view cfg (db w) q))(xm_ID msg := None)\<rparr>)"
      by blast
    moreover have "recovered (Consumer cfg) (v0 q') (view cfg (db w') q')" for q'
      using recovered_skip [OF _ own] w v by simp
    ultimately show ?thesis by (auto simp: own_pending_view pending_of_drop)
  next
    case (Some t)
    with msg have own: "xm_ID msg \<in> pending_of (Consumer cfg) (unacked (v0 q))" and t: "(xm_ID msg, t) \<in> set (ready (v0 q))"
      by (simp_all add: of_queue_def)
    from placed [OF t] have q: "task_Queue t = q" and i: "xm_ID msg \<noteq> ''''" by simp_all
    from w steady_server.processMessage_settles [OF S B _ Some i, of w big] q obtain r w' where
      run: "processMessage E cfg (processTask now big S) q msg w = (Ret r, w')" and "I w'"
      and set: "message_settled (xm_ID msg) t r (view cfg (db w)) (view cfg (db w'))" by blast
    moreover have "recovered (Consumer cfg) (v0 q') (view cfg (db w') q')" for q'
      using recovered_message [OF _ _ _ set, of "Consumer cfg" v0 q'] w own t q by simp
    ultimately show ?thesis using settled_unacked [OF set] q by (auto simp: own_pending_view pending_of_drop)
  qed
next
  fix q w r w'
  assume "I w \<and> (\<forall>q. recovered (Consumer cfg) (v0 q) (view cfg (db w) q))"
    and "x_read_group E (Group cfg) (Consumer cfg) [(streamKey q, ''0'')] (BatchSize cfg) None w = (r, w')"
  then show "(I w' \<and> (\<forall>q. recovered (Consumer cfg) (v0 q) (view cfg (db w') q))) \<and>
      (\<forall>k ms. r = Inr [(k, ms)] \<longrightarrow> list_all (of_queue cfg v0 q) ms)"
    using steady_consumer.read_settled [OF C] by blast
qed


lemma recovered_all:
  assumes "recovered c v v'" and "pending_of c (unacked v') = {}"
  shows "recovered_from (pending_of c (unacked v)) v v'"
    and "ready v' = filter (\<lambda>e. unacked v (fst e) \<noteq> Some c) (ready v)"
proof -
  from assms(1) obtain gone where sub: "gone \<subseteq> pending_of c (unacked v)" and g: "recovered_from gone v v'"
    unfolding recovered_def by blast
  have "i \<in> gone" if "i \<in> pending_of c (unacked v)" for i
  proof (rule ccontr)
    assume "i \<notin> gone"
    with g that have "i \<in> pending_of c (unacked v')" by (simp add: recovered_from_def pending_of_def)
    with assms(2) show False by simp
  qed
  with sub have "gone = pending_of c (unacked v)" by blast
  with g show "recovered_from (pending_of c (unacked v)) v v'" by simp
  then show "ready v' = filter (\<lambda>e. unacked v (fst e) \<noteq> Some c) (ready v)"
    by (simp add: recovered_from_def pending_of_def)
qed

text \<open>
  C3. When the services answer, the handlers return or panic and leave the queues and their task alone, and
  every task is in the stream of its own queue, a server that starts finishes the recovery of the
  messages that were pending for it without an error, with one turn more than there are messages in the
  fullest queue. In each of its queues exactly those messages have left the stream and the
  unacknowledged ones, the other ready tasks are there in their order, the scheduled tasks are the same,
  nothing has left the dead letter queue or the retry set, and what is new in these is the next attempt of
  one of the messages: dead exactly when it had no attempt left.
\<close>

theorem server_recovers_pending:
  assumes "steady_server S (\<lambda>w. view cfg (db w)) bnow now I" and "srv_broker S = redis_broker E cfg"
    and "steady_consumer E db clk I" and "I w"
    and "\<And>q i t. (i, t) \<in> set (ready (view cfg (db w) q)) \<Longrightarrow> task_Queue t = q \<and> i \<noteq> ''''"
    and "\<forall>q \<in> set queues. finite (own_pending cfg (db w) q) \<and> card (own_pending cfg (db w) q) < fuel"
  shows "\<exists>w'. recoverOwnPending fuel E cfg (processTask now big S) queues w = (Ret (Some None), w') \<and>
    (\<forall>q \<in> set queues. let v = view cfg (db w) q; v' = view cfg (db w') q in
       recovered_from (pending_of (Consumer cfg) (unacked v)) v v' \<and>
       ready v' = filter (\<lambda>e. unacked v (fst e) \<noteq> Some (Consumer cfg)) (ready v))"
proof -
  let ?I = "\<lambda>x. I x \<and> (\<forall>q. recovered (Consumer cfg) (view cfg (db w) q) (view cfg (db x) q))"
  have "settles db E cfg (processTask now big S) ?I (of_queue cfg (view cfg (db w)))"
    by (rule processTask_settles_all [OF assms(1,2,3,5)])
  moreover have "?I w" using assms(4) recovered_refl by blast
  ultimately obtain r w' where
    run: "recoverOwnPending fuel E cfg (processTask now big S) queues w = (Ret (Some r), w')" and "?I w'"
    and empty: "r = None \<longrightarrow> (\<forall>q \<in> set queues. own_pending cfg (db w') q = {})"
    and fails: "\<forall>err. r = Some err \<longrightarrow> read_fails E cfg ?I err"
    using redis_consumer.recoverOwnPending_drains [OF steady_consumer.axioms(1) [OF assms(3)] _ _ assms(6)] by blast
  have "\<not> read_fails E cfg ?I err" for err
    using steady_consumer.read_steady [OF assms(3)] unfolding read_fails_def by blast
  with fails have "r = None" by (cases r) auto
  with run empty \<open>?I w'\<close> show ?thesis
    using recovered_all [of "Consumer cfg"] by (auto simp: Let_def own_pending_view)
qed

lemma pending_mem_steady: "steady_mem pending_mem"
  by (simp add: steady_mem_def healthy_def pending_mem_def empty_mem_def time_printable_def unix_def Second_def)

lemma pending_mem_ready: "ready (view DefaultConsumerConfig (mem_db pending_mem) q) =
    (if q = ''critical'' then [(''i'', norm_task demo_task)] else [])"
  by (simp add: view_def pending_mem_def mem_db_streams [symmetric] message_task_def demo_task_reads)

theorem server_recovers_pending_witness:
  "\<exists>w'. recoverOwnPending 2 mem_env DefaultConsumerConfig (processTask (clock mem_env) 0 demo_server) [''critical''] pending_mem =
      (Ret (Some None), w') \<and> ready (view DefaultConsumerConfig (mem_db w') ''critical'') = []"
proof -
  have "(i, t) \<in> set (ready (view DefaultConsumerConfig (mem_db pending_mem) q)) \<Longrightarrow> task_Queue t = q \<and> i \<noteq> ''''" for q i t
    by (auto simp: pending_mem_ready norm_task_def demo_task_def task_Queue_def zero_options_def norm_options_def split: if_splits)
  moreover have "unacked (view DefaultConsumerConfig (mem_db pending_mem) ''critical'') ''i'' = Some (Consumer DefaultConsumerConfig)"
    by (simp add: view_def pending_mem_def mem_db_def)
  ultimately show ?thesis
    using server_recovers_pending [OF mem_server.steady_server_axioms demo_server_sel(1) mem_steady_consumer.steady_consumer_axioms
        pending_mem_steady, of "[''critical'']" 2 0]
    by (auto simp: pending_mem_own pending_mem_ready Let_def)
qed

end
