(* ===== verification/Server_Loops.thy ===== *)
theory Server_Loops
  imports Server_Core Broker_Consumer
begin

text \<open>
  The goroutines that wait for a ticker: \<open>runScheduler\<close> and \<open>runConsumerCleanup\<close> of \<^verbatim>\<open>server.go\<close> and
  \<open>backgroundClaimer\<close> of \<^verbatim>\<open>broker/redis/redis.go\<close>. What their select wakes up for is an input: a list of ticks,
  up to the end of the context. The value of a loop is for the list so far, so that what holds for every list
  holds at every moment of a loop that has not ended.
\<close>

section \<open>Tickers\<close>

datatype loop_event = Tick | ContextDone

text \<open>\<open>time.NewTicker\<close> panics for an interval that is not positive.\<close>

definition new_ticker :: "duration \<Rightarrow> ('w, unit) go" where
  "new_ticker d = (if 0 < sint d then go_return () else go_panic ''non-positive interval for NewTicker'')"

fun on_ticks :: "('s \<Rightarrow> ('w, 's) go) \<Rightarrow> loop_event list \<Rightarrow> 's \<Rightarrow> ('w, 's) go" where
  "on_ticks body [] s = go_return s"
| "on_ticks body (ContextDone # es) s = go_return s"
| "on_ticks body (Tick # es) s = go_bind (body s) (on_ticks body es)"

text \<open>The ticks that the loop sees.\<close>

fun ticks :: "loop_event list \<Rightarrow> nat" where
  "ticks [] = 0"
| "ticks (ContextDone # es) = 0"
| "ticks (Tick # es) = Suc (ticks es)"

section \<open>The loops\<close>

definition runScheduler :: "('w \<Rightarrow> time \<times> 'w) \<Rightarrow> 'w Server \<Rightarrow> loop_event list \<Rightarrow> ('w, unit) go" where
  "runScheduler now s es =
     go_bind (new_ticker (srv_schedulerInterval s)) (\<lambda>_. on_ticks (\<lambda>_. scheduler_tick now s) es ())"

definition runConsumerCleanup :: "'w Server \<Rightarrow> loop_event list \<Rightarrow> ('w, unit) go" where
  "runConsumerCleanup s es =
     go_bind (new_ticker (cleanup_interval s)) (\<lambda>_.
       on_ticks (\<lambda>_. go_bind (cleanupDeadConsumers s (cleanup_threshold s)) (\<lambda>removed. go_return ())) es ())"

text \<open>The value says whether the fuel was enough for every claim.\<close>

definition backgroundClaimer ::
  "nat \<Rightarrow> 'w env \<Rightarrow> ConsumerConfig \<Rightarrow> 'w task_handler \<Rightarrow> string list \<Rightarrow> loop_event list \<Rightarrow> ('w, bool) go" where
  "backgroundClaimer fuel E cfg handler queues es =
     go_bind (new_ticker (ClaimCheckInterval cfg)) (\<lambda>_.
       on_ticks (\<lambda>ok. go_bind (claimer_tick fuel E cfg handler queues) (\<lambda>r. go_return (ok \<and> r))) es True)"

section \<open>Runs\<close>

lemma new_ticker_runs: "0 < sint d \<Longrightarrow> go_bind (new_ticker d) f = f ()"
  by (simp add: new_ticker_def)

text \<open>What every tick keeps holds at every moment, and a tick that returns keeps the loop alive.\<close>

lemma on_ticks_keeps:
  assumes "\<And>s w. P w \<Longrightarrow> \<exists>s' w'. body s w = (Ret s', w') \<and> P w'" and "P w"
  shows "\<exists>s' w'. on_ticks body es s w = (Ret s', w') \<and> P w'"
  using assms(2)
proof (induction es arbitrary: s w)
  case Nil
  then show ?case by (simp add: go_return_def)
next
  case (Cons e es)
  show ?case
  proof (cases e)
    case Tick
    obtain s1 w1 where "body s w = (Ret s1, w1)" "P w1" using assms(1) Cons.prems by blast
    with Cons.IH [of w1 s1] Tick show ?thesis by (simp add: go_bind_Ret)
  next
    case ContextDone
    with Cons.prems show ?thesis by (simp add: go_return_def)
  qed
qed

text \<open>The interval of the cleanup is not checked: a negative one ends the process.\<close>

lemma negative_interval_panics:
  "sint (srv_cleanupInterval s) < 0 \<Longrightarrow> runConsumerCleanup s es w = (Panic ''non-positive interval for NewTicker'', w)"
  by (auto simp: runConsumerCleanup_def cleanup_interval_def new_ticker_def go_bind_def go_panic_def)

end
