(* ===== verification/Server_Claims.thy ===== *)
theory Server_Claims
  imports Server_Recovery Server_Loops
begin

text \<open>
  Broker and servers together: what the claiming goroutine of a running server does with the messages that
  were delivered to any consumer of the group and never acknowledged. \<open>steady_claimer\<close> adds to
  \<open>steady_consumer\<close> that \<open>XAUTOCLAIM\<close> answers and when it may answer with nothing. A claim changes the owner of
  a message; when the claimed batch has been handled, the messages have either gone or are owned as before.
\<close>

section \<open>A Redis server that answers XAUTOCLAIM\<close>

text \<open>
  \<open>lost k\<close> are messages of the stream \<open>k\<close> whose consumer has been gone for longer than \<open>after\<close>. \<open>XAUTOCLAIM\<close> looks
  at the first \<open>10 * COUNT\<close> pending entries of the group: when there are no more than these, its answer is
  empty only if none of the lost messages is both pending and in the stream.
\<close>

locale steady_claimer = steady_consumer E db clk I
  for E :: "'w env" and db :: "'w \<Rightarrow> redis_db" and clk :: "'w \<Rightarrow> time" and I :: "'w \<Rightarrow> bool" +
  fixes lost :: "string \<Rightarrow> string set" and after :: duration
  assumes claim_steady: "I w \<Longrightarrow> x_auto_claim E k g c idle start n w = (rc, w') \<Longrightarrow> (\<exists>ms. rc = Inr ms) \<and> I w'"
    and claim_reaches: "I w \<Longrightarrow> x_auto_claim E k g c after ''0'' n w = (Inr [], w') \<Longrightarrow> 0 < n \<Longrightarrow>
      int (card (dom (pel (db w) k g))) \<le> 10 * n \<Longrightarrow> i \<in> lost k \<Longrightarrow> i \<in> fst ` set (streams (db w) k) \<Longrightarrow>
      pel (db w) k g i = None"

lemma mem_claim_streams: "snd (mem_claim k g c n m) = m\<lparr>m_pel := m_pel (snd (mem_claim k g c n m))\<rparr>"
  by (simp add: mem_claim_def Let_def)

lemma mem_claim_nothing:
  assumes "fst (mem_claim k g c n m) = []" and "0 < n" and "i \<in> fst ` set (m_streams m k)"
  shows "pel (mem_db m) k g i = None"
proof -
  from assms(1,2) have "filter (\<lambda>i. map_of (m_streams m k) i \<noteq> None) (mem_pending_ids k g m) = []"
    by (simp add: mem_claim_def Let_def)
  moreover have "map_of (m_streams m k) i \<noteq> None" using assms(3) by (simp add: map_of_eq_None_iff)
  ultimately have "i \<notin> set (mem_pending_ids k g m)" by (auto simp: filter_empty_conv)
  with mem_pending_ids_dom [of k g m] show ?thesis by blast
qed

interpretation mem_steady_claimer: steady_claimer mem_env mem_db m_now steady_mem lost after for lost after
proof (unfold_locales, goal_cases)
  case (1 w k g c idle start n rc w')
  then have "w\<lparr>m_faults := []\<rparr> = w" and "m_faults w = []" by (cases w; simp add: steady_mem_def healthy_def)+
  with 1 obtain ms where "rc = Inr ms" and run: "mem_claim k g c n w = (ms, w')" by (auto simp: mem_call_def split: prod.splits)
  moreover have "w' = w\<lparr>m_pel := m_pel w'\<rparr>" using mem_claim_streams [of k g c n w] run by simp
  then have "m_faults w' = m_faults w \<and> m_now w' = m_now w \<and> m_streams w' = m_streams w" by (metis mem.ext_inject mem.surjective mem.update_convs)
  ultimately show ?case using 1(1) by (simp add: steady_mem_def healthy_def)
next
  case (2 w k g c n w' i)
  then have "w\<lparr>m_faults := []\<rparr> = w" and "m_faults w = []" by (cases w; simp add: steady_mem_def healthy_def)+
  with 2(2) have "fst (mem_claim k g c n w) = []" by (auto simp: mem_call_def split: prod.splits)
  with 2(3,6) show ?case by (simp add: mem_claim_nothing mem_db_streams)
qed

section \<open>Claiming ends\<close>

text \<open>Messages have gone, and what is still pending is owned as before.\<close>

definition shrinks :: "ConsumerConfig \<Rightarrow> redis_db \<Rightarrow> redis_db \<Rightarrow> bool" where
  "shrinks cfg d d' \<longleftrightarrow> (\<forall>q. unacked (view cfg d' q) \<subseteq>\<^sub>m unacked (view cfg d q) \<and>
     set (ready (view cfg d' q)) \<subseteq> set (ready (view cfg d q)))"

lemma shrinks_refl: "shrinks cfg d d"
  by (simp add: shrinks_def)

lemma shrinks_trans: "shrinks cfg d d1 \<Longrightarrow> shrinks cfg d1 d2 \<Longrightarrow> shrinks cfg d d2"
  unfolding shrinks_def by (meson map_le_trans subset_trans)

lemma shrinks_dom: "shrinks cfg d d' \<Longrightarrow> dom (unacked (view cfg d' q)) \<subseteq> dom (unacked (view cfg d q))"
  unfolding shrinks_def by (meson map_le_implies_dom_le)

text \<open>The pending messages of a queue are few enough for a fuel, or for one scan of a claim.\<close>

definition fewer_pending :: "ConsumerConfig \<Rightarrow> redis_db \<Rightarrow> string \<Rightarrow> nat \<Rightarrow> bool" where
  "fewer_pending cfg d q n \<longleftrightarrow> finite (dom (unacked (view cfg d q))) \<and> card (dom (unacked (view cfg d q))) < n"

definition scan_limit :: "ConsumerConfig \<Rightarrow> nat" where
  "scan_limit cfg = Suc (nat (10 * BatchSize cfg))"

lemma fewer_pending_shrinks: "shrinks cfg d d' \<Longrightarrow> fewer_pending cfg d q n \<Longrightarrow> fewer_pending cfg d' q n"
  unfolding fewer_pending_def by (meson card_mono finite_subset le_less_trans shrinks_dom)

text \<open>None of the messages is both pending and a task of the queue.\<close>

definition none_left :: "ConsumerConfig \<Rightarrow> (string \<Rightarrow> string set) \<Rightarrow> redis_db \<Rightarrow> string \<Rightarrow> bool" where
  "none_left cfg lost d q \<longleftrightarrow>
     lost (streamKey q) \<inter> dom (unacked (view cfg d q)) \<inter> fst ` set (ready (view cfg d q)) = {}"

lemma none_left_shrinks: "shrinks cfg d d' \<Longrightarrow> none_left cfg lost d q \<Longrightarrow> none_left cfg lost d' q"
  unfolding none_left_def shrinks_def by (blast dest: map_le_implies_dom_le)

text \<open>
  In the worlds \<open>I\<close> the handler settles the messages \<open>P\<close> of any consumer, and what a claim gives is such
  messages only.
\<close>

definition claims_settled ::
  "('w \<Rightarrow> redis_db) \<Rightarrow> 'w env \<Rightarrow> ConsumerConfig \<Rightarrow> 'w task_handler \<Rightarrow> ('w \<Rightarrow> bool) \<Rightarrow> (string \<Rightarrow> XMessage \<Rightarrow> bool) \<Rightarrow> bool" where
  "claims_settled db E cfg h I P \<longleftrightarrow>
     (\<forall>q msg w. I w \<longrightarrow> P q msg \<longrightarrow> (\<exists>e w'. processMessage E cfg h q msg w = (Ret e, w') \<and> I w' \<and>
        xm_ID msg \<notin> dom (unacked (view cfg (db w') q)) \<and> shrinks cfg (db w) (db w'))) \<and>
     (\<forall>q w r w'. I w \<longrightarrow> x_auto_claim E (streamKey q) (Group cfg) (Consumer cfg) (ClaimStaleAfter cfg) ''0'' (BatchSize cfg) w = (r, w')
        \<longrightarrow> I w' \<and> (\<exists>ms. r = Inr ms \<and> list_all (P q) ms))"

lemma process_messages_claimed:
  assumes "claims_settled db E cfg h I P" and "I w" and "list_all (P q) msgs"
  shows "\<exists>w'. process_messages E cfg h q msgs w = (Ret (), w') \<and> I w' \<and> shrinks cfg (db w) (db w') \<and>
    dom (unacked (view cfg (db w') q)) \<inter> xm_ID ` set msgs = {}"
  using assms(2,3)
proof (induction msgs arbitrary: w)
  case Nil
  then show ?case by (simp add: process_messages_def shrinks_refl)
next
  case (Cons msg msgs)
  from Cons.prems have "I w" and "P q msg" and rest: "list_all (P q) msgs" by simp_all
  with assms(1) obtain e w1 where run: "processMessage E cfg h q msg w = (Ret e, w1)" and I: "I w1"
    and out: "xm_ID msg \<notin> dom (unacked (view cfg (db w1) q))" and s: "shrinks cfg (db w) (db w1)"
    unfolding claims_settled_def by blast
  from Cons.IH [OF I rest] obtain w' where "process_messages E cfg h q msgs w1 = (Ret (), w')" and "I w'"
    and s': "shrinks cfg (db w1) (db w')" and rest_out: "dom (unacked (view cfg (db w') q)) \<inter> xm_ID ` set msgs = {}" by blast
  moreover from this(1) have "process_messages E cfg h q (msg # msgs) w = (Ret (), w')"
    by (simp add: process_messages_def go_bind_def run)
  moreover have "xm_ID msg \<notin> dom (unacked (view cfg (db w') q))" using shrinks_dom [OF s'] out by blast
  ultimately show ?case using shrinks_trans [OF s s'] by auto
qed

text \<open>Claiming a batch and handling all of it.\<close>

lemma claim_view:
  assumes "claim_ok (streamKey q) (Group cfg) c d ms d'"
  shows "ready (view cfg d' q') = ready (view cfg d q')"
    and "q' \<noteq> q \<Longrightarrow> view cfg d' q' = view cfg d q'"
    and "later (view cfg d' q') = later (view cfg d q')" and "dead (view cfg d' q') = dead (view cfg d q')"
    and "retrying (view cfg d' q') = retrying (view cfg d q')"
    and "\<exists>gone. gone \<inter> fst ` set (streams d (streamKey q)) = {} \<and> unacked (view cfg d' q) =
      (\<lambda>i. if i \<in> xm_ID ` set ms then Some c else if i \<in> gone then None else unacked (view cfg d q) i)"
proof -
  from assms obtain gone where gone: "\<forall>i \<in> gone. i \<notin> fst ` set (streams d (streamKey q))" and
    d': "d' = d\<lparr>pel := (pel d)(streamKey q := (pel d (streamKey q))(Group cfg := (\<lambda>i.
      if i \<in> xm_ID ` set ms then Some c else if i \<in> gone then None else pel d (streamKey q) (Group cfg) i)))\<rparr>"
    unfolding claim_ok_def by blast
  show "ready (view cfg d' q') = ready (view cfg d q')" and "later (view cfg d' q') = later (view cfg d q')"
    and "dead (view cfg d' q') = dead (view cfg d q')" and "retrying (view cfg d' q') = retrying (view cfg d q')"
    by (simp_all add: d' view_def)
  show "q' \<noteq> q \<Longrightarrow> view cfg d' q' = view cfg d q'" by (simp add: d' view_def streamKey_def)
  show "\<exists>gone. gone \<inter> fst ` set (streams d (streamKey q)) = {} \<and> unacked (view cfg d' q) =
      (\<lambda>i. if i \<in> xm_ID ` set ms then Some c else if i \<in> gone then None else unacked (view cfg d q) i)"
    by (rule exI [of _ gone]) (use gone in \<open>auto simp: d' view_def fun_eq_iff\<close>)
qed

lemma claim_shrinks:
  assumes c: "claim_ok (streamKey q) (Group cfg) c d ms d1" and s: "shrinks cfg d1 d2"
    and out: "dom (unacked (view cfg d2 q)) \<inter> xm_ID ` set ms = {}"
  shows "shrinks cfg d d2"
proof -
  have "unacked (view cfg d2 q') \<subseteq>\<^sub>m unacked (view cfg d q')" for q'
  proof (cases "q' = q")
    case False
    then have "view cfg d1 q' = view cfg d q'" by (rule claim_view(2) [OF c])
    with s show ?thesis unfolding shrinks_def by metis
  next
    case True
    obtain gone where u: "unacked (view cfg d1 q) =
      (\<lambda>i. if i \<in> xm_ID ` set ms then Some c else if i \<in> gone then None else unacked (view cfg d q) i)"
      using claim_view(6) [OF c] by blast
    have "unacked (view cfg d2 q) i = unacked (view cfg d q) i" if "i \<in> dom (unacked (view cfg d2 q))" for i
    proof -
      have "unacked (view cfg d2 q) i = unacked (view cfg d1 q) i"
        using s that unfolding shrinks_def map_le_def by blast
      moreover have "i \<notin> xm_ID ` set ms" using that out by blast
      ultimately show ?thesis using that u by (auto split: if_splits)
    qed
    with True show ?thesis by (simp add: map_le_def)
  qed
  with s claim_view(1) [OF c] show ?thesis by (simp add: shrinks_def)
qed

context steady_claimer
begin

text \<open>
  The claims of a queue end: every turn but the last takes a message from the pending ones. When the scan
  reaches all of them, the lost messages of the queue have been handled.
\<close>

lemma claimStale_ends:
  assumes settle: "claims_settled db E cfg h J P" and J: "\<And>w. J w \<Longrightarrow> I w"
    and cfg: "ClaimStaleAfter cfg = after" "0 < BatchSize cfg"
  shows "J w \<Longrightarrow> fewer_pending cfg (db w) q fuel \<Longrightarrow>
    \<exists>w'. claimStale fuel E cfg h q w = (Ret (Some None), w') \<and> J w' \<and> shrinks cfg (db w) (db w') \<and>
      (fewer_pending cfg (db w) q (scan_limit cfg) \<longrightarrow> none_left cfg lost (db w') q)"
proof (induction fuel arbitrary: w)
  case 0
  then show ?case by (simp add: fewer_pending_def)
next
  case (Suc fuel)
  let ?claim = "x_auto_claim E (streamKey q) (Group cfg) (Consumer cfg) (ClaimStaleAfter cfg) ''0'' (BatchSize cfg)"
  obtain r w1 where claim: "?claim w = (r, w1)" by (cases "?claim w")
  with settle Suc.prems(1) obtain ms where J1: "J w1" and r: "r = Inr ms" and P: "list_all (P q) ms"
    unfolding claims_settled_def by blast
  have ok: "claim_ok (streamKey q) (Group cfg) (Consumer cfg) (db w) ms (db w1)"
    using claim_ok claim r by blast
  obtain w2 where run: "process_messages E cfg h q ms w1 = (Ret (), w2)" and J2: "J w2" and s12: "shrinks cfg (db w1) (db w2)"
    and out: "dom (unacked (view cfg (db w2) q)) \<inter> xm_ID ` set ms = {}"
    using process_messages_claimed [OF settle J1 P] by blast
  note s = claim_shrinks [OF ok s12 out]
  show ?case
  proof (cases "ms = []")
    case True
    have s1: "shrinks cfg (db w) (db w1)" using claim_shrinks [OF ok shrinks_refl] True by simp
    have "none_left cfg lost (db w1) q" if "fewer_pending cfg (db w) q (scan_limit cfg)"
    proof -
      from that have "card (dom (pel (db w) (streamKey q) (Group cfg))) \<le> nat (10 * BatchSize cfg)"
        by (simp add: fewer_pending_def scan_limit_def view_def)
      with cfg(2) have few: "int (card (dom (pel (db w) (streamKey q) (Group cfg)))) \<le> 10 * BatchSize cfg" by simp
      have "i \<notin> dom (unacked (view cfg (db w) q))" if "i \<in> lost (streamKey q)" and "i \<in> fst ` set (ready (view cfg (db w) q))" for i
      proof -
        from that(2) obtain t where "(i, t) \<in> set (tasks_of (streams (db w) (streamKey q)))" by (auto simp: view_def)
        then have "i \<in> fst ` set (streams (db w) (streamKey q))" by (force dest: tasks_of_memD)
        then have "pel (db w) (streamKey q) (Group cfg) i = None"
          using claim_reaches [OF J [OF Suc.prems(1)], of "streamKey q" "Group cfg" "Consumer cfg" "BatchSize cfg" w1 i]
            claim r True that(1) cfg few by simp
        then show ?thesis by (simp add: view_def domIff)
      qed
      then have "none_left cfg lost (db w) q" unfolding none_left_def disjoint_iff Int_iff by meson
      with s1 show ?thesis by (rule none_left_shrinks)
    qed
    with True r claim J1 s1 show ?thesis by (simp add: go_bind_lift)
  next
    case False
    then obtain m where m: "m \<in> set ms" by (cases ms) auto
    with ok have "xm_ID m \<in> dom (unacked (view cfg (db w) q))" by (auto simp: claim_ok_def view_def)
    moreover have "xm_ID m \<notin> dom (unacked (view cfg (db w2) q))" using m out by blast
    ultimately have less: "dom (unacked (view cfg (db w2) q)) \<subset> dom (unacked (view cfg (db w) q))"
      using shrinks_dom [OF s, of q] by blast
    have fin: "finite (dom (unacked (view cfg (db w) q)))" using Suc.prems(2) by (simp add: fewer_pending_def)
    then have "finite (dom (unacked (view cfg (db w2) q)))" using less by (rule rev_finite_subset [OF _ psubset_imp_subset])
    with psubset_card_mono [OF fin less] Suc.prems(2) have "fewer_pending cfg (db w2) q fuel"
      by (simp add: fewer_pending_def)
    from Suc.IH [OF J2 this] obtain w' where rec: "claimStale fuel E cfg h q w2 = (Ret (Some None), w')" and "J w'"
      and s': "shrinks cfg (db w2) (db w')"
      and left: "fewer_pending cfg (db w2) q (scan_limit cfg) \<longrightarrow> none_left cfg lost (db w') q" by blast
    moreover have "claimStale (Suc fuel) E cfg h q w = (Ret (Some None), w')"
      using False r rec by (simp add: go_bind_lift claim go_bind_Ret run)
    ultimately show ?thesis using shrinks_trans [OF s s'] fewer_pending_shrinks [OF s] by blast
  qed
qed

text \<open>The lost messages of a queue that a scan reaches.\<close>

abbreviation reached :: "ConsumerConfig \<Rightarrow> redis_db \<Rightarrow> redis_db \<Rightarrow> string \<Rightarrow> bool" where
  "reached cfg d d' q \<equiv> fewer_pending cfg d q (scan_limit cfg) \<longrightarrow> none_left cfg lost d' q"

lemma claimer_tick_ends:
  assumes settle: "claims_settled db E cfg h J P" and J: "\<And>w. J w \<Longrightarrow> I w"
    and cfg: "ClaimStaleAfter cfg = after" "0 < BatchSize cfg"
  shows "J w \<Longrightarrow> \<forall>q \<in> set queues. fewer_pending cfg (db w) q fuel \<Longrightarrow>
    \<exists>w'. claimer_tick fuel E cfg h queues w = (Ret True, w') \<and> J w' \<and> shrinks cfg (db w) (db w') \<and>
      (\<forall>q \<in> set queues. reached cfg (db w) (db w') q)"
  unfolding claimer_tick_def
proof (induction queues arbitrary: w)
  case Nil
  then show ?case by (simp add: go_return_def shrinks_refl)
next
  case (Cons q queues)
  then have "fewer_pending cfg (db w) q fuel" by simp
  from claimStale_ends [OF settle J cfg Cons.prems(1) this] obtain w1 where
    run: "claimStale fuel E cfg h q w = (Ret (Some None), w1)" and J1: "J w1" and s: "shrinks cfg (db w) (db w1)"
    and left: "reached cfg (db w) (db w1) q" by blast
  have "\<forall>q \<in> set queues. fewer_pending cfg (db w1) q fuel" using Cons.prems(2) fewer_pending_shrinks [OF s] by simp
  from Cons.IH [OF J1 this] obtain w' where
    "go_fold (\<lambda>queue ok. go_bind (claimStale fuel E cfg h queue) (\<lambda>r. go_return (ok \<and> r \<noteq> None))) queues True w1 = (Ret True, w')"
    and "J w'" and s': "shrinks cfg (db w1) (db w')" and rest: "\<forall>q \<in> set queues. reached cfg (db w1) (db w') q" by blast
  with run have "go_fold (\<lambda>queue ok. go_bind (claimStale fuel E cfg h queue) (\<lambda>r. go_return (ok \<and> r \<noteq> None))) (q # queues) True w = (Ret True, w')"
    by (simp add: go_bind_Ret go_return_def)
  moreover have "\<forall>q \<in> set (q # queues). reached cfg (db w) (db w') q"
    using left rest fewer_pending_shrinks [OF s] none_left_shrinks [OF s'] by simp
  ultimately show ?case using \<open>J w'\<close> shrinks_trans [OF s s'] by blast
qed

lemma claimer_ticks_end:
  assumes settle: "claims_settled db E cfg h J P" and J: "\<And>w. J w \<Longrightarrow> I w"
    and cfg: "ClaimStaleAfter cfg = after" "0 < BatchSize cfg"
  shows "J w \<Longrightarrow> \<forall>q \<in> set queues. fewer_pending cfg (db w) q fuel \<Longrightarrow>
    \<exists>w'. on_ticks (\<lambda>ok. go_bind (claimer_tick fuel E cfg h queues) (\<lambda>r. go_return (ok \<and> r))) es True w = (Ret True, w') \<and>
      J w' \<and> shrinks cfg (db w) (db w') \<and> (0 < ticks es \<longrightarrow> (\<forall>q \<in> set queues. reached cfg (db w) (db w') q))"
proof (induction es arbitrary: w)
  case Nil
  then show ?case by (simp add: go_return_def shrinks_refl)
next
  case (Cons e es)
  show ?case
  proof (cases e)
    case ContextDone
    with Cons.prems show ?thesis by (simp add: go_return_def shrinks_refl)
  next
    case Tick
    obtain w1 where run: "claimer_tick fuel E cfg h queues w = (Ret True, w1)" and J1: "J w1" and s: "shrinks cfg (db w) (db w1)"
      and left: "\<forall>q \<in> set queues. reached cfg (db w) (db w1) q"
      using claimer_tick_ends [OF settle J cfg Cons.prems] by blast
    have "\<forall>q \<in> set queues. fewer_pending cfg (db w1) q fuel" using Cons.prems(2) fewer_pending_shrinks [OF s] by blast
    from Cons.IH [OF J1 this] obtain w' where
      "on_ticks (\<lambda>ok. go_bind (claimer_tick fuel E cfg h queues) (\<lambda>r. go_return (ok \<and> r))) es True w1 = (Ret True, w')"
      and "J w'" and s': "shrinks cfg (db w1) (db w')" by blast
    from this(1) run Tick have "on_ticks (\<lambda>ok. go_bind (claimer_tick fuel E cfg h queues) (\<lambda>r. go_return (ok \<and> r))) (e # es) True w = (Ret True, w')"
      by (simp add: go_bind_Ret go_return_def)
    moreover have "\<forall>q \<in> set queues. reached cfg (db w) (db w') q" using left none_left_shrinks [OF s'] by blast
    ultimately show ?thesis using \<open>J w'\<close> shrinks_trans [OF s s'] by blast
  qed
qed

end


section \<open>What claiming leaves of a queue\<close>

text \<open>
  What \<open>recovered_from\<close> says of the tasks. The messages \<open>gone\<close> were pending for any consumer; a message that is
  no longer pending has either gone or is none of the tasks in the stream.
\<close>

definition settled_from :: "string set \<Rightarrow> queue_view \<Rightarrow> queue_view \<Rightarrow> bool" where
  "settled_from gone v v' \<longleftrightarrow>
     ready v' = filter (\<lambda>e. fst e \<notin> gone) (ready v) \<and> later v' = later v \<and>
     (\<exists>ds. dead v' = dead v @ ds \<and> (\<forall>e \<in> set ds. died_of gone v (snd e))) \<and>
     dom (retrying v) \<subseteq> dom (retrying v') \<and> (\<forall>m \<in> dom (retrying v'). m \<in> dom (retrying v) \<or> waits_of gone v m)"

definition claimed_from :: "string set \<Rightarrow> queue_view \<Rightarrow> queue_view \<Rightarrow> bool" where
  "claimed_from gone v v' \<longleftrightarrow> settled_from gone v v' \<and> gone \<subseteq> dom (unacked v) \<and>
     dom (unacked v') \<subseteq> dom (unacked v) - gone \<and>
     fst ` set (ready v') \<inter> dom (unacked v) \<subseteq> dom (unacked v')"

definition claimed :: "queue_view \<Rightarrow> queue_view \<Rightarrow> bool" where
  "claimed v v' \<longleftrightarrow> (\<exists>gone. claimed_from gone v v')"

lemma recovered_from_iff:
  "recovered_from gone v v' \<longleftrightarrow> unacked v' = unacked v |` (- gone) \<and> settled_from gone v v'"
  unfolding recovered_from_def settled_from_def by blast

lemma settled_from_unacked [simp]: "settled_from gone v (v'\<lparr>unacked := u\<rparr>) \<longleftrightarrow> settled_from gone v v'"
  by (simp add: settled_from_def)

lemma settled_recovered: "settled_from gone v v' \<Longrightarrow> recovered_from gone v (v'\<lparr>unacked := unacked v |` (- gone)\<rparr>)"
  by (simp add: recovered_from_iff)

lemma settled_drop: "settled_from gone v v' \<Longrightarrow> settled_from (insert i gone) v (drop_message i v')"
  using recovered_drop [OF settled_recovered, of gone v v' i] unfolding recovered_from_iff
  by (simp add: settled_from_def drop_message_def)

lemma settled_dead:
  "settled_from gone v v' \<Longrightarrow> (i, t) \<in> set (ready v) \<Longrightarrow> i \<in> gone \<Longrightarrow> gives_up t \<Longrightarrow> next_attempt TaskStateDead e t u \<Longrightarrow>
    settled_from gone v (put_dead j (norm_task u) v')"
  using recovered_dead [OF settled_recovered, of gone v v' i t e u j] unfolding recovered_from_iff
  by (simp add: settled_from_def put_dead_def)

lemma settled_retry:
  "settled_from gone v v' \<Longrightarrow> (i, t) \<in> set (ready v) \<Longrightarrow> i \<in> gone \<Longrightarrow> \<not> gives_up t \<Longrightarrow> next_attempt TaskStateRetry e t u \<Longrightarrow>
    settled_from gone v (put_retry (JsonText (json_task u)) s v')"
  using recovered_retry [OF settled_recovered, of gone v v' i t e u s] unfolding recovered_from_iff
  by (simp add: settled_from_def put_retry_def)

lemma settled_ready: "settled_from gone v v' \<Longrightarrow> set (ready v') \<subseteq> set (ready v)"
  by (auto simp: settled_from_def)

lemma claimed_refl: "claimed v v"
  unfolding claimed_def claimed_from_def settled_from_def by (intro exI [of _ "{}"]) simp

text \<open>One message more has been handled; its owner does not matter.\<close>

lemma claimed_message:
  assumes rec: "\<And>q. claimed (v0 q) (v q)" and t: "(i, t) \<in> set (ready (v0 (task_Queue t)))"
    and own: "i \<in> dom (unacked (v0 (task_Queue t)))" and m: "message_settled i t r v v'"
  shows "claimed (v0 q) (v' q)"
proof (cases "q = task_Queue t")
  case False
  with m rec [of q] show ?thesis by (auto simp: message_settled_def Let_def)
next
  case True
  from rec [of q] obtain gone where g: "settled_from gone (v0 q) (v q)" and rest: "gone \<subseteq> dom (unacked (v0 q))"
    "dom (unacked (v q)) \<subseteq> dom (unacked (v0 q)) - gone" "fst ` set (ready (v q)) \<inter> dom (unacked (v0 q)) \<subseteq> dom (unacked (v q))"
    unfolding claimed_def claimed_from_def by blast
  let ?gone = "insert i gone"
  note drop = settled_drop [OF g, of i]
  from t True have t': "(i, t) \<in> set (ready (v0 q))" "i \<in> ?gone" by simp_all
  have s: "settled_from ?gone (v0 q) (v' q)"
    using m drop settled_dead [OF drop t'] settled_retry [OF drop t'] True
    by (auto simp: message_settled_def Let_def)
  have u: "unacked (v' q) = (unacked (v q))(i := None)" using settled_unacked [OF m, of q] True by simp
  have r: "fst ` set (ready (v' q)) \<subseteq> fst ` set (ready (v q)) - {i}"
    using m True by (auto simp: message_settled_def Let_def drop_message_def put_dead_def put_retry_def)
  have d: "dom (unacked (v' q)) = dom (unacked (v q)) - {i}" using u by auto
  have "?gone \<subseteq> dom (unacked (v0 q))" using rest(1) own True by simp
  moreover have "dom (unacked (v' q)) \<subseteq> dom (unacked (v0 q)) - ?gone" unfolding d using rest(2) by blast
  moreover have "fst ` set (ready (v' q)) \<inter> dom (unacked (v0 q)) \<subseteq> dom (unacked (v' q))"
    unfolding d using rest(3) r by blast
  ultimately have "claimed_from ?gone (v0 q) (v' q)" using s unfolding claimed_from_def by blast
  then show ?thesis unfolding claimed_def by blast
qed

text \<open>A message that holds no task is acknowledged.\<close>

lemma claimed_skip:
  assumes "claimed v v'" and "i \<notin> fst ` set (ready v)"
  shows "claimed v (v'\<lparr>unacked := (unacked v')(i := None)\<rparr>)"
proof -
  from assms(1) obtain gone where c: "claimed_from gone v v'" unfolding claimed_def by blast
  then have "i \<notin> fst ` set (ready v')" using settled_ready assms(2) unfolding claimed_from_def by blast
  with c have "claimed_from gone v (v'\<lparr>unacked := (unacked v')(i := None)\<rparr>)" unfolding claimed_from_def by auto
  then show ?thesis unfolding claimed_def by blast
qed

text \<open>A claim changes owners and forgets messages that are not in the stream.\<close>

lemma claimed_claim:
  assumes rec: "\<And>q. claimed (v0 q) (view cfg d q)" and ok: "claim_ok (streamKey q) (Group cfg) c d ms d'"
  shows "claimed (v0 q') (view cfg d' q')"
proof (cases "q' = q")
  case False
  from claim_view(2) [OF ok this] rec show ?thesis by simp
next
  case True
  from rec obtain gone where c: "claimed_from gone (v0 q) (view cfg d q)" unfolding claimed_def by blast
  obtain none where none: "none \<inter> fst ` set (streams d (streamKey q)) = {}" and u: "unacked (view cfg d' q) =
      (\<lambda>i. if i \<in> xm_ID ` set ms then Some c else if i \<in> none then None else unacked (view cfg d q) i)"
    using claim_view(6) [OF ok] by blast
  have ids: "xm_ID ` set ms \<subseteq> dom (unacked (view cfg d q))" using ok by (auto simp: claim_ok_def view_def)
  have "fst ` set (ready (view cfg d q)) \<subseteq> fst ` set (streams d (streamKey q))"
    by (force simp: view_def dest: tasks_of_memD)
  with none have away: "fst ` set (ready (view cfg d q)) \<inter> none = {}" by blast
  have d: "dom (unacked (view cfg d' q)) = dom (unacked (view cfg d q)) - (none - xm_ID ` set ms)"
  proof (rule set_eqI)
    fix i
    show "i \<in> dom (unacked (view cfg d' q)) \<longleftrightarrow> i \<in> dom (unacked (view cfg d q)) - (none - xm_ID ` set ms)"
      using subsetD [OF ids, of i] by (cases "i \<in> xm_ID ` set ms") (simp_all add: u domIff)
  qed
  note view = claim_view(1,3-5) [OF ok, of q]
  have s: "settled_from gone (v0 q) (view cfg d' q)"
    using c unfolding claimed_from_def settled_from_def view by blast
  from c have g: "gone \<subseteq> dom (unacked (v0 q))"
    and u0: "dom (unacked (view cfg d q)) \<subseteq> dom (unacked (v0 q)) - gone"
    and r: "fst ` set (ready (view cfg d q)) \<inter> dom (unacked (v0 q)) \<subseteq> dom (unacked (view cfg d q))"
    unfolding claimed_from_def by simp_all
  have "dom (unacked (view cfg d' q)) \<subseteq> dom (unacked (v0 q)) - gone" unfolding d using u0 by blast
  moreover have "fst ` set (ready (view cfg d' q)) \<inter> dom (unacked (v0 q)) \<subseteq> dom (unacked (view cfg d' q))"
    unfolding d view(1) using r away by blast
  ultimately have "claimed_from gone (v0 q) (view cfg d' q)"
    using s g unfolding claimed_from_def by simp
  with True show ?thesis unfolding claimed_def by blast
qed


section \<open>Handling claimed messages\<close>

text \<open>What a claim gives of a queue, as it was before.\<close>

definition of_group :: "(string \<Rightarrow> queue_view) \<Rightarrow> string \<Rightarrow> XMessage \<Rightarrow> bool" where
  "of_group v0 q msg \<longleftrightarrow> xm_ID msg \<in> dom (unacked (v0 q)) \<and>
     (case message_task msg of
        None \<Rightarrow> xm_ID msg \<notin> fst ` set (ready (v0 q))
      | Some t \<Rightarrow> (xm_ID msg, t) \<in> set (ready (v0 q)))"

lemma claim_of_group:
  assumes d: "distinct (map fst (streams d (streamKey q)))" and rec: "claimed (v0 q) (view cfg d q)"
    and own: "i \<in> dom (unacked (view cfg d q))" and vs: "(i, vs) \<in> set (streams d (streamKey q))"
  shows "of_group v0 q \<lparr>xm_ID = i, xm_Values = vs\<rparr>"
proof -
  let ?m = "\<lparr>xm_ID = i, xm_Values = vs\<rparr>" and ?es = "streams d (streamKey q)"
  from rec obtain gone where g: "settled_from gone (v0 q) (view cfg d q)" and "i \<notin> gone" and was: "i \<in> dom (unacked (v0 q))"
    using own unfolding claimed_def claimed_from_def by blast
  then have same: "(i, t) \<in> set (ready (v0 q)) \<longleftrightarrow> (i, t) \<in> set (tasks_of ?es)" for t
    by (auto simp: settled_from_def view_def)
  show ?thesis
  proof (cases "message_task ?m")
    case (Some t)
    with vs have "(i, t) \<in> set (tasks_of ?es)" by (rule tasks_of_mem)
    with was same Some show ?thesis by (simp add: of_group_def)
  next
    case None
    have "(i, t) \<notin> set (tasks_of ?es)" for t
    proof
      assume "(i, t) \<in> set (tasks_of ?es)"
      then obtain us where us: "(i, us) \<in> set ?es" and task: "message_task \<lparr>xm_ID = i, xm_Values = us\<rparr> = Some t"
        using tasks_of_memD by blast
      from d us vs have "us = vs" by (rule eq_key_imp_eq_value)
      with task None show False by simp
    qed
    with was same None show ?thesis by (force simp: of_group_def)
  qed
qed

lemma settled_shrinks:
  assumes "message_settled i t r (view cfg d) (view cfg d')"
  shows "shrinks cfg d d'"
proof -
  have "unacked (view cfg d' q) \<subseteq>\<^sub>m unacked (view cfg d q)" for q
    using settled_unacked [OF assms, of q] by (simp add: map_le_def)
  moreover have "set (ready (view cfg d' q)) \<subseteq> set (ready (view cfg d q))" for q
    using assms by (auto simp: message_settled_def Let_def drop_message_def put_dead_def put_retry_def split: if_splits)
  ultimately show ?thesis by (simp add: shrinks_def)
qed

text \<open>The server's handler settles every claimed message.\<close>

lemma processTask_settles_claims:
  assumes S: "steady_server S (\<lambda>w. view cfg (db w)) bnow now I" and B: "srv_broker S = redis_broker E cfg"
    and C: "steady_claimer E db clk I lost after"
    and placed: "\<And>q i t. (i, t) \<in> set (ready (v0 q)) \<Longrightarrow> task_Queue t = q \<and> i \<noteq> ''''"
  shows "claims_settled db E cfg (processTask now big S) (\<lambda>w. I w \<and> (\<forall>q. claimed (v0 q) (view cfg (db w) q))) (of_group v0)"
  unfolding claims_settled_def
proof (rule conjI; intro allI impI)
  note C' = steady_claimer.axioms(1) [OF C]
  fix q msg w
  assume w: "I w \<and> (\<forall>q. claimed (v0 q) (view cfg (db w) q))" and msg: "of_group v0 q msg"
  show "\<exists>e w'. processMessage E cfg (processTask now big S) q msg w = (Ret e, w') \<and>
     (I w' \<and> (\<forall>q. claimed (v0 q) (view cfg (db w') q))) \<and>
     xm_ID msg \<notin> dom (unacked (view cfg (db w') q)) \<and> shrinks cfg (db w) (db w')"
  proof (cases "message_task msg")
    case None
    with msg have out: "xm_ID msg \<notin> fst ` set (ready (v0 q))" by (simp add: of_group_def)
    from w steady_consumer.unreadable_runs [OF C' None, of w cfg "processTask now big S" q] obtain r w' where
      run: "processMessage E cfg (processTask now big S) q msg w = (Ret r, w')" and "I w'" and v: "view cfg (db w') =
        (view cfg (db w))(q := (view cfg (db w) q)\<lparr>unacked := (unacked (view cfg (db w) q))(xm_ID msg := None)\<rparr>)"
      by blast
    moreover have "claimed (v0 q') (view cfg (db w') q')" for q'
      using claimed_skip [OF _ out] w v by simp
    moreover have "shrinks cfg (db w) (db w')" unfolding shrinks_def v by (simp add: map_le_def)
    moreover have "xm_ID msg \<notin> dom (unacked (view cfg (db w') q))" unfolding v by simp
    ultimately show ?thesis by blast
  next
    case (Some t)
    with msg have own: "xm_ID msg \<in> dom (unacked (v0 q))" and t: "(xm_ID msg, t) \<in> set (ready (v0 q))"
      by (simp_all add: of_group_def)
    from placed [OF t] have q: "task_Queue t = q" and i: "xm_ID msg \<noteq> ''''" by simp_all
    from w steady_server.processMessage_settles [OF S B _ Some i, of w big] q obtain r w' where
      run: "processMessage E cfg (processTask now big S) q msg w = (Ret r, w')" and "I w'"
      and set: "message_settled (xm_ID msg) t r (view cfg (db w)) (view cfg (db w'))" by blast
    moreover have "claimed (v0 q') (view cfg (db w') q')" for q'
      using claimed_message [OF _ _ _ set, of v0 q'] w own t q by simp
    moreover have "xm_ID msg \<notin> dom (unacked (view cfg (db w') q))" using settled_unacked [OF set, of q] q by simp
    ultimately show ?thesis using settled_shrinks [OF set] by blast
  qed
next
  note C' = steady_claimer.axioms(1) [OF C]
  fix q w r w'
  assume w: "I w \<and> (\<forall>q. claimed (v0 q) (view cfg (db w) q))"
    and claim: "x_auto_claim E (streamKey q) (Group cfg) (Consumer cfg) (ClaimStaleAfter cfg) ''0'' (BatchSize cfg) w = (r, w')"
  then obtain ms where r: "r = Inr ms" and "I w'" using steady_claimer.claim_steady [OF C] by blast
  with redis_consumer.claim_ok [OF steady_consumer.axioms(1) [OF C']] claim
  have ok: "claim_ok (streamKey q) (Group cfg) (Consumer cfg) (db w) ms (db w')" by blast
  have "of_group v0 q m" if "m \<in> set ms" for m
  proof -
    from ok that have "xm_ID m \<in> dom (unacked (view cfg (db w) q))" and "(xm_ID m, xm_Values m) \<in> set (streams (db w) (streamKey q))"
      by (auto simp: claim_ok_def view_def)
    with claim_of_group [of "db w" q v0 cfg "xm_ID m" "xm_Values m"] steady_consumer.ids_unique [OF C'] w show ?thesis
      by (cases m) simp
  qed
  moreover have "claimed (v0 q') (view cfg (db w') q')" for q' using claimed_claim [OF _ ok] w by blast
  ultimately show "(I w' \<and> (\<forall>q. claimed (v0 q) (view cfg (db w') q))) \<and> (\<exists>ms. r = Inr ms \<and> list_all (of_group v0 q) ms)"
    using r \<open>I w'\<close> by (auto simp: list_all_iff)
qed

text \<open>The lost messages are among the ones that have gone.\<close>

lemma claimed_none_left:
  assumes "claimed_from gone v (view cfg d q)" and left: "none_left cfg lost d q"
  shows "lost (streamKey q) \<inter> dom (unacked v) \<inter> fst ` set (ready v) \<subseteq> gone"
proof -
  from assms(1) have r: "ready (view cfg d q) = filter (\<lambda>e. fst e \<notin> gone) (ready v)"
    and u: "fst ` set (ready (view cfg d q)) \<inter> dom (unacked v) \<subseteq> dom (unacked (view cfg d q))"
    unfolding claimed_from_def settled_from_def by blast+
  have "fst ` set (ready (view cfg d q)) = fst ` set (ready v) - gone" unfolding r by force
  then show ?thesis using u left unfolding none_left_def by blast
qed



text \<open>A task that a consumer took which has crashed since.\<close>

definition orphan_mem :: mem where
  "orphan_mem = pending_mem\<lparr>m_pel := [((streamKey ''critical'', Group DefaultConsumerConfig, ''i''), ''crashed'')]\<rparr>"

lemma orphan_mem_ready: "ready (view DefaultConsumerConfig (mem_db orphan_mem) q) =
    (if q = ''critical'' then [(''i'', norm_task demo_task)] else [])"
  using pending_mem_ready [of q] by (simp add: view_def orphan_mem_def mem_db_streams [symmetric])

lemma orphan_mem_unacked: "unacked (view DefaultConsumerConfig (mem_db orphan_mem) ''critical'') = [''i'' \<mapsto> ''crashed'']"
  by (auto simp: view_def orphan_mem_def mem_db_def fun_eq_iff)


end
