(* ===== verification/Server_Consume.thy ===== *)
theory Server_Consume
  imports Server_Claims
begin

text \<open>
  Broker and server together: the main loop of \<open>Subscribe\<close> when the services answer. Every turn reads the next
  messages of each queue that were never delivered and handles them; what the handling does to a queue does
  not touch the entries that are still to be delivered, so as many turns as there are batches are enough.
\<close>

section \<open>The entries still to be delivered\<close>

definition news :: "ConsumerConfig \<Rightarrow> redis_db \<Rightarrow> string \<Rightarrow> (string \<times> (string \<times> bulk) list) list" where
  "news cfg d q = undelivered d (streamKey q) (Group cfg)"

definition news_kept :: "ConsumerConfig \<Rightarrow> redis_db \<Rightarrow> redis_db \<Rightarrow> bool" where
  "news_kept cfg d d' \<longleftrightarrow> (\<forall>q. news cfg d' q = news cfg d q \<and> taken (view cfg d' q) = taken (view cfg d q))"

lemma news_kept_refl [simp]: "news_kept cfg d d"
  by (simp add: news_kept_def)

lemma news_kept_trans: "news_kept cfg d d1 \<Longrightarrow> news_kept cfg d1 d2 \<Longrightarrow> news_kept cfg d d2"
  by (simp add: news_kept_def)

lemma news_kept_same: "streams d' = streams d \<Longrightarrow> delivered d' = delivered d \<Longrightarrow> news_kept cfg d d'"
  by (simp add: news_kept_def news_def undelivered_def view_def)

text \<open>Commands that leave them alone: they add to no stream of a queue and delete only what was delivered.\<close>

fun spares :: "ConsumerConfig \<Rightarrow> redis_db \<Rightarrow> command \<Rightarrow> bool" where
  "spares cfg d (XAdd k vs) = (\<forall>q. k \<noteq> streamKey q)"
| "spares cfg d (XDel k i) = (\<forall>q. k = streamKey q \<longrightarrow> i \<in> taken (view cfg d q))"
| "spares cfg d (Del k) = False"
| "spares cfg d c = True"

lemma spares_kept: "news_kept cfg d d' \<Longrightarrow> spares cfg d c \<Longrightarrow> spares cfg d' c"
  by (cases c) (simp_all add: news_kept_def)

lemma command_spares:
  assumes "command_step c d d'" and "spares cfg d c"
  shows "news_kept cfg d d'"
proof (cases c)
  case (XDel k i)
  with assms(1) have d': "streams d' = (streams d)(k := filter (\<lambda>e. fst e \<noteq> i) (streams d k))" "delivered d' = delivered d"
    by (auto simp: command_step_simps db_simps)
  have "news cfg d' q = news cfg d q" for q
  proof (cases "k = streamKey q")
    case True
    with assms(2) XDel have "i \<in> delivered d (streamKey q) (Group cfg)" by (simp add: view_def)
    with True show ?thesis by (auto simp: news_def undelivered_def d' filter_filter intro!: filter_cong)
  qed (simp add: news_def undelivered_def d')
  then show ?thesis by (simp add: news_kept_def view_def d')
qed (use assms in \<open>auto simp: command_step_simps db_simps news_kept_def news_def undelivered_def view_def\<close>)

lemma commands_spare:
  "commands_step cs d d' \<Longrightarrow> \<forall>c \<in> set cs. spares cfg d c \<Longrightarrow> news_kept cfg d d'"
proof (induction cs arbitrary: d)
  case (Cons c cs)
  from Cons.prems(1) obtain d1 where "command_step c d d1" and rest: "commands_step cs d1 d'" by auto
  with Cons.prems(2) have k: "news_kept cfg d d1" by (simp add: command_spares)
  with Cons.prems(2) have "\<forall>c \<in> set cs. spares cfg d1 c" by (simp add: spares_kept)
  with Cons.IH [OF rest] k show ?case by (blast intro: news_kept_trans)
qed simp

section \<open>The parts of handling a task\<close>

definition finish_task :: "('w \<Rightarrow> time \<times> 'w) \<Rightarrow> 'w Server \<Rightarrow> TaskProto \<Rightarrow> ('w, go_error option) go" where
  "finish_task now S t = go_bind (go_lift now) (\<lambda>done_at.
     go_bind (set_metadata (\<lambda>m. m\<lparr>State := TaskStateCompleted, CompletedAt := Some done_at\<rparr>) t) (\<lambda>t.
     go_bind (update_store S t) (\<lambda>_. go_return None)))"

definition handled :: "('w \<Rightarrow> time \<times> 'w) \<Rightarrow> i64 \<Rightarrow> 'w Server \<Rightarrow> TaskProto \<Rightarrow> ('w, go_error option) go" where
  "handled now big S t = (case mux_Handler (srv_mux S) (Type t) of
      None \<Rightarrow> handleFailure now big S t (ErrText (''no handler for task type: '' @ Type t))
    | Some h \<Rightarrow> go_bind (run_handler h t) (\<lambda>(err, t). case err of
          Some e \<Rightarrow> handleFailure now big S t e
        | None \<Rightarrow> finish_task now S t))"

lemma processTask_handled: "processTask now big S t = go_bind (should_process S t) (\<lambda>ok. if \<not> ok then go_return None else
     go_bind (go_lift now) (\<lambda>at. go_bind (set_metadata (active S at) t) (\<lambda>t.
     go_bind (update_store S t) (\<lambda>_. handled now big S t))))"
  unfolding processTask_def handled_def finish_task_def ..

section \<open>Handling a delivered message leaves them alone\<close>

definition stays :: "('w \<Rightarrow> 'w \<Rightarrow> bool) \<Rightarrow> ('w, 'a) go \<Rightarrow> bool" where
  "stays R m \<longleftrightarrow> (\<forall>w r w'. m w = (r, w') \<longrightarrow> R w w')"

definition after_read :: "('w \<Rightarrow> redis_db) \<Rightarrow> ConsumerConfig \<Rightarrow> string \<Rightarrow> string \<Rightarrow> 'w \<Rightarrow> 'w \<Rightarrow> bool" where
  "after_read db cfg q i w w' \<longleftrightarrow> (i \<in> taken (view cfg (db w) q) \<longrightarrow> news_kept cfg (db w) (db w'))"

lemma after_read_trans: "after_read db cfg q i w w1 \<Longrightarrow> after_read db cfg q i w1 w2 \<Longrightarrow> after_read db cfg q i w w2"
  unfolding after_read_def by (metis news_kept_def news_kept_trans)

lemma stays_return: "stays (after_read db cfg q i) (go_return x)"
  by (simp add: stays_def after_read_def go_return_def)

lemma stays_bind:
  assumes "stays (after_read db cfg q i) m" and "\<And>w x w'. m w = (Ret x, w') \<Longrightarrow> stays (after_read db cfg q i) (f x)"
  shows "stays (after_read db cfg q i) (go_bind m f)"
  unfolding stays_def
proof (intro allI impI)
  fix w r w' assume run: "go_bind m f w = (r, w')"
  obtain res w1 where 1: "m w = (res, w1)" by (cases "m w")
  with assms(1) have s: "after_read db cfg q i w w1" by (simp add: stays_def)
  show "after_read db cfg q i w w'"
  proof (cases res)
    case (Ret x)
    with run 1 have "f x w1 = (r, w')" by (simp add: go_bind_Ret)
    with assms(2) 1 Ret have "after_read db cfg q i w1 w'" unfolding stays_def by blast
    with s show ?thesis by (rule after_read_trans)
  next
    case (Panic msg)
    with run 1 s show ?thesis by (simp add: go_bind_Panic)
  qed
qed

lemma stays_apart: "(\<And>w r w'. m w = (r, w') \<Longrightarrow> db w' = db w) \<Longrightarrow> stays (after_read db cfg q i) m"
  by (auto simp: stays_def after_read_def)

text \<open>Store, clock and handlers of the server leave Redis and the task alone.\<close>

definition apart_server :: "('w \<Rightarrow> redis_db) \<Rightarrow> ('w \<Rightarrow> time \<times> 'w) \<Rightarrow> 'w Server \<Rightarrow> bool" where
  "apart_server db now S \<longleftrightarrow> (\<forall>w at w'. now w = (at, w') \<longrightarrow> db w' = db w) \<and>
     (\<forall>st t w r w'. srv_store S = Some st \<longrightarrow> st_UpdateTask st t w = (r, w') \<longrightarrow> db w' = db w) \<and>
     (\<forall>ty h d t w res t' w'. mux_Handler (srv_mux S) ty = Some h \<longrightarrow> h d t w = ((res, t'), w') \<longrightarrow> t' = t \<and> db w' = db w)"

context redis_server
begin

lemma pipe_stays:
  assumes "\<And>d. i \<in> taken (view cfg d q) \<Longrightarrow> \<forall>c \<in> set cs. spares cfg d c"
  shows "stays (after_read db cfg q i) (go_lift (pipe_exec E cs))"
  unfolding stays_def go_lift_iff after_read_def
proof (intro allI impI, elim exE conjE)
  fix w r w' re assume run: "pipe_exec E cs w = (re, w')" and i: "i \<in> taken (view cfg (db w) q)"
  note ok = assms [OF i]
  show "news_kept cfg (db w) (db w')"
  proof (cases re)
    case None
    with run pipe_ok have "commands_step cs (db w) (db w')" by blast
    then show ?thesis using ok by (rule commands_spare)
  next
    case (Some e)
    with run pipe_fail obtain cs' where "subseq cs' cs" and step: "commands_step cs' (db w) (db w')" by blast
    then have "\<forall>c \<in> set cs'. spares cfg (db w) c" using ok by (auto dest: list_emb_set)
    with step show ?thesis by (rule commands_spare)
  qed
qed

lemma Ack_stays: "stays (after_read db cfg q i) (Ack E cfg q i)"
  unfolding Ack_def by (rule pipe_stays) (simp add: streamKey_def)

lemma Retry_stays:
  assumes "StreamMsgID (metadata_or_zero t) = i"
  shows "stays (after_read db cfg q i) (Retry E cfg q t delay)"
proof -
  have "stays (after_read db cfg q i) (go_lift (pipe_exec E (unstream cfg q ((metadata_or_zero t)\<lparr>State := TaskStateRetry\<rparr>) @
      [ZAdd (retryKey q) s (JsonText j)])))" for s j
    by (rule pipe_stays) (auto simp: unstream_def assms streamKey_def)
  moreover have "stays (after_read db cfg q i) (go_lift (clock E))"
    by (rule stays_apart) (use clock_ok in \<open>auto simp: go_lift_iff\<close>)
  ultimately show ?thesis
    unfolding Retry_def Let_def by (auto split: sum.split intro!: stays_bind stays_return)
qed

lemma MoveToDLQ_stays:
  assumes "StreamMsgID (metadata_or_zero t) = i"
  shows "stays (after_read db cfg q i) (MoveToDLQ E cfg q t e)"
proof -
  have "stays (after_read db cfg q i) (go_lift (pipe_exec E (unstream cfg q m @ [XAdd (dlqKey q) [(''data'', JsonText j)]])))"
    if "StreamMsgID m = i" for m j
    by (rule pipe_stays) (use that in \<open>auto simp: unstream_def streamKey_def dlqKey_def streamPrefix_def dlqPrefix_def\<close>)
  then show ?thesis
    unfolding MoveToDLQ_def Let_def using assms by (auto split: sum.split option.split intro!: stays_bind stays_return)
qed

lemma SetProcessed_stays: "stays (after_read db cfg q i) (SetProcessed E tid ttl)"
proof -
  have "news_kept cfg (db w) (db w')" if "set_nx E k v ttl w = (rb, w')" for k v w rb w'
  proof (cases rb)
    case (Inr b)
    with that set_nx_ok show ?thesis by (fastforce simp: set_nx_eff_def intro: news_kept_same split: if_splits)
  next
    case (Inl e)
    with that set_nx_fail show ?thesis by (fastforce simp: set_nx_eff_def intro: news_kept_same split: if_splits)
  qed
  then show ?thesis by (auto simp: SetProcessed_def stays_def after_read_def go_lift_iff)
qed

lemma update_store_stays:
  assumes "apart_server db now S"
  shows "stays (after_read db cfg q i) (update_store S t)"
proof (cases "srv_store S")
  case (Some st)
  then have "stays (after_read db cfg q i) (st_UpdateTask st t)"
    using assms by (intro stays_apart) (simp add: apart_server_def)
  with Some show ?thesis by (auto simp: update_store_def intro: stays_bind stays_return)
qed (simp add: update_store_def stays_return)

lemma set_metadata_stays: "stays (after_read db cfg q i) (set_metadata f t)"
  by (simp add: set_metadata_def stays_def after_read_def go_return_def go_panic_def split: option.split)

lemma now_stays: "apart_server db now S \<Longrightarrow> stays (after_read db cfg q i) (go_lift now)"
  by (intro stays_apart) (auto simp: apart_server_def go_lift_iff)

lemma handleFailure_stays:
  assumes S: "srv_broker S = redis_broker E cfg" "apart_server db now S"
    and t: "StreamMsgID (metadata_or_zero t) = i" "task_Queue t = q"
  shows "stays (after_read db cfg q i) (handleFailure now big S t e)"
proof -
  have f: "StreamMsgID (metadata_or_zero (failed_once e t)) = i" "task_Queue (failed_once e t) = q" using t by simp_all
  note ops = MoveToDLQ_stays [OF f(1)] Retry_stays [OF f(1)] update_store_stays [OF S(2)] set_metadata_stays now_stays [OF S(2)] stays_return
  show ?thesis
    unfolding handleFailure_def Let_def f(2) S(1) redis_broker_sel
    by (auto split: option.split prod.split intro!: stays_bind ops)
qed

lemma should_process_stays:
  "srv_broker S = redis_broker E cfg \<Longrightarrow> stays (after_read db cfg q i) (should_process S t)"
  by (auto simp: should_process_def intro!: stays_bind SetProcessed_stays stays_return split: sum.split)

lemma run_handler_stays:
  assumes "apart_server db now S" and "mux_Handler (srv_mux S) ty = Some h"
  shows "stays (after_read db cfg q i) (run_handler h t)" and "run_handler h t w = (Ret (err, t'), w') \<Longrightarrow> t' = t"
proof -
  have h: "h d t w = ((res, t'), w') \<Longrightarrow> t' = t \<and> db w' = db w" for d w res t' w'
    using assms unfolding apart_server_def by blast
  have "stays (after_read db cfg q i) (go_lift (h (handler_timeout t) t))"
    by (rule stays_apart) (use h in \<open>auto simp: go_lift_iff\<close>)
  then show "stays (after_read db cfg q i) (run_handler h t)"
    unfolding run_handler_def by (auto split: prod.split outcome.split intro!: stays_bind stays_return)
  assume run: "run_handler h t w = (Ret (err, t'), w')"
  obtain res u w1 where 1: "h (handler_timeout t) t w = ((res, u), w1)" by (cases "h (handler_timeout t) t w") auto
  with run have "t' = u" by (cases res) (simp_all add: run_handler_def go_bind_lift go_return_def)
  with h 1 show "t' = t" by blast
qed

text \<open>The part of \<open>processTask\<close> from the lookup of the handler on.\<close>

lemma handled_stays:
  assumes S: "srv_broker S = redis_broker E cfg" "apart_server db now S"
    and t: "StreamMsgID (metadata_or_zero t) = i" "task_Queue t = q"
  shows "stays (after_read db cfg q i) (handled now big S t)"
proof -
  note ops = now_stays [OF S(2)] set_metadata_stays update_store_stays [OF S(2)] stays_return
  note fails = handleFailure_stays [OF S t]
  show ?thesis
  proof (cases "mux_Handler (srv_mux S) (Type t)")
    case None
    then show ?thesis using fails by (simp add: handled_def)
  next
    case (Some h)
    have "stays (after_read db cfg q i) (case x of (err, t) \<Rightarrow> case err of
               Some e \<Rightarrow> handleFailure now big S t e
             | None \<Rightarrow> finish_task now S t)"
      if "run_handler h t w = (Ret x, w')" for x w w'
    proof -
      obtain err t' where x: "x = (err, t')" by (cases x)
      with that run_handler_stays(2) [OF S(2) Some] have "t' = t" by blast
      then show ?thesis using fails x by (auto simp: finish_task_def split: option.split intro!: stays_bind ops)
    qed
    with Some show ?thesis by (auto simp: handled_def intro: stays_bind run_handler_stays(1) [OF S(2) Some])
  qed
qed

lemma processTask_stays:
  assumes S: "srv_broker S = redis_broker E cfg" "apart_server db now S"
    and t: "Metadata t = Some m" "StreamMsgID m = i" "task_Queue t = q"
  shows "stays (after_read db cfg q i) (processTask now big S t)"
proof -
  note ops = should_process_stays [OF S(1)] now_stays [OF S(2)] set_metadata_stays update_store_stays [OF S(2)] stays_return
  have "stays (after_read db cfg q i) (handled now big S (t\<lparr>Metadata := Some (active S at m)\<rparr>))" for at
    by (rule handled_stays [OF S]) (use t in \<open>simp_all add: active_def metadata_or_zero_def task_Queue_def\<close>)
  then have "stays (after_read db cfg q i) (go_bind (set_metadata (active S at) t) (\<lambda>t. go_bind (update_store S t) (\<lambda>_. handled now big S t)))" for at
    by (auto simp: set_metadata_def t(1) intro!: stays_bind ops)
  then show ?thesis unfolding processTask_handled by (intro stays_bind ops) (simp add: stays_bind ops)
qed

lemma command_stays:
  assumes "\<And>d. i \<in> taken (view cfg d q) \<Longrightarrow> spares cfg d c"
  shows "stays (after_read db cfg q i) (go_lift (command_do E c))"
proof -
  have "news_kept cfg (db w) (db w')" if "command_do E c w = (re, w')" and "spares cfg (db w) c" for w re w'
    using that do_ok do_fail by (cases re) (metis command_spares, metis command_spares news_kept_refl)
  then show ?thesis using assms by (auto simp: stays_def after_read_def go_lift_iff)
qed

lemma processMessage_stays:
  assumes S: "srv_broker S = redis_broker E cfg" "apart_server db now S"
    and "\<And>t. message_task msg = Some t \<Longrightarrow> task_Queue t = q"
  shows "stays (after_read db cfg q (xm_ID msg)) (processMessage E cfg (processTask now big S) q msg)"
proof -
  have ack: "stays (after_read db cfg q (xm_ID msg)) (go_lift (command_do E (XAck (streamKey q) (Group cfg) (xm_ID msg))))"
    by (rule command_stays) simp
  have task: "stays (after_read db cfg q (xm_ID msg)) (processTask now big S (with_message_id (xm_ID msg) t))"
    if "map_of (xm_Values msg) ''data'' = Some data" and "unmarshal_task data = Inr t" for data t
  proof -
    have "task_Queue (with_message_id (xm_ID msg) t) = q" using assms(3) [of t] that by (simp add: message_task_def)
    then show ?thesis by (intro processTask_stays [OF S with_message_id_sel(7)]) simp_all
  qed
  show ?thesis unfolding processMessage_def
    by (auto split: option.split sum.split intro!: stays_bind stays_return ack task Ack_stays)
qed

end

section \<open>What consuming leaves of a queue\<close>

text \<open>
  Tasks that were never delivered have gone. What has been delivered since, but for the messages \<open>held\<close> of the
  batch in hand, is no longer in the stream and no longer unacknowledged.
\<close>

definition consumed_from :: "string set \<Rightarrow> string set \<Rightarrow> queue_view \<Rightarrow> queue_view \<Rightarrow> bool" where
  "consumed_from gone hand v v' \<longleftrightarrow> settled_from gone v v' \<and> gone \<subseteq> fst ` set (ready v) - taken v \<and> taken v \<union> gone \<subseteq> taken v' \<and>
     fst ` set (ready v') \<inter> taken v' \<subseteq> taken v \<union> hand \<and> dom (unacked v') \<subseteq> dom (unacked v) \<union> hand"

definition consumed :: "string set \<Rightarrow> queue_view \<Rightarrow> queue_view \<Rightarrow> bool" where
  "consumed hand v v' \<longleftrightarrow> (\<exists>gone. consumed_from gone hand v v')"

text \<open>A message of a batch: it was never delivered before.\<close>

definition new_message :: "(string \<Rightarrow> queue_view) \<Rightarrow> string \<Rightarrow> XMessage \<Rightarrow> bool" where
  "new_message v0 q msg \<longleftrightarrow> xm_ID msg \<notin> taken (v0 q) \<and>
     (case message_task msg of
        None \<Rightarrow> xm_ID msg \<notin> fst ` set (ready (v0 q))
      | Some t \<Rightarrow> (xm_ID msg, t) \<in> set (ready (v0 q)))"

lemma consumed_refl: "consumed {} v v"
  unfolding consumed_def consumed_from_def settled_from_def by (intro exI [of _ "{}"]) simp

lemma settled_taken: "message_settled i t r v v' \<Longrightarrow> taken (v' q) = taken (v q)"
  by (auto simp: message_settled_def Let_def drop_message_def put_dead_def put_retry_def split: if_splits)

lemma settled_ready_ids:
  "message_settled i t r v v' \<Longrightarrow> fst ` set (ready (v' q)) \<subseteq> (if q = task_Queue t then fst ` set (ready (v q)) - {i} else fst ` set (ready (v q)))"
  by (auto simp: message_settled_def Let_def drop_message_def put_dead_def put_retry_def split: if_splits)

lemma consumed_message:
  assumes rec: "\<And>q. consumed (hand q) (v0 q) (v q)" and t: "(i, t) \<in> set (ready (v0 (task_Queue t)))"
    and new: "i \<notin> taken (v0 (task_Queue t))" and now: "i \<in> taken (v (task_Queue t))" and m: "message_settled i t r v v'"
  shows "consumed ((hand(task_Queue t := hand (task_Queue t) - {i})) q) (v0 q) (v' q)"
proof (cases "q = task_Queue t")
  case False
  with m rec [of q] show ?thesis by (auto simp: message_settled_def Let_def)
next
  case True
  from rec [of q] obtain gone where g: "settled_from gone (v0 q) (v q)" and old: "gone \<subseteq> fst ` set (ready (v0 q)) - taken (v0 q)"
    and tk: "taken (v0 q) \<union> gone \<subseteq> taken (v q)" and rd: "fst ` set (ready (v q)) \<inter> taken (v q) \<subseteq> taken (v0 q) \<union> hand q"
    and un: "dom (unacked (v q)) \<subseteq> dom (unacked (v0 q)) \<union> hand q"
    unfolding consumed_def consumed_from_def by blast
  let ?gone = "insert i gone"
  note drop = settled_drop [OF g, of i]
  from t True have t': "(i, t) \<in> set (ready (v0 q))" "i \<in> ?gone" by simp_all
  have s: "settled_from ?gone (v0 q) (v' q)"
    using m drop settled_dead [OF drop t'] settled_retry [OF drop t'] True
    by (auto simp: message_settled_def Let_def)
  have u: "dom (unacked (v' q)) = dom (unacked (v q)) - {i}" using settled_unacked [OF m, of q] True by auto
  have same: "taken (v' q) = taken (v q)" by (rule settled_taken [OF m])
  have r: "fst ` set (ready (v' q)) \<subseteq> fst ` set (ready (v q)) - {i}" using settled_ready_ids [OF m, of q] True by simp
  have "i \<in> fst ` set (ready (v0 q)) - taken (v0 q)" using t' new True by force
  with old have "?gone \<subseteq> fst ` set (ready (v0 q)) - taken (v0 q)" by blast
  moreover have "taken (v0 q) \<union> ?gone \<subseteq> taken (v q)" using tk now True by simp
  moreover have "fst ` set (ready (v' q)) \<inter> taken (v' q) \<subseteq> taken (v0 q) \<union> (hand q - {i})"
    unfolding same using r rd by blast
  moreover have "dom (unacked (v' q)) \<subseteq> dom (unacked (v0 q)) \<union> (hand q - {i})" unfolding u using un by blast
  ultimately have "consumed_from ?gone (hand q - {i}) (v0 q) (v' q)" using s unfolding consumed_from_def same by blast
  then show ?thesis using True unfolding consumed_def by auto
qed

lemma consumed_skip:
  assumes "consumed hand v v'" and "i \<notin> fst ` set (ready v)"
  shows "consumed (hand - {i}) v (v'\<lparr>unacked := (unacked v')(i := None)\<rparr>)"
proof -
  from assms(1) obtain gone where g: "settled_from gone v v'" and old: "gone \<subseteq> fst ` set (ready v) - taken v" "taken v \<union> gone \<subseteq> taken v'"
    and rd: "fst ` set (ready v') \<inter> taken v' \<subseteq> taken v \<union> hand" and un: "dom (unacked v') \<subseteq> dom (unacked v) \<union> hand"
    unfolding consumed_def consumed_from_def by blast
  have "i \<notin> fst ` set (ready v')" using settled_ready [OF g] assms(2) by blast
  with rd have "fst ` set (ready v') \<inter> taken v' \<subseteq> taken v \<union> (hand - {i})" by blast
  moreover have "dom (unacked v') - {i} \<subseteq> dom (unacked v) \<union> (hand - {i})" using un by blast
  ultimately have "consumed_from gone (hand - {i}) v (v'\<lparr>unacked := (unacked v')(i := None)\<rparr>)"
    using g old unfolding consumed_from_def by simp
  then show ?thesis unfolding consumed_def by blast
qed


section \<open>A Redis server that answers the main loop\<close>

text \<open>
  \<open>XREADGROUP\<close> with \<open>>\<close> answers with something from every stream that has something new, and with
  \<open>redis.Nil\<close> only when none has; a group that cannot be created is there already.
\<close>

locale steady_reader = steady_consumer E db clk I
  for E :: "'w env" and db :: "'w \<Rightarrow> redis_db" and clk :: "'w \<Rightarrow> time" and I :: "'w \<Rightarrow> bool" +
  assumes read_new_steady: "I w \<Longrightarrow> 0 < n \<Longrightarrow> x_read_group E g c (map (\<lambda>k. (k, ''>'')) ks) n block w = (rr, w') \<Longrightarrow>
    I w' \<and> (case rr of
        Inl e \<Rightarrow> errors_is e RedisNil \<and> db w' = db w \<and> (\<forall>k \<in> set ks. undelivered (db w) k g = [])
      | Inr res \<Rightarrow> \<forall>k \<in> set ks. undelivered (db w) k g \<noteq> [] \<longrightarrow> k \<in> fst ` set res)"
    and group_create_steady: "I w \<Longrightarrow> x_group_create E k g ''0'' w = (re, w') \<Longrightarrow> I w' \<and>
      (case re of None \<Rightarrow> True | Some e \<Rightarrow> error_text e = ''BUSYGROUP Consumer Group name already exists'')"

lemma mem_deliver_rest: "m_streams (fold (mem_deliver g c) res m) = m_streams m \<and> m_faults (fold (mem_deliver g c) res m) = m_faults m \<and>
    m_now (fold (mem_deliver g c) res m) = m_now m"
  by (induction res arbitrary: m) (auto simp: mem_deliver_def)

interpretation mem_steady_reader: steady_reader mem_env mem_db m_now steady_mem
proof (unfold_locales, goal_cases)
  case (1 w n g c ks block rr w')
  then have same: "w\<lparr>m_faults := []\<rparr> = w" and none: "m_faults w = []" by (cases w; simp add: steady_mem_def healthy_def)+
  obtain res u where run: "mem_read_new g c ks n (w\<lparr>m_faults := []\<rparr>) = (res, u)" by fastforce
  moreover note none
  moreover have "list_all (\<lambda>st. snd st = ''>'') (map (\<lambda>k. (k, ''>'')) ks)" by (simp add: list_all_iff)
  moreover have "map fst (map (\<lambda>k. (k, ''>'')) ks) = ks" by (simp add: comp_def)
  ultimately have rr: "rr = Inr res" and "u = w'" using 1(3) by (auto simp: mem_call_def comp_def)
  with run same have run: "mem_read_new g c ks n w = (res, w')" by simp
  then have w': "w' = fold (mem_deliver g c) res w" and res: "res = filter (\<lambda>kms. snd kms \<noteq> [])
      (map (\<lambda>k. (k, to_messages (take (nat n) (mem_undelivered k g w)))) (remdups ks))"
    by (auto simp: mem_read_new_def Let_def)
  have "steady_mem w'" using 1(1) mem_deliver_rest [of g c res w] by (simp add: w' steady_mem_def healthy_def)
  moreover have "k \<in> fst ` set res" if "k \<in> set ks" and "undelivered (mem_db w) k g \<noteq> []" for k
  proof -
    have "to_messages (take (nat n) (mem_undelivered k g w)) \<noteq> []"
      using that(2) 1(2) by (simp add: mem_undelivered to_messages_def)
    with that(1) have "(k, to_messages (take (nat n) (mem_undelivered k g w))) \<in> set res" by (simp add: res)
    then show ?thesis by force
  qed
  ultimately show ?case by (simp add: rr)
next
  case (2 w k g re w')
  then show ?case by auto
qed

section \<open>Reading a batch\<close>

definition batch_ids :: "(string \<times> XMessage list) list \<Rightarrow> string \<Rightarrow> string set" where
  "batch_ids res q = {xm_ID m | m ms. (streamKey q, ms) \<in> set res \<and> m \<in> set ms}"

lemma deliver_view:
  "view cfg (deliver (Group cfg) c (k, ms) d) q = (view cfg d q)
     \<lparr>unacked := (\<lambda>i. if i \<in> batch_ids [(k, ms)] q then Some c else unacked (view cfg d q) i),
      taken := taken (view cfg d q) \<union> batch_ids [(k, ms)] q\<rparr>"
  by (auto simp: view_def deliver_def batch_ids_def fun_eq_iff)

lemma batch_ids_Cons: "batch_ids (kms # res) q = batch_ids [kms] q \<union> batch_ids res q"
  by (auto simp: batch_ids_def)

lemma delivers_view:
  "view cfg (fold (deliver (Group cfg) c) res d) q = (view cfg d q)
     \<lparr>unacked := (\<lambda>i. if i \<in> batch_ids res q then Some c else unacked (view cfg d q) i),
      taken := taken (view cfg d q) \<union> batch_ids res q\<rparr>"
proof (induction res arbitrary: d)
  case Nil
  then show ?case by (simp add: batch_ids_def)
next
  case (Cons kms res)
  obtain k ms where kms: "kms = (k, ms)" by (cases kms)
  note ids = batch_ids_Cons [of "(k, ms)" res]
  have "(\<lambda>i. if i \<in> batch_ids res q then Some c else unacked (view cfg (deliver (Group cfg) c (k, ms) d) q) i) =
      (\<lambda>i. if i \<in> batch_ids ((k, ms) # res) q then Some c else unacked (view cfg d q) i)"
    unfolding deliver_view ids by (simp add: fun_eq_iff)
  moreover have "taken (view cfg (deliver (Group cfg) c (k, ms) d) q) \<union> batch_ids res q = taken (view cfg d q) \<union> batch_ids ((k, ms) # res) q"
    unfolding deliver_view ids by (simp add: Un_assoc)
  moreover have "ready (view cfg (deliver (Group cfg) c (k, ms) d) q) = ready (view cfg d q)"
    "later (view cfg (deliver (Group cfg) c (k, ms) d) q) = later (view cfg d q)"
    "retrying (view cfg (deliver (Group cfg) c (k, ms) d) q) = retrying (view cfg d q)"
    "dead (view cfg (deliver (Group cfg) c (k, ms) d) q) = dead (view cfg d q)"
    unfolding deliver_view by simp_all
  ultimately show ?case by (simp add: kms Cons.IH)
qed

lemma delivers_streams: "streams (fold (deliver g c) res d) = streams d"
  by (induction res arbitrary: d) (auto simp: deliver_def)

lemma batch_ids_of:
  assumes "distinct (map fst res)" and "(streamKey q, ms) \<in> set res"
  shows "batch_ids res q = xm_ID ` set ms"
  using assms by (auto simp: batch_ids_def dest: eq_key_imp_eq_value)

lemma batch_ids_none: "streamKey q \<notin> fst ` set res \<Longrightarrow> batch_ids res q = {}"
  by (force simp: batch_ids_def)

text \<open>The first entries are no longer new, and the others still are.\<close>

lemma filter_take_ids:
  assumes "distinct (map fst es)"
  shows "filter (\<lambda>e. fst e \<notin> fst ` set (take n es)) es = drop n es"
proof -
  have "filter P es = filter P (take n es) @ filter P (drop n es)" for P
    by (metis append_take_drop_id filter_append)
  moreover have "fst e \<notin> fst ` set (take n es)" if "e \<in> set (drop n es)" for e
    using assms that by (metis append_take_drop_id disjoint_iff distinct_append image_eqI list.set_map map_append)
  ultimately show ?thesis by (simp add: filter_empty_conv filter_id_conv image_eqI)
qed

lemma delivers_news:
  assumes ok: "read_new_ok (Group cfg) ks n d res" and d: "distinct (map fst (streams d (streamKey q)))"
  shows "news cfg (fold (deliver (Group cfg) c) res d) q =
    (if streamKey q \<in> fst ` set res then drop (nat n) (news cfg d q) else news cfg d q)"
proof -
  let ?d = "fold (deliver (Group cfg) c) res d"
  have "delivered ?d (streamKey q) (Group cfg) = delivered d (streamKey q) (Group cfg) \<union> batch_ids res q"
    using delivers_view [of cfg c res d q] by (simp add: view_def)
  then have n: "news cfg ?d q = filter (\<lambda>e. fst e \<notin> batch_ids res q) (news cfg d q)"
    by (auto simp: news_def undelivered_def delivers_streams filter_filter intro!: filter_cong)
  show ?thesis
  proof (cases "streamKey q \<in> fst ` set res")
    case True
    then obtain ms where ms: "(streamKey q, ms) \<in> set res" by force
    with ok have "ms = to_messages (take (nat n) (news cfg d q))" and "distinct (map fst res)"
      by (auto simp: read_new_ok_def news_def)
    then have "batch_ids res q = fst ` set (take (nat n) (news cfg d q))"
      using batch_ids_of [OF _ ms] arg_cong [OF to_messages_ids, of set] by simp
    moreover have "distinct (map fst (news cfg d q))"
      using d by (simp add: news_def undelivered_def distinct_map_filter)
    ultimately show ?thesis using True by (simp add: n filter_take_ids)
  next
    case False
    then show ?thesis by (simp add: n batch_ids_none)
  qed
qed

text \<open>What a batch holds was never delivered, and it is in the hands of the consumer now.\<close>

lemma batch_new:
  assumes d: "distinct (map fst (streams d (streamKey q)))" and rec: "consumed {} (v0 q) (view cfg d q)"
    and vs: "(i, vs) \<in> set (news cfg d q)"
  shows "new_message v0 q \<lparr>xm_ID = i, xm_Values = vs\<rparr>"
proof -
  let ?m = "\<lparr>xm_ID = i, xm_Values = vs\<rparr>" and ?es = "streams d (streamKey q)"
  from vs have es: "(i, vs) \<in> set ?es" and i: "i \<notin> taken (view cfg d q)" by (auto simp: news_def undelivered_def view_def)
  from rec obtain gone where g: "settled_from gone (v0 q) (view cfg d q)" and tk: "taken (v0 q) \<union> gone \<subseteq> taken (view cfg d q)"
    unfolding consumed_def consumed_from_def by blast
  with i have same: "(i, t) \<in> set (ready (v0 q)) \<longleftrightarrow> (i, t) \<in> set (tasks_of ?es)" for t
    by (auto simp: settled_from_def view_def)
  have old: "i \<notin> taken (v0 q)" using i tk by blast
  show ?thesis
  proof (cases "message_task ?m")
    case (Some t)
    with es have "(i, t) \<in> set (tasks_of ?es)" by (rule tasks_of_mem)
    with old same Some show ?thesis by (simp add: new_message_def)
  next
    case None
    have "(i, t) \<notin> set (tasks_of ?es)" for t
    proof
      assume "(i, t) \<in> set (tasks_of ?es)"
      then obtain us where us: "(i, us) \<in> set ?es" and task: "message_task \<lparr>xm_ID = i, xm_Values = us\<rparr> = Some t"
        using tasks_of_memD by blast
      from d us es have "us = vs" by (rule eq_key_imp_eq_value)
      with task None show False by simp
    qed
    with old same None show ?thesis by (force simp: new_message_def)
  qed
qed

lemma consumed_read:
  assumes "consumed {} v v'"
  shows "consumed A v (v'\<lparr>unacked := (\<lambda>i. if i \<in> A then Some c else unacked v' i), taken := taken v' \<union> A\<rparr>)"
proof -
  from assms obtain gone where g: "settled_from gone v v'" and old: "gone \<subseteq> fst ` set (ready v) - taken v" "taken v \<union> gone \<subseteq> taken v'"
    and rd: "fst ` set (ready v') \<inter> taken v' \<subseteq> taken v \<union> {}" and un: "dom (unacked v') \<subseteq> dom (unacked v) \<union> {}"
    unfolding consumed_def consumed_from_def by blast
  let ?v = "v'\<lparr>unacked := (\<lambda>i. if i \<in> A then Some c else unacked v' i), taken := taken v' \<union> A\<rparr>"
  have "settled_from gone v ?v" using g by (simp add: settled_from_def)
  moreover have "dom (unacked ?v) = dom (unacked v') \<union> A" by (auto split: if_splits)
  moreover have "fst ` set (ready ?v) \<inter> taken ?v \<subseteq> taken v \<union> A" using rd by auto
  moreover have "taken v \<union> gone \<subseteq> taken ?v" using old(2) by auto
  ultimately have "consumed_from gone A v ?v" using old(1) un unfolding consumed_from_def by blast
  then show ?thesis unfolding consumed_def by blast
qed

section \<open>One turn of the loop\<close>

text \<open>The services of the main loop answer, and what it finds is as it should be.\<close>

definition consuming :: "('w \<Rightarrow> redis_db) \<Rightarrow> ConsumerConfig \<Rightarrow> ('w \<Rightarrow> bool) \<Rightarrow> (string \<Rightarrow> queue_view) \<Rightarrow> (string \<Rightarrow> string set) \<Rightarrow> 'w \<Rightarrow> bool" where
  "consuming db cfg I v0 hand w \<longleftrightarrow> I w \<and> (\<forall>q. consumed (hand q) (v0 q) (view cfg (db w) q))"

definition in_hand :: "('w \<Rightarrow> redis_db) \<Rightarrow> ConsumerConfig \<Rightarrow> (string \<Rightarrow> queue_view) \<Rightarrow> 'w \<Rightarrow> string \<Rightarrow> XMessage \<Rightarrow> bool" where
  "in_hand db cfg v0 w q msg \<longleftrightarrow> new_message v0 q msg \<and> xm_ID msg \<in> taken (view cfg (db w) q)"

lemma in_hand_kept: "news_kept cfg (db w) (db w') \<Longrightarrow> in_hand db cfg v0 w q msg \<Longrightarrow> in_hand db cfg v0 w' q msg"
  by (simp add: in_hand_def news_kept_def)

lemma consume_message:
  assumes S: "steady_server S (\<lambda>w. view cfg (db w)) bnow now I" and B: "srv_broker S = redis_broker E cfg"
    and C: "steady_consumer E db clk I" and A: "apart_server db now S"
    and placed: "\<And>q i t. (i, t) \<in> set (ready (v0 q)) \<Longrightarrow> task_Queue t = q \<and> i \<noteq> ''''"
    and w: "consuming db cfg I v0 hand w" and msg: "in_hand db cfg v0 w q msg"
  shows "\<exists>r w'. processMessage E cfg (processTask now big S) q msg w = (Ret r, w') \<and>
    consuming db cfg I v0 (hand(q := hand q - {xm_ID msg})) w' \<and> news_kept cfg (db w) (db w')"
proof -
  from w have Iw: "I w" and rec: "consumed (hand q') (v0 q') (view cfg (db w) q')" for q' by (simp_all add: consuming_def)
  from msg have new: "new_message v0 q msg" and tk: "xm_ID msg \<in> taken (view cfg (db w) q)" by (simp_all add: in_hand_def)
  have R: "redis_server E db clk" using steady_consumer.axioms(1) [OF C] by (rule redis_consumer.axioms(1))
  have own: "task_Queue t = q" if "message_task msg = Some t" for t
    using that new placed by (auto simp: new_message_def)
  have "\<exists>r w'. processMessage E cfg (processTask now big S) q msg w = (Ret r, w') \<and>
    consuming db cfg I v0 (hand(q := hand q - {xm_ID msg})) w'"
  proof (cases "message_task msg")
    case None
    with new have no: "xm_ID msg \<notin> fst ` set (ready (v0 q))" by (simp add: new_message_def)
    from steady_consumer.unreadable_runs [OF C None Iw, of cfg "processTask now big S" q] obtain r w' where
      run: "processMessage E cfg (processTask now big S) q msg w = (Ret r, w')" and "I w'" and v: "view cfg (db w') =
        (view cfg (db w))(q := (view cfg (db w) q)\<lparr>unacked := (unacked (view cfg (db w) q))(xm_ID msg := None)\<rparr>)"
      by blast
    moreover have "consumed ((hand(q := hand q - {xm_ID msg})) q') (v0 q') (view cfg (db w') q')" for q'
      using consumed_skip [OF rec no] rec [of q'] v by (cases "q' = q") simp_all
    ultimately show ?thesis by (auto simp: consuming_def)
  next
    case (Some t)
    with new have t: "(xm_ID msg, t) \<in> set (ready (v0 q))" and old: "xm_ID msg \<notin> taken (v0 q)" by (simp_all add: new_message_def)
    from placed [OF t] have q: "task_Queue t = q" and i: "xm_ID msg \<noteq> ''''" by simp_all
    from steady_server.processMessage_settles [OF S B Iw Some i, of big] q obtain r w' where
      run: "processMessage E cfg (processTask now big S) q msg w = (Ret r, w')" and "I w'"
      and set: "message_settled (xm_ID msg) t r (view cfg (db w)) (view cfg (db w'))" by blast
    moreover have "consumed ((hand(q := hand q - {xm_ID msg})) q') (v0 q') (view cfg (db w') q')" for q'
      using consumed_message [OF rec _ _ _ set, of q'] t old tk q by simp
    ultimately show ?thesis by (auto simp: consuming_def)
  qed
  then obtain r w' where run: "processMessage E cfg (processTask now big S) q msg w = (Ret r, w')"
    and w': "consuming db cfg I v0 (hand(q := hand q - {xm_ID msg})) w'" by blast
  have "news_kept cfg (db w) (db w')"
    using redis_server.processMessage_stays [OF R B A own] run tk unfolding stays_def after_read_def by blast
  with run w' show ?thesis by blast
qed

lemma batch_ids_single: "batch_ids [(streamKey q, ms)] q' = (if q' = q then xm_ID ` set ms else {})"
  by (auto simp: batch_ids_def)

lemma consume_messages:
  assumes env: "steady_server S (\<lambda>w. view cfg (db w)) bnow now I" "srv_broker S = redis_broker E cfg"
      "steady_consumer E db clk I" "apart_server db now S"
      "\<And>q i t. (i, t) \<in> set (ready (v0 q)) \<Longrightarrow> task_Queue t = q \<and> i \<noteq> ''''"
    and "consuming db cfg I v0 hand w" and "\<forall>msg \<in> set msgs. in_hand db cfg v0 w q msg"
  shows "\<exists>w'. process_messages E cfg (processTask now big S) q msgs w = (Ret (), w') \<and>
    consuming db cfg I v0 (hand(q := hand q - xm_ID ` set msgs)) w' \<and> news_kept cfg (db w) (db w')"
  using assms(6,7)
proof (induction msgs arbitrary: w hand)
  case Nil
  then show ?case by (auto simp: process_messages_def go_return_def)
next
  case (Cons m ms)
  from consume_message [OF env Cons.prems(1), of q m big] Cons.prems(2) obtain r w1 where
    run: "processMessage E cfg (processTask now big S) q m w = (Ret r, w1)"
    and w1: "consuming db cfg I v0 (hand(q := hand q - {xm_ID m})) w1" and k: "news_kept cfg (db w) (db w1)" by auto
  have "\<forall>msg \<in> set ms. in_hand db cfg v0 w1 q msg" using Cons.prems(2) in_hand_kept [of cfg db w w1, OF k] by simp
  with Cons.IH [OF w1] obtain w' where
    rest: "process_messages E cfg (processTask now big S) q ms w1 = (Ret (), w')" and k': "news_kept cfg (db w1) (db w')"
    and w': "consuming db cfg I v0 ((hand(q := hand q - {xm_ID m}))(q := (hand(q := hand q - {xm_ID m})) q - xm_ID ` set ms)) w'"
    by blast
  have "(hand(q := hand q - {xm_ID m}))(q := (hand(q := hand q - {xm_ID m})) q - xm_ID ` set ms) = hand(q := hand q - xm_ID ` set (m # ms))"
    by (auto simp: fun_eq_iff)
  with w' have "consuming db cfg I v0 (hand(q := hand q - xm_ID ` set (m # ms))) w'" by (simp only:)
  moreover have "process_messages E cfg (processTask now big S) q (m # ms) w = (Ret (), w')"
    using run rest by (simp add: process_messages_def go_bind_Ret)
  ultimately show ?case using news_kept_trans [OF k k'] by blast
qed

lemma consume_results:
  assumes env: "steady_server S (\<lambda>w. view cfg (db w)) bnow now I" "srv_broker S = redis_broker E cfg"
      "steady_consumer E db clk I" "apart_server db now S"
      "\<And>q i t. (i, t) \<in> set (ready (v0 q)) \<Longrightarrow> task_Queue t = q \<and> i \<noteq> ''''"
    and "consuming db cfg I v0 hand w"
    and "\<forall>(k, ms) \<in> set res. \<exists>q. k = streamKey q \<and> (\<forall>msg \<in> set ms. in_hand db cfg v0 w q msg)"
  shows "\<exists>w'. go_fold (\<lambda>(stream, msgs) u.
               if length stream < length streamPrefix then go_panic ''slice bounds out of range''
               else process_messages E cfg (processTask now big S) (drop (length streamPrefix) stream) msgs) res () w = (Ret (), w') \<and>
    consuming db cfg I v0 (\<lambda>q. hand q - batch_ids res q) w' \<and> news_kept cfg (db w) (db w')"
  using assms(6,7)
proof (induction res arbitrary: w hand)
  case Nil
  then show ?case by (auto simp: batch_ids_def go_return_def)
next
  case (Cons kms res)
  from Cons.prems(2) obtain q ms where kms: "kms = (streamKey q, ms)" and ms: "\<forall>msg \<in> set ms. in_hand db cfg v0 w q msg"
    by (cases kms) auto
  from consume_messages [OF env Cons.prems(1) ms, of big] obtain w1 where
    run: "process_messages E cfg (processTask now big S) q ms w = (Ret (), w1)"
    and w1: "consuming db cfg I v0 (hand(q := hand q - xm_ID ` set ms)) w1" and k: "news_kept cfg (db w) (db w1)" by auto
  have "\<forall>(k, ms) \<in> set res. \<exists>q. k = streamKey q \<and> (\<forall>msg \<in> set ms. in_hand db cfg v0 w1 q msg)"
    using Cons.prems(2) in_hand_kept [of cfg db w w1, OF k] by fastforce
  from Cons.IH [OF w1 this] obtain w' where rest: "go_fold (\<lambda>(stream, msgs) u.
               if length stream < length streamPrefix then go_panic ''slice bounds out of range''
               else process_messages E cfg (processTask now big S) (drop (length streamPrefix) stream) msgs) res () w1 = (Ret (), w')"
    and w': "consuming db cfg I v0 (\<lambda>q'. (hand(q := hand q - xm_ID ` set ms)) q' - batch_ids res q') w'"
    and k': "news_kept cfg (db w1) (db w')" by blast
  have ids: "batch_ids (kms # res) q' = (if q' = q then xm_ID ` set ms else {}) \<union> batch_ids res q'" for q'
    using batch_ids_Cons [of kms res q'] batch_ids_single [of q ms q'] by (simp only: kms)
  have "(\<lambda>q'. (hand(q := hand q - xm_ID ` set ms)) q' - batch_ids res q') = (\<lambda>q'. hand q' - batch_ids (kms # res) q')"
    by (auto simp: fun_eq_iff ids)
  with w' news_kept_trans [OF k k'] run rest show ?case
    by (auto simp: kms go_bind_Ret streamKey_def)
qed

text \<open>The batch of one turn: its messages are new, and reading makes them delivered.\<close>

lemma batch_in_hand:
  assumes C: "steady_consumer E db clk I" and w: "consuming db cfg I v0 (\<lambda>q. {}) w" and "I w1"
    and ok: "read_new_ok (Group cfg) (map streamKey queues) n (db w) res"
    and db: "db w1 = fold (deliver (Group cfg) (Consumer cfg)) res (db w)"
  shows "consuming db cfg I v0 (\<lambda>q. batch_ids res q) w1"
    and "\<forall>(k, ms) \<in> set res. \<exists>q. k = streamKey q \<and> (\<forall>msg \<in> set ms. in_hand db cfg v0 w1 q msg)"
proof -
  from w have "I w" and rec: "consumed {} (v0 q) (view cfg (db w) q)" for q by (simp_all add: consuming_def)
  show "consuming db cfg I v0 (\<lambda>q. batch_ids res q) w1"
    unfolding consuming_def db delivers_view using consumed_read [OF rec] \<open>I w1\<close> by blast
  show "\<forall>(k, ms) \<in> set res. \<exists>q. k = streamKey q \<and> (\<forall>msg \<in> set ms. in_hand db cfg v0 w1 q msg)"
  proof (intro ballI, clarify)
    fix k ms assume kms: "(k, ms) \<in> set res"
    with ok obtain q where k: "k = streamKey q" and ms: "ms = to_messages (take (nat n) (news cfg (db w) q))"
      by (auto simp: read_new_ok_def news_def)
    have "in_hand db cfg v0 w1 q msg" if msg: "msg \<in> set ms" for msg
    proof -
      from msg ms have vs: "(xm_ID msg, xm_Values msg) \<in> set (news cfg (db w) q)"
        by (auto simp: to_messages_def dest: in_set_takeD)
      have "new_message v0 q \<lparr>xm_ID = xm_ID msg, xm_Values = xm_Values msg\<rparr>"
        by (rule batch_new [of "db w" q v0 cfg, OF steady_consumer.ids_unique [OF C \<open>I w\<close>] rec vs])
      moreover have "xm_ID msg \<in> batch_ids res q" using kms k msg by (auto simp: batch_ids_def)
      ultimately show ?thesis by (cases msg) (simp add: in_hand_def db delivers_view)
    qed
    with k show "\<exists>q. k = streamKey q \<and> (\<forall>msg \<in> set ms. in_hand db cfg v0 w1 q msg)" by blast
  qed
qed

lemma consume_turn:
  assumes S: "steady_server S (\<lambda>w. view cfg (db w)) bnow now I" and B: "srv_broker S = redis_broker E cfg"
    and C: "steady_reader E db clk I" and A: "apart_server db now S"
    and placed: "\<And>q i t. (i, t) \<in> set (ready (v0 q)) \<Longrightarrow> task_Queue t = q \<and> i \<noteq> ''''"
    and w: "consuming db cfg I v0 (\<lambda>q. {}) w" and n: "0 < BatchSize cfg"
  shows "\<exists>w'. consume_step E cfg (processTask now big S) (map (\<lambda>q. (streamKey q, ''>'')) queues) r w = (Ret (Inr 0), w') \<and>
    consuming db cfg I v0 (\<lambda>q. {}) w' \<and>
    (\<forall>q \<in> set queues. news cfg (db w') q = drop (nat (BatchSize cfg)) (news cfg (db w) q))"
proof -
  from w have "I w" and rec: "consumed {} (v0 q) (view cfg (db w) q)" for q by (simp_all add: consuming_def)
  note D = steady_reader.axioms(1) [OF C]
  have sts: "map (\<lambda>k. (k, ''>'')) (map streamKey queues) = map (\<lambda>q. (streamKey q, ''>'')) queues" by simp
  obtain rr w1 where read: "x_read_group E (Group cfg) (Consumer cfg) (map (\<lambda>q. (streamKey q, ''>'')) queues)
      (BatchSize cfg) (Some (BlockDuration cfg)) w = (rr, w1)" by fastforce
  note reading = read [folded sts]
  note steady = steady_reader.read_new_steady [OF C \<open>I w\<close> n reading]
  show ?thesis
  proof (cases rr)
    case (Inl e)
    with steady have "errors_is e RedisNil" and db: "db w1 = db w" and "I w1"
      and none: "\<forall>q \<in> set queues. news cfg (db w) q = []" by (simp_all add: news_def)
    with read Inl have "consume_step E cfg (processTask now big S) (map (\<lambda>q. (streamKey q, ''>'')) queues) r w = (Ret (Inr 0), w1)"
      by (simp add: consume_step_def go_bind_lift go_return_def)
    moreover have "consuming db cfg I v0 (\<lambda>q. {}) w1" using \<open>I w1\<close> rec by (simp add: consuming_def db)
    ultimately show ?thesis using none by (intro exI [of _ w1]) (simp add: db)
  next
    case (Inr res)
    from redis_consumer.read_new_ok [OF steady_consumer.axioms(1) [OF D] reading [unfolded Inr]]
    have ok: "read_new_ok (Group cfg) (map streamKey queues) (BatchSize cfg) (db w) res"
      and db: "db w1 = fold (deliver (Group cfg) (Consumer cfg)) res (db w)" by simp_all
    from steady Inr have "I w1" and all: "\<forall>q \<in> set queues. news cfg (db w) q \<noteq> [] \<longrightarrow> streamKey q \<in> fst ` set res"
      by (simp_all add: news_def)
    note batch = batch_in_hand [OF D w \<open>I w1\<close> ok db]
    from consume_results [OF S B D A placed batch, of big] obtain w' where
      run: "go_fold (\<lambda>(stream, msgs) u.
               if length stream < length streamPrefix then go_panic ''slice bounds out of range''
               else process_messages E cfg (processTask now big S) (drop (length streamPrefix) stream) msgs) res () w1 = (Ret (), w')"
      and w': "consuming db cfg I v0 (\<lambda>q. {}) w'" and k: "news_kept cfg (db w1) (db w')" by auto
    have "news cfg (db w') q = drop (nat (BatchSize cfg)) (news cfg (db w) q)" if "q \<in> set queues" for q
    proof -
      have "news cfg (db w') q = news cfg (db w1) q" using k by (simp add: news_kept_def)
      also have "\<dots> = drop (nat (BatchSize cfg)) (news cfg (db w) q)"
        using delivers_news [OF ok steady_consumer.ids_unique [OF D \<open>I w\<close>], of "Consumer cfg"] all that by (auto simp: db)
      finally show ?thesis .
    qed
    with read Inr run w' show ?thesis
      by (intro exI [of _ w']) (simp add: consume_step_def go_bind_lift go_bind_Ret go_return_def)
  qed
qed

section \<open>The loop catches up\<close>

lemma consume_turns:
  assumes env: "steady_server S (\<lambda>w. view cfg (db w)) bnow now I" "srv_broker S = redis_broker E cfg"
      "steady_reader E db clk I" "apart_server db now S"
      "\<And>q i t. (i, t) \<in> set (ready (v0 q)) \<Longrightarrow> task_Queue t = q \<and> i \<noteq> ''''"
    and n: "0 < BatchSize cfg" and "consuming db cfg I v0 (\<lambda>q. {}) w"
  shows "\<exists>w'. consume_loop fuel E cfg (processTask now big S) (map (\<lambda>q. (streamKey q, ''>'')) queues) r w = (Ret None, w') \<and>
    consuming db cfg I v0 (\<lambda>q. {}) w' \<and>
    (\<forall>q \<in> set queues. news cfg (db w') q = drop (fuel * nat (BatchSize cfg)) (news cfg (db w) q))"
  using assms(7)
proof (induction fuel arbitrary: r w)
  case 0
  then show ?case by (simp add: go_return_def)
next
  case (Suc fuel)
  from consume_turn [OF env Suc.prems n, of big queues r] obtain w1 where
    step: "consume_step E cfg (processTask now big S) (map (\<lambda>q. (streamKey q, ''>'')) queues) r w = (Ret (Inr 0), w1)"
    and w1: "consuming db cfg I v0 (\<lambda>q. {}) w1"
    and n1: "\<forall>q \<in> set queues. news cfg (db w1) q = drop (nat (BatchSize cfg)) (news cfg (db w) q)" by blast
  from Suc.IH [OF w1, of 0] obtain w' where
    "consume_loop fuel E cfg (processTask now big S) (map (\<lambda>q. (streamKey q, ''>'')) queues) 0 w1 = (Ret None, w')"
    and "consuming db cfg I v0 (\<lambda>q. {}) w'"
    and "\<forall>q \<in> set queues. news cfg (db w') q = drop (fuel * nat (BatchSize cfg)) (news cfg (db w1) q)" by blast
  with step n1 show ?case by (auto simp: go_bind_Ret add.commute)
qed

text \<open>When nothing is left to deliver, exactly the tasks that had never been delivered have gone.\<close>

lemma consumed_all:
  assumes "consumed {} v (view cfg d q)" and "news cfg d q = []"
  shows "settled_from (fst ` set (ready v) - taken v) v (view cfg d q)"
    and "ready (view cfg d q) = filter (\<lambda>e. fst e \<in> taken v) (ready v)" and "dom (unacked (view cfg d q)) \<subseteq> dom (unacked v)"
proof -
  let ?v = "view cfg d q"
  from assms(1) obtain gone where g: "settled_from gone v ?v" and old: "gone \<subseteq> fst ` set (ready v) - taken v"
    and rd: "fst ` set (ready ?v) \<inter> taken ?v \<subseteq> taken v" and un: "dom (unacked ?v) \<subseteq> dom (unacked v)"
    unfolding consumed_def consumed_from_def by auto
  have all: "i \<in> taken ?v" if t: "(i, t) \<in> set (ready ?v)" for i t
  proof -
    from t have "(i, t) \<in> set (tasks_of (streams d (streamKey q)))" by (simp add: view_def)
    then obtain vs where "(i, vs) \<in> set (streams d (streamKey q))" using tasks_of_memD by blast
    with assms(2) show ?thesis by (auto simp: news_def undelivered_def filter_empty_conv view_def)
  qed
  have ready: "ready ?v = filter (\<lambda>e. fst e \<notin> gone) (ready v)" using g by (simp add: settled_from_def)
  have mem: "i \<in> gone" if "i \<in> fst ` set (ready v) - taken v" for i
  proof (rule ccontr)
    assume "i \<notin> gone"
    from that obtain t where "(i, t) \<in> set (ready v)" by force
    with \<open>i \<notin> gone\<close> have "(i, t) \<in> set (ready ?v)" by (simp add: ready)
    with all rd that show False by force
  qed
  with old have gone: "gone = fst ` set (ready v) - taken v" by blast
  with g show "settled_from (fst ` set (ready v) - taken v) v ?v" by simp
  show "ready ?v = filter (\<lambda>e. fst e \<in> taken v) (ready v)"
    unfolding ready gone by (rule filter_cong) auto
  show "dom (unacked ?v) \<subseteq> dom (unacked v)" by (rule un)
qed

text \<open>
  The main loop catches up and never returns an error: after as many turns as there are batches in the fullest
  queue, or more, nothing in its queues is still to be delivered.
\<close>

theorem server_consumes_ready:
  assumes "steady_server S (\<lambda>w. view cfg (db w)) bnow now I" and "srv_broker S = redis_broker E cfg"
    and "steady_reader E db clk I" and "apart_server db now S" and "I w" and "0 < BatchSize cfg"
    and "\<And>q i t. (i, t) \<in> set (ready (view cfg (db w) q)) \<Longrightarrow> task_Queue t = q \<and> i \<noteq> ''''"
    and "\<forall>q \<in> set queues. length (news cfg (db w) q) \<le> fuel * nat (BatchSize cfg)"
  shows "\<exists>w'. consume_loop fuel E cfg (processTask now big S) (map (\<lambda>q. (streamKey q, ''>'')) queues) r w = (Ret None, w') \<and>
    (\<forall>q \<in> set queues. let v = view cfg (db w) q; v' = view cfg (db w') q in
       news cfg (db w') q = [] \<and> settled_from (fst ` set (ready v) - taken v) v v' \<and>
       ready v' = filter (\<lambda>e. fst e \<in> taken v) (ready v) \<and> dom (unacked v') \<subseteq> dom (unacked v))"
proof -
  have "consuming db cfg I (view cfg (db w)) (\<lambda>q. {}) w" using assms(5) consumed_refl by (simp add: consuming_def)
  from consume_turns [OF assms(1-4,7,6) this, of fuel big queues r] obtain w' where
    run: "consume_loop fuel E cfg (processTask now big S) (map (\<lambda>q. (streamKey q, ''>'')) queues) r w = (Ret None, w')"
    and w': "consuming db cfg I (view cfg (db w)) (\<lambda>q. {}) w'"
    and news: "\<forall>q \<in> set queues. news cfg (db w') q = drop (fuel * nat (BatchSize cfg)) (news cfg (db w) q)" by blast
  from w' have rec: "consumed {} (view cfg (db w) q) (view cfg (db w') q)" for q by (simp add: consuming_def)
  have none: "news cfg (db w') q = []" if "q \<in> set queues" for q using news assms(8) that by simp
  from run none consumed_all [OF rec none] show ?thesis by (auto simp: Let_def)
qed

lemma demo_server_apart: "apart_server mem_db (clock mem_env) demo_server"
  by (auto simp: apart_server_def demo_store_def demo_failing_def go_return_def split: if_splits)

section \<open>A consumer from its start on\<close>

lemma create_groups_steady:
  assumes C: "steady_reader E db clk I" and "I w"
  shows "\<exists>w'. create_groups E cfg queues w = (Ret None, w') \<and> I w' \<and> db w' = db w"
  using assms(2)
proof (induction queues arbitrary: w)
  case Nil
  then show ?case by (auto simp: go_return_def)
next
  case (Cons q queues)
  obtain re w1 where run: "x_group_create E (streamKey q) (Group cfg) ''0'' w = (re, w1)" by fastforce
  from redis_consumer.group_create_ok [OF steady_consumer.axioms(1) [OF steady_reader.axioms(1) [OF C]] run]
  have db: "db w1 = db w" by simp
  note ok = steady_reader.group_create_steady [OF C Cons.prems run]
  then have "create_groups E cfg (q # queues) w = create_groups E cfg queues w1"
    using run by (simp add: go_bind_lift split: option.splits)
  with Cons.IH [of w1] ok db show ?case by auto
qed

text \<open>Recovery leaves the entries alone that are still to be delivered.\<close>

lemma settles_kept:
  assumes set: "settles db E cfg (processTask now big S) I P" and R: "redis_consumer E db clk"
    and S: "srv_broker S = redis_broker E cfg" "apart_server db now S"
    and P: "\<And>q msg. P q msg \<Longrightarrow> xm_ID msg \<in> taken (view cfg d q) \<and> (\<forall>t. message_task msg = Some t \<longrightarrow> task_Queue t = q)"
  shows "settles db E cfg (processTask now big S) (\<lambda>w. I w \<and> news_kept cfg d (db w)) P"
  unfolding settles_def
proof (rule conjI; intro allI impI)
  fix q msg w
  assume w: "I w \<and> news_kept cfg d (db w)" and msg: "P q msg"
  from set w msg obtain e w' where run: "processMessage E cfg (processTask now big S) q msg w = (Ret e, w')" and "I w'"
    and own: "xm_ID msg \<notin> own_pending cfg (db w') q" "\<forall>q'. own_pending cfg (db w') q' \<subseteq> own_pending cfg (db w) q'"
    unfolding settles_def by blast
  have "xm_ID msg \<in> taken (view cfg (db w) q)" using P [OF msg] w by (simp add: news_kept_def)
  moreover have "stays (after_read db cfg q (xm_ID msg)) (processMessage E cfg (processTask now big S) q msg)"
    using P [OF msg] by (intro redis_server.processMessage_stays [OF redis_consumer.axioms(1) [OF R] S]) simp
  ultimately have "news_kept cfg (db w) (db w')" using run unfolding stays_def after_read_def by blast
  with w have "news_kept cfg d (db w')" using news_kept_trans by blast
  with run \<open>I w'\<close> own show "\<exists>e w'. processMessage E cfg (processTask now big S) q msg w = (Ret e, w') \<and>
     (I w' \<and> news_kept cfg d (db w')) \<and> xm_ID msg \<notin> own_pending cfg (db w') q \<and>
     (\<forall>q'. own_pending cfg (db w') q' \<subseteq> own_pending cfg (db w) q')" by blast
next
  fix q w r w'
  assume w: "I w \<and> news_kept cfg d (db w)"
    and read: "x_read_group E (Group cfg) (Consumer cfg) [(streamKey q, ''0'')] (BatchSize cfg) None w = (r, w')"
  have "db w' = db w" using read redis_consumer.read_pending_ok [OF R] redis_consumer.read_pending_fail [OF R] by (cases r) blast+
  moreover have "I w' \<and> (\<forall>k ms. r = Inr [(k, ms)] \<longrightarrow> list_all (P q) ms)" using set w read unfolding settles_def by blast
  ultimately show "(I w' \<and> news_kept cfg d (db w')) \<and> (\<forall>k ms. r = Inr [(k, ms)] \<longrightarrow> list_all (P q) ms)"
    using w by simp
qed

lemma recovers_pending:
  assumes S: "steady_server S (\<lambda>w. view cfg (db w)) bnow now I" and B: "srv_broker S = redis_broker E cfg"
    and C: "steady_consumer E db clk I" and A: "apart_server db now S" and "I w"
    and placed: "\<And>q i t. (i, t) \<in> set (ready (view cfg (db w) q)) \<Longrightarrow> task_Queue t = q \<and> i \<noteq> ''''"
    and read: "\<And>q. dom (unacked (view cfg (db w) q)) \<subseteq> taken (view cfg (db w) q)"
    and fuel: "\<forall>q \<in> set queues. finite (own_pending cfg (db w) q) \<and> card (own_pending cfg (db w) q) < fuel"
  shows "\<exists>w'. recoverOwnPending fuel E cfg (processTask now big S) queues w = (Ret (Some None), w') \<and> I w' \<and>
    news_kept cfg (db w) (db w') \<and> (\<forall>q. recovered (Consumer cfg) (view cfg (db w) q) (view cfg (db w') q)) \<and>
    (\<forall>q \<in> set queues. own_pending cfg (db w') q = {})"
proof -
  let ?I = "\<lambda>x. I x \<and> (\<forall>q. recovered (Consumer cfg) (view cfg (db w) q) (view cfg (db x) q))"
  let ?J = "\<lambda>x. ?I x \<and> news_kept cfg (db w) (db x)"
  note R = steady_consumer.axioms(1) [OF C]
  have P: "xm_ID msg \<in> taken (view cfg (db w) q) \<and> (\<forall>t. message_task msg = Some t \<longrightarrow> task_Queue t = q)"
    if "of_queue cfg (view cfg (db w)) q msg" for q msg
  proof
    have "unacked (view cfg (db w) q) (xm_ID msg) = Some (Consumer cfg)" using that by (simp add: of_queue_def pending_of_def)
    then show "xm_ID msg \<in> taken (view cfg (db w) q)" using read [of q] by (blast intro: domI)
    show "\<forall>t. message_task msg = Some t \<longrightarrow> task_Queue t = q" using that placed by (auto simp: of_queue_def)
  qed
  have "settles db E cfg (processTask now big S) ?J (of_queue cfg (view cfg (db w)))"
    by (rule settles_kept [OF processTask_settles_all [OF S B C placed] R B A P])
  moreover have "?J w" using \<open>I w\<close> recovered_refl by simp
  ultimately obtain r w' where
    run: "recoverOwnPending fuel E cfg (processTask now big S) queues w = (Ret (Some r), w')" and J: "?J w'"
    and empty: "r = None \<longrightarrow> (\<forall>q \<in> set queues. own_pending cfg (db w') q = {})"
    and fails: "\<forall>err. r = Some err \<longrightarrow> read_fails E cfg ?J err"
    using redis_consumer.recoverOwnPending_drains [OF R _ _ fuel] by blast
  have "\<not> read_fails E cfg ?J err" for err
    using steady_consumer.read_steady [OF C] unfolding read_fails_def by blast
  with fails have "r = None" by (cases r) auto
  with run J empty show ?thesis by blast
qed

lemma settled_from_trans:
  assumes "settled_from A v v1" and "settled_from B v1 v2"
  shows "settled_from (A \<union> B) v v2"
proof -
  from assms obtain ds es where "dead v1 = dead v @ ds" and "\<forall>e \<in> set ds. died_of A v (snd e)"
    and "dead v2 = dead v1 @ es" and "\<forall>e \<in> set es. died_of B v1 (snd e)" unfolding settled_from_def by blast
  note dead = this
  have sub: "set (ready v1) \<subseteq> set (ready v)" by (rule settled_ready [OF assms(1)])
  have "died_of (A \<union> B) v t" if "died_of B v1 t" for t using that sub unfolding died_of_def by blast
  moreover have "died_of (A \<union> B) v t" if "died_of A v t" for t by (rule of_mono(1) [OF _ that]) simp
  ultimately have "dead v2 = dead v @ (ds @ es) \<and> (\<forall>e \<in> set (ds @ es). died_of (A \<union> B) v (snd e))" using dead by auto
  then have "\<exists>ds. dead v2 = dead v @ ds \<and> (\<forall>e \<in> set ds. died_of (A \<union> B) v (snd e))" by blast
  moreover have w: "waits_of (A \<union> B) v m" if "waits_of B v1 m" for m using that sub unfolding waits_of_def by blast
  moreover have w': "waits_of (A \<union> B) v m" if "waits_of A v m" for m by (rule of_mono(2) [OF _ that]) simp
  moreover have "\<forall>m \<in> dom (retrying v2). m \<in> dom (retrying v) \<or> waits_of (A \<union> B) v m"
    using assms w w' unfolding settled_from_def by metis
  moreover have "ready v2 = filter (\<lambda>e. fst e \<notin> A \<union> B) (ready v)"
    using assms by (auto simp: settled_from_def filter_filter intro!: filter_cong)
  ultimately show ?thesis using assms unfolding settled_from_def by (metis subset_trans)
qed

text \<open>Recovery and main loop together, on one queue.\<close>

lemma recovered_then_consumed:
  assumes r: "recovered c v v1" "pending_of c (unacked v1) = {}" and same: "taken v1 = taken v"
    and s: "settled_from (fst ` set (ready v1) - taken v1) v1 v2" "dom (unacked v2) \<subseteq> dom (unacked v1)"
  shows "settled_from (pending_of c (unacked v) \<union> (fst ` set (ready v) - taken v)) v v2"
    and "ready v2 = filter (\<lambda>e. unacked v (fst e) \<noteq> Some c \<and> fst e \<in> taken v) (ready v)"
    and "dom (unacked v2) \<subseteq> dom (unacked v) - pending_of c (unacked v)"
proof -
  let ?own = "pending_of c (unacked v)"
  have g: "settled_from ?own v v1" and u: "unacked v1 = unacked v |` (- ?own)"
    using recovered_all(1) [OF r] by (simp_all add: recovered_from_iff)
  have ready: "ready v1 = filter (\<lambda>e. fst e \<notin> ?own) (ready v)" using g by (simp add: settled_from_def)
  have ids: "?own \<union> (fst ` set (ready v1) - taken v1) = ?own \<union> (fst ` set (ready v) - taken v)"
    unfolding same ready by auto
  show "settled_from (?own \<union> (fst ` set (ready v) - taken v)) v v2"
    using settled_from_trans [OF g s(1)] unfolding ids .
  then have "ready v2 = filter (\<lambda>e. fst e \<notin> ?own \<union> (fst ` set (ready v) - taken v)) (ready v)"
    by (simp add: settled_from_def)
  also have "\<dots> = filter (\<lambda>e. unacked v (fst e) \<noteq> Some c \<and> fst e \<in> taken v) (ready v)"
    by (rule filter_cong) (auto simp: pending_of_def)
  finally show "ready v2 = filter (\<lambda>e. unacked v (fst e) \<noteq> Some c \<and> fst e \<in> taken v) (ready v)" .
  show "dom (unacked v2) \<subseteq> dom (unacked v) - ?own" using s(2) unfolding u by auto
qed

text \<open>
  C4. When the services answer, the handlers return or panic and leave Redis and their task alone, every
  task is in the stream of its own queue and what is unacknowledged has been delivered, a server that subscribes
  gets its groups, finishes its recovery and then catches up with its queues, and never returns an error: one turn more of
  recovery than there are messages pending for it in the fullest queue, and as many turns of the main loop as
  there are batches in it, are enough. Then nothing is still to be delivered. In each of its queues exactly the tasks
  that had been delivered to this consumer and the tasks that had never been delivered have left the stream, in whatever way
  their handling ended, and none of them is left unacknowledged; the tasks of other consumers are there in their
  order, the scheduled tasks are the same, nothing has left the dead letter queue or the retry set, and what
  is new in these is the next attempt of one of the tasks handled: dead exactly when it had none left.
\<close>

theorem server_subscribes:
  assumes "steady_server S (\<lambda>w. view cfg (db w)) bnow now I" and "srv_broker S = redis_broker E cfg"
    and "steady_reader E db clk I" and "apart_server db now S" and "I w" and "0 < BatchSize cfg"
    and "\<And>q i t. (i, t) \<in> set (ready (view cfg (db w) q)) \<Longrightarrow> task_Queue t = q \<and> i \<noteq> ''''"
    and "\<And>q. dom (unacked (view cfg (db w) q)) \<subseteq> taken (view cfg (db w) q)"
    and "\<forall>q \<in> set queues. finite (own_pending cfg (db w) q) \<and> card (own_pending cfg (db w) q) < fuel"
    and "\<forall>q \<in> set queues. length (news cfg (db w) q) \<le> fuel * nat (BatchSize cfg)"
  shows "\<exists>w'. Subscribe fuel E cfg queues (processTask now big S) w = (Ret None, w') \<and>
    (\<forall>q \<in> set queues. let v = view cfg (db w) q; v' = view cfg (db w') q; own = pending_of (Consumer cfg) (unacked v) in
       news cfg (db w') q = [] \<and> settled_from (own \<union> (fst ` set (ready v) - taken v)) v v' \<and>
       ready v' = filter (\<lambda>e. unacked v (fst e) \<noteq> Some (Consumer cfg) \<and> fst e \<in> taken v) (ready v) \<and>
       dom (unacked v') \<subseteq> dom (unacked v) - own)"
proof -
  note C = steady_reader.axioms(1) [OF assms(3)]
  obtain w0 where groups: "create_groups E cfg queues w = (Ret None, w0)" and I0: "I w0" and db0: "db w0 = db w"
    using create_groups_steady [OF assms(3,5)] by blast
  from recovers_pending [OF assms(1,2) C assms(4) I0, unfolded db0, OF assms(7-9), of big] obtain w1 where
    rec: "recoverOwnPending fuel E cfg (processTask now big S) queues w0 = (Ret (Some None), w1)" and I1: "I w1"
    and kept: "news_kept cfg (db w) (db w1)" and r: "\<And>q. recovered (Consumer cfg) (view cfg (db w) q) (view cfg (db w1) q)"
    and none: "\<forall>q \<in> set queues. own_pending cfg (db w1) q = {}" by blast
  have placed: "task_Queue t = q \<and> i \<noteq> ''''" if "(i, t) \<in> set (ready (view cfg (db w1) q))" for q i t
  proof (rule assms(7))
    show "(i, t) \<in> set (ready (view cfg (db w) q))" using that r [of q] by (auto simp: recovered_def recovered_from_def)
  qed
  have news: "news cfg (db w1) q = news cfg (db w) q" "taken (view cfg (db w1) q) = taken (view cfg (db w) q)" for q
    using kept by (simp_all add: news_kept_def)
  have "consuming db cfg I (view cfg (db w1)) (\<lambda>q. {}) w1" using I1 consumed_refl by (simp add: consuming_def)
  from consume_turns [OF assms(1-4) placed assms(6) this, of fuel big queues 0] obtain w' where
    run: "consume_loop fuel E cfg (processTask now big S) (map (\<lambda>q. (streamKey q, ''>'')) queues) 0 w1 = (Ret None, w')"
    and w': "consuming db cfg I (view cfg (db w1)) (\<lambda>q. {}) w'"
    and left: "\<forall>q \<in> set queues. news cfg (db w') q = drop (fuel * nat (BatchSize cfg)) (news cfg (db w1) q)" by blast
  have "Subscribe fuel E cfg queues (processTask now big S) w = (Ret None, w')"
    using groups rec run by (simp add: Subscribe_def go_bind_Ret)
  moreover have empty: "news cfg (db w') q = []" if "q \<in> set queues" for q using left assms(10) that by (simp add: news)
  moreover have own: "pending_of (Consumer cfg) (unacked (view cfg (db w1) q)) = {}" if "q \<in> set queues" for q
    using none that by (simp add: own_pending_view)
  moreover have c: "consumed {} (view cfg (db w1) q) (view cfg (db w') q)" for q using w' by (simp add: consuming_def)
  moreover note recovered_then_consumed [OF r own news(2) consumed_all(1) [OF c empty] consumed_all(3) [OF c empty]]
  ultimately show ?thesis by (intro exI [of _ w']) (simp add: Let_def)
qed

text \<open>One message that was delivered before and one that never was.\<close>

definition started_mem :: mem where
  "started_mem = pending_mem\<lparr>m_streams := (\<lambda>_. [])(streamKey ''critical'' :=
     [(''i'', [(''data'', JsonText (json_task demo_task))]), (''j'', [(''data'', JsonText (json_task demo_task))])])\<rparr>"

lemma started_mem_steady: "steady_mem started_mem"
  by (simp add: started_mem_def steady_mem_def healthy_def pending_mem_def empty_mem_def time_printable_def unix_def Second_def)

lemma started_mem_view:
  "ready (view DefaultConsumerConfig (mem_db started_mem) q) =
    (if q = ''critical'' then [(''i'', norm_task demo_task), (''j'', norm_task demo_task)] else [])"
  "unacked (view DefaultConsumerConfig (mem_db started_mem) q) =
    (if q = ''critical'' then [''i'' \<mapsto> Consumer DefaultConsumerConfig] else Map.empty)"
  "taken (view DefaultConsumerConfig (mem_db started_mem) q) = (if q = ''critical'' then {''i''} else {})"
  "own_pending DefaultConsumerConfig (mem_db started_mem) ''critical'' = {''i''}"
  "length (news DefaultConsumerConfig (mem_db started_mem) ''critical'') = 1"
  by (auto simp: view_def news_def undelivered_def own_pending_def started_mem_def pending_mem_def mem_db_def fun_eq_iff
      message_task_def demo_task_reads split: if_splits)

theorem server_subscribes_witness:
  "\<exists>w'. Subscribe 2 mem_env DefaultConsumerConfig [''critical''] (processTask (clock mem_env) 0 demo_server) started_mem = (Ret None, w') \<and>
    ready (view DefaultConsumerConfig (mem_db w') ''critical'') = []"
proof -
  have "(i, t) \<in> set (ready (view DefaultConsumerConfig (mem_db started_mem) q)) \<Longrightarrow> task_Queue t = q \<and> i \<noteq> ''''" for q i t
    by (auto simp: started_mem_view norm_task_def demo_task_def task_Queue_def zero_options_def norm_options_def split: if_splits)
  moreover have "dom (unacked (view DefaultConsumerConfig (mem_db started_mem) q)) \<subseteq> taken (view DefaultConsumerConfig (mem_db started_mem) q)" for q
    by (simp add: started_mem_view)
  moreover have "0 < BatchSize DefaultConsumerConfig" "1 \<le> 2 * nat (BatchSize DefaultConsumerConfig)"
    by (simp_all add: DefaultConsumerConfig_def)
  ultimately show ?thesis
    using server_subscribes [OF mem_server.steady_server_axioms demo_server_sel(1) mem_steady_reader.steady_reader_axioms
        demo_server_apart started_mem_steady, of "[''critical'']" 2 0]
    by (fastforce simp: started_mem_view Let_def simp del: mem_env_sel)
qed

end
