(* ===== verification/Server_Lifecycle.thy ===== *)
theory Server_Lifecycle
  imports Server_Core
begin

text \<open>
  \<open>Start\<close>, \<open>Shutdown\<close> and the goroutines of \<^verbatim>\<open>server.go\<close> as a state machine. A call of \<open>Start\<close> that gets past
  its first check is named by the number of the shutdown channel it makes (0 is the one \<open>NewServer\<close>
  made). The steps are the sections of the code that run without waiting; the waits (the select, the wait
  for the goroutines or the timeout) are the gaps between them, where the steps of other goroutines
  come in. A wake-up of the select is an input: a signal, the result of \<open>Subscribe\<close>, or the closed
  channel. Only the control flow is here; what the goroutines do is in \<open>Server_Core\<close>.
\<close>

section \<open>The state\<close>

datatype phase = Selecting | Draining | Returned "go_error option"

record lifecycle =
  running :: bool
  shutdown :: nat                          \<comment> \<open>the channel in \<open>s.shutdown\<close>\<close>
  closed :: "nat set"
  wg :: nat
  workers :: "nat \<Rightarrow> nat"                  \<comment> \<open>goroutines of each call that have not ended\<close>
  calls :: "nat \<Rightarrow> phase option"

definition new_lifecycle :: lifecycle where
  "new_lifecycle = \<lparr>running = False, shutdown = 0, closed = {}, wg = 0, workers = (\<lambda>_. 0), calls = Map.empty\<rparr>"

section \<open>The code between the waits\<close>

text \<open>Up to the select. The goroutine that runs \<open>Subscribe\<close> is not in the wait group.\<close>

definition start_enter :: "'w Server \<Rightarrow> lifecycle \<Rightarrow> (go_error + nat) \<times> lifecycle" where
  "start_enter s l =
     (if running l then (Inl (ErrText ''server is already running''), l)
      else let c = Suc (shutdown l); n = (if srv_enableConsumerCleanup s then 2 else 1)
           in (Inr c, l\<lparr>running := True, shutdown := c, wg := wg l + n, workers := (workers l)(c := n),
                 calls := (calls l)(c \<mapsto> Selecting)\<rparr>))"

datatype wake_up = SignalReceived | SubscribeReturned "go_error option" | ShutdownClosed

text \<open>The select, and the cancellation of the context; the error path returns here.\<close>

definition start_wake :: "nat \<Rightarrow> wake_up \<Rightarrow> lifecycle \<Rightarrow> lifecycle" where
  "start_wake c ev l = (case ev of
      SubscribeReturned (Some err) \<Rightarrow>
        if errors_is err ContextCanceled then l\<lparr>calls := (calls l)(c \<mapsto> Draining)\<rparr>
        else l\<lparr>calls := (calls l)(c \<mapsto> Returned (Some err))\<rparr>
    | _ \<Rightarrow> l\<lparr>calls := (calls l)(c \<mapsto> Draining)\<rparr>)"

text \<open>After the wait for the goroutines or the timeout.\<close>

definition start_finish :: "nat \<Rightarrow> lifecycle \<Rightarrow> lifecycle" where
  "start_finish c l = l\<lparr>running := False, calls := (calls l)(c \<mapsto> Returned None)\<rparr>"

definition Shutdown :: "lifecycle \<Rightarrow> lifecycle outcome" where
  "Shutdown l =
     (if running l then
        if shutdown l \<in> closed l then Panic ''close of closed channel''
        else Ret (l\<lparr>closed := insert (shutdown l) (closed l)\<rparr>)
      else Ret l)"

text \<open>The scheduler or the cleanup of a call sees its context cancelled: \<open>wg.Done\<close>.\<close>

definition worker_done :: "nat \<Rightarrow> lifecycle \<Rightarrow> lifecycle" where
  "worker_done c l = l\<lparr>wg := wg l - 1, workers := (workers l)(c := workers l c - 1)\<rparr>"

section \<open>Steps\<close>

inductive life_step :: "'w Server \<Rightarrow> lifecycle \<Rightarrow> lifecycle \<Rightarrow> bool" for s where
  start: "start_enter s l = (r, l') \<Longrightarrow> life_step s l l'"
| shutdown: "Shutdown l = Ret l' \<Longrightarrow> life_step s l l'"
| wake: "calls l c = Some Selecting \<Longrightarrow> ev = ShutdownClosed \<longrightarrow> c \<in> closed l \<Longrightarrow> life_step s l (start_wake c ev l)"
| worker: "0 < workers l c \<Longrightarrow> calls l c \<noteq> Some Selecting \<Longrightarrow> life_step s l (worker_done c l)"
| drained: "calls l c = Some Draining \<Longrightarrow> wg l = 0 \<Longrightarrow> life_step s l (start_finish c l)"
| timed_out: "calls l c = Some Draining \<Longrightarrow> life_step s l (start_finish c l)"

inductive life_reachable :: "'w Server \<Rightarrow> lifecycle \<Rightarrow> bool" for s where
  init: "life_reachable s new_lifecycle"
| step: "life_reachable s l \<Longrightarrow> life_step s l l' \<Longrightarrow> life_reachable s l'"

inductive life_steps :: "'w Server \<Rightarrow> lifecycle \<Rightarrow> lifecycle \<Rightarrow> bool" for s where
  refl: "life_steps s l l"
| step: "life_step s l l1 \<Longrightarrow> life_steps s l1 l2 \<Longrightarrow> life_steps s l l2"

inductive_cases life_stepE: "life_step s l l'"

lemmas life_defs = start_enter_def start_wake_def start_finish_def Shutdown_def worker_done_def Let_def

section \<open>Invariants\<close>

text \<open>
  Every call but the last has returned nil. The server counts as running exactly while the last call has
  not done so, that is, also when it has returned an error. The wait group counts the goroutines.
\<close>

definition lifecycle_ok :: "lifecycle \<Rightarrow> bool" where
  "lifecycle_ok l \<longleftrightarrow>
     (\<forall>c. calls l c \<noteq> None \<longleftrightarrow> 1 \<le> c \<and> c \<le> shutdown l) \<and>
     (\<forall>c. c < shutdown l \<longrightarrow> calls l c \<in> {None, Some (Returned None)}) \<and>
     (running l \<longleftrightarrow> shutdown l \<noteq> 0 \<and> calls l (shutdown l) \<noteq> Some (Returned None)) \<and>
     (\<forall>c \<in> closed l. 1 \<le> c \<and> c \<le> shutdown l) \<and>
     (\<forall>c. shutdown l < c \<longrightarrow> workers l c = 0) \<and> wg l = (\<Sum>c \<le> shutdown l. workers l c)"

lemma lifecycle_ok_new: "lifecycle_ok new_lifecycle"
  by (simp add: lifecycle_ok_def new_lifecycle_def)

lemma selecting_current:
  assumes "lifecycle_ok l" and "calls l c = Some p" and "p \<noteq> Returned None"
  shows "c = shutdown l" and "running l" and "c \<noteq> 0"
proof -
  from assms(1,2) have c: "1 \<le> c \<and> c \<le> shutdown l" unfolding lifecycle_ok_def by (metis option.distinct(1))
  show "c = shutdown l"
  proof (rule ccontr)
    assume "c \<noteq> shutdown l"
    with c have "c < shutdown l" by simp
    with assms(1) have "calls l c \<in> {None, Some (Returned None)}" unfolding lifecycle_ok_def by blast
    with assms(2,3) show False by simp
  qed
  with assms c show "running l" and "c \<noteq> 0" by (auto simp: lifecycle_ok_def)
qed

lemma start_enter_ok:
  assumes ok: "lifecycle_ok l" and run: "start_enter s l = (r, l')"
  shows "lifecycle_ok l'"
proof (cases "running l")
  case True
  with assms show ?thesis by (simp add: start_enter_def)
next
  case False
  define n :: nat where "n = (if srv_enableConsumerCleanup s then 2 else 1)"
  have l': "l' = l\<lparr>running := True, shutdown := Suc (shutdown l), wg := wg l + n,
      workers := (workers l)(Suc (shutdown l) := n), calls := (calls l)(Suc (shutdown l) \<mapsto> Selecting)\<rparr>"
    using run False by (auto simp: start_enter_def n_def Let_def)
  have last: "shutdown l \<noteq> 0 \<longrightarrow> calls l (shutdown l) = Some (Returned None)"
    using ok False by (auto simp: lifecycle_ok_def)
  have "(\<Sum>c \<le> shutdown l. ((workers l)(Suc (shutdown l) := n)) c) = (\<Sum>c \<le> shutdown l. workers l c)"
    by (rule sum.cong) auto
  then have wg: "(\<Sum>c \<le> Suc (shutdown l). ((workers l)(Suc (shutdown l) := n)) c) = wg l + n"
    using ok by (simp add: lifecycle_ok_def)
  have zero: "calls l 0 = None" using ok by (auto simp: lifecycle_ok_def)
  have prev: "calls l c \<in> {None, Some (Returned None)}" if "c < Suc (shutdown l)" for c
  proof (cases "c = shutdown l")
    case True
    with last zero show ?thesis by (cases "shutdown l = 0") auto
  next
    case False
    with that ok show ?thesis by (auto simp: lifecycle_ok_def)
  qed
  show ?thesis unfolding lifecycle_ok_def l'
    using ok wg prev by (auto simp: lifecycle_ok_def le_Suc_eq simp del: sum.atMost_Suc)
qed


lemma start_wake_ok:
  assumes ok: "lifecycle_ok l" and sel: "calls l c = Some Selecting"
  shows "lifecycle_ok (start_wake c ev l)"
proof -
  from selecting_current [OF ok sel] have c: "c = shutdown l" "running l" "c \<noteq> 0" by simp_all
  have "lifecycle_ok (l\<lparr>calls := (calls l)(c \<mapsto> p)\<rparr>)" if "p \<noteq> Returned None" for p
    using ok sel c that by (auto simp: lifecycle_ok_def)
  then show ?thesis by (auto simp: start_wake_def split: wake_up.split option.split)
qed

lemma start_finish_ok:
  assumes ok: "lifecycle_ok l" and drain: "calls l c = Some Draining"
  shows "lifecycle_ok (start_finish c l)"
proof -
  from selecting_current [OF ok drain] have "c = shutdown l" "running l" "c \<noteq> 0" by simp_all
  with ok drain show ?thesis by (auto simp: lifecycle_ok_def start_finish_def)
qed

lemma Shutdown_ok: "lifecycle_ok l \<Longrightarrow> Shutdown l = Ret l' \<Longrightarrow> lifecycle_ok l'"
  by (auto simp: Shutdown_def lifecycle_ok_def split: if_splits)

lemma worker_done_ok:
  assumes ok: "lifecycle_ok l" and w: "0 < workers l c"
  shows "lifecycle_ok (worker_done c l)"
proof -
  from ok w have c: "c \<le> shutdown l" unfolding lifecycle_ok_def by (metis not_le less_irrefl)
  let ?ws = "(workers l)(c := workers l c - 1)"
  have "(\<Sum>x \<le> shutdown l. workers l x) = workers l c + (\<Sum>x \<in> {..shutdown l} - {c}. workers l x)"
    using c by (subst sum.remove [of _ c]) auto
  moreover have "(\<Sum>x \<le> shutdown l. ?ws x) = ?ws c + (\<Sum>x \<in> {..shutdown l} - {c}. ?ws x)"
    using c by (subst sum.remove [of _ c]) auto
  moreover have "(\<Sum>x \<in> {..shutdown l} - {c}. ?ws x) = (\<Sum>x \<in> {..shutdown l} - {c}. workers l x)"
    by (rule sum.cong) auto
  ultimately have "(\<Sum>x \<le> shutdown l. ?ws x) = wg l - 1"
    using ok w by (simp add: lifecycle_ok_def)
  then show ?thesis
    using ok by (auto simp: lifecycle_ok_def worker_done_def)
qed

lemma life_step_ok: "life_step s l l' \<Longrightarrow> lifecycle_ok l \<Longrightarrow> lifecycle_ok l'"
  by (induction rule: life_step.induct)
    (auto intro: start_enter_ok start_wake_ok start_finish_ok Shutdown_ok worker_done_ok)

lemma life_steps_ok: "life_steps s l l' \<Longrightarrow> lifecycle_ok l \<Longrightarrow> lifecycle_ok l'"
  by (induction rule: life_steps.induct) (auto intro: life_step_ok)

lemma lifecycle_reachable_ok: "life_reachable s l \<Longrightarrow> lifecycle_ok l"
  by (induction rule: life_reachable.induct) (auto intro: lifecycle_ok_new life_step_ok)

section \<open>The properties\<close>

text \<open>
  C27. Whatever interleaving of starts, shutdowns, signals, broker errors and ending goroutines a server has
  been through, at most one call of \<open>Start\<close> is under way, the server counts as running exactly when
  its last call has not returned nil, and only channels the server made have been closed. When the
  wait group is empty, no scheduler and no cleanup of any call is left.
\<close>

theorem lifecycle_invariant:
  assumes "life_reachable s l"
  shows "(\<forall>c. calls l c \<in> {Some Selecting, Some Draining} \<longrightarrow> c = shutdown l \<and> running l) \<and>
    (running l \<longleftrightarrow> calls l (shutdown l) \<notin> {None, Some (Returned None)}) \<and>
    closed l \<subseteq> {1..shutdown l} \<and> (wg l = 0 \<longrightarrow> (\<forall>c. workers l c = 0))"
proof -
  have ok: "lifecycle_ok l" by (rule lifecycle_reachable_ok [OF assms])
  have cur: "c = shutdown l \<and> running l" if "calls l c \<in> {Some Selecting, Some Draining}" for c
    using that selecting_current [OF ok, of c] by auto
  have "calls l 0 = None" using ok by (auto simp: lifecycle_ok_def)
  then have run: "running l \<longleftrightarrow> calls l (shutdown l) \<notin> {None, Some (Returned None)}"
    using ok by (cases "shutdown l = 0") (auto simp: lifecycle_ok_def)
  have "workers l c = 0" if "wg l = 0" for c
    using ok that by (cases "c \<le> shutdown l") (auto simp: lifecycle_ok_def)
  moreover have "closed l \<subseteq> {1..shutdown l}" using ok by (auto simp: lifecycle_ok_def)
  ultimately show ?thesis using cur run by blast
qed

lemma life_reachable_steps: "life_steps s l l' \<Longrightarrow> life_reachable s l \<Longrightarrow> life_reachable s l'"
  by (induction rule: life_steps.induct) (auto intro: life_reachable.step)

definition started :: "'w Server \<Rightarrow> lifecycle" where
  "started s = snd (start_enter s new_lifecycle)"

definition broken :: "'w Server \<Rightarrow> lifecycle" where
  "broken s = start_wake 1 (SubscribeReturned (Some (ErrText ''down''))) (started s)"

lemma started_reachable: "life_reachable s (started s)"
  using life_reachable.step [OF life_reachable.init life_step.start] unfolding started_def by (metis prod.collapse)

lemma started_sel: "calls (started s) = [1 \<mapsto> Selecting]" "running (started s)" "shutdown (started s) = 1"
  "closed (started s) = {}" "wg (started s) = (if srv_enableConsumerCleanup s then 2 else 1)"
  by (simp_all add: started_def start_enter_def new_lifecycle_def Let_def)

lemma broken_reachable: "life_reachable s (broken s)"
  unfolding broken_def
  by (rule life_reachable.step [OF started_reachable life_step.wake]) (simp_all add: started_sel)

lemma broken_calls: "calls (broken s) 1 = Some (Returned (Some (ErrText ''down'')))"
  by (simp add: broken_def start_wake_def)

lemma broken_sel: "running (broken s)" "shutdown (broken s) = 1" "closed (broken s) = {}" "wg (broken s) = wg (started s)"
  by (simp_all add: broken_def start_wake_def started_sel)

definition plain_server :: "mem Server" where
  "plain_server = NewServer ''host'' ''1'' (redis_broker mem_env DefaultConsumerConfig) [WithConsumerCleanup 0 0]"

lemma plain_server_cleanup [simp]: "srv_enableConsumerCleanup plain_server"
  by (simp add: plain_server_def NewServer_def WithConsumerCleanup_def)

theorem lifecycle_invariant_witness:
  "running (broken plain_server) \<and> closed (broken plain_server) \<subseteq> {1..1} \<and> wg (broken plain_server) = 2"
  using lifecycle_invariant [OF broken_reachable [of plain_server]] broken_calls [of plain_server]
  by (simp add: broken_sel started_sel)

lemma failed_call_kept:
  assumes "life_step s l l'" and "lifecycle_ok l" and "calls l c = Some (Returned (Some e))"
  shows "calls l' c = Some (Returned (Some e))"
proof -
  from selecting_current [OF assms(2,3)] have "running l" and "c = shutdown l" by simp_all
  with assms(1,3) show ?thesis
    by (elim life_stepE) (auto simp: life_defs split: if_splits wake_up.splits option.splits)
qed

text \<open>
  C29. After a call of \<open>Start\<close> has returned an error of the subscription, the server counts as running for ever:
  whatever happens next, every further call of \<open>Start\<close> is refused.
\<close>

theorem failed_start_is_final:
  assumes "life_reachable s l" and "calls l c = Some (Returned (Some e))" and "life_steps s l l'"
  shows "start_enter s l' = (Inl (ErrText ''server is already running''), l')"
proof -
  have ok: "lifecycle_ok l" by (rule lifecycle_reachable_ok [OF assms(1)])
  from assms(3) ok assms(2) have "lifecycle_ok l' \<and> calls l' c = Some (Returned (Some e))"
    by (induction rule: life_steps.induct) (auto dest: life_step_ok failed_call_kept)
  then have "running l'" using selecting_current(2) by blast
  then show ?thesis by (simp add: start_enter_def)
qed

theorem failed_start_is_final_witness:
  "start_enter plain_server (broken plain_server) = (Inl (ErrText ''server is already running''), broken plain_server)"
  by (rule failed_start_is_final [OF broken_reachable broken_calls life_steps.refl])

text \<open>
  C28. A running server that has not been asked to shut down yet can be: \<open>Shutdown\<close> returns, from there the
  call of \<open>Start\<close> that is under way has at most two more steps to make (it wakes up, and it ends when its
  goroutines or its timeout have), it returns nil, and the server can be started again. A second
  \<open>Shutdown\<close> before that panics.
\<close>

theorem shutdown_stops:
  assumes "life_reachable s l" and "calls l c = Some Selecting" and "c \<notin> closed l"
  shows "\<exists>l1 l2 l3 l4. Shutdown l = Ret l1 \<and> Shutdown l1 = Panic ''close of closed channel'' \<and>
    life_step s l1 l2 \<and> calls l2 c = Some Draining \<and> life_step s l2 l3 \<and> calls l3 c = Some (Returned None) \<and>
    \<not> running l3 \<and> start_enter s l3 = (Inr (Suc c), l4)"
proof -
  have ok: "lifecycle_ok l" by (rule lifecycle_reachable_ok [OF assms(1)])
  from selecting_current [OF ok assms(2)] have c: "c = shutdown l" "running l" by simp_all
  define l1 where "l1 = l\<lparr>closed := insert c (closed l)\<rparr>"
  define l2 where "l2 = start_wake c ShutdownClosed l1"
  define l3 where "l3 = start_finish c l2"
  have "Shutdown l = Ret l1" and "Shutdown l1 = Panic ''close of closed channel''"
    using c assms(3) by (simp_all add: Shutdown_def l1_def)
  moreover have "life_step s l1 l2" unfolding l2_def
    by (rule life_step.wake) (simp_all add: l1_def assms(2))
  moreover have drain: "calls l2 c = Some Draining" by (simp add: l2_def start_wake_def)
  moreover have "life_step s l2 l3" unfolding l3_def by (rule life_step.timed_out [OF drain])
  moreover have "calls l3 c = Some (Returned None)" and "\<not> running l3"
    by (simp_all add: l3_def start_finish_def)
  moreover have "shutdown l3 = c" using c by (simp add: l3_def start_finish_def l2_def start_wake_def l1_def)
  then have "\<exists>l4. start_enter s l3 = (Inr (Suc c), l4)"
    using \<open>\<not> running l3\<close> by (simp add: start_enter_def Let_def)
  ultimately show ?thesis by blast
qed

theorem shutdown_stops_witness:
  "\<exists>l1. Shutdown (started plain_server) = Ret l1 \<and> Shutdown l1 = Panic ''close of closed channel''"
  using shutdown_stops [OF started_reachable [of plain_server], of 1] by (auto simp: started_sel)

end
