(* ===== verification/Scheduler_Liveness.thy ===== *)
theory Scheduler_Liveness
  imports Scheduler_Properties Server_Loops Server_Recovery
begin

text \<open>
  The scheduler gets everything done: when the services answer and the members of the sets can be decoded,
  every tick moves a full batch of what is due in each queue, or all of it, so that as many ticks as the
  number of due tasks has batches leave nothing that was due.
\<close>

section \<open>A Redis server that answers the scripts\<close>

text \<open>\<open>past\<close> is a time that has come: from now on the clock of the host shows at least that.\<close>

locale steady_scheduler = steady_redis E db clk I
  for E :: "'w env" and db :: "'w \<Rightarrow> redis_db" and clk :: "'w \<Rightarrow> time" and I :: "'w \<Rightarrow> bool" +
  fixes past :: time
  assumes clock_past: "I w \<Longrightarrow> clock E w = (at, w') \<Longrightarrow> past \<le> at"
    and script_steady: "I w \<Longrightarrow> \<forall>w1. db w1 = db w \<longrightarrow> I w1 \<longrightarrow> (\<exists>n w2. s w1 = (Ret n, w2) \<and> I w2) \<Longrightarrow>
      \<exists>n w'. script_run E s w = (Inr n, w') \<and> I w'"
    and lua_call_steady: "I w \<Longrightarrow> \<exists>w'. lua_call E c w = (Ret (), w') \<and> I w'"
    and lua_smembers_steady: "I w \<Longrightarrow> \<exists>xs w'. lua_smembers E k w = (Ret xs, w') \<and> I w'"
    and lua_zrange_steady: "I w \<Longrightarrow> \<exists>ms w'. lua_zrangebyscore E k hi limit w = (Ret ms, w') \<and> I w'"
    and zset_finite: "I w \<Longrightarrow> finite (dom (zsets (db w) k))"

lemma command_keeps_now: "m_now (mem_command c m) = m_now m"
  by (cases c) simp_all

interpretation mem_scheduler: steady_scheduler mem_env mem_db m_now "\<lambda>m. steady_mem m \<and> past \<le> m_now m" past for past
proof (unfold_locales, goal_cases)
  case (1 w cs re w')
  then have "re = None \<and> steady_mem w'" using mem_steady.pipe_steady by blast
  moreover from this 1 have "m_now w \<le> m_now w'" using mem.pipe_ok by blast
  ultimately show ?case using 1(1) by simp
next
  case (2 w at w')
  then show ?case using mem_steady.clock_steady by auto
next
  case (3 w k v ttl rb w')
  then have "steady_mem w'" using mem_steady.set_nx_steady by blast
  moreover have "m_now w \<le> m_now w'" using 3(2) mem.set_nx_ok mem.set_nx_fail by (cases rb) force+
  ultimately show ?case using 3(1) by simp
next
  case 4
  then show ?case by auto
next
  case (5 w s)
  then have same: "w\<lparr>m_faults := []\<rparr> = w" "m_faults w = []" by (cases w; simp add: steady_mem_def healthy_def)+
  from 5 obtain n w2 where "s w = (Ret n, w2)" "steady_mem w2 \<and> past \<le> m_now w2" by blast
  moreover from this(1) have "s (w\<lparr>m_faults := []\<rparr>) = (Ret n, w2)" by (simp only: same(1))
  ultimately show ?case by (simp add: mem_script_def same(2))
next
  case (6 w c)
  then show ?case by (simp add: steady_command command_keeps_now)
next
  case (9 w k)
  then show ?case by (metis mem_db_zsets finite_dom_map_of)
qed simp_all

section \<open>What is due\<close>

definition due :: "(bulk \<rightharpoonup> int) \<Rightarrow> int \<Rightarrow> bulk set" where
  "due z hi = {m. \<exists>s. z m = Some s \<and> s \<le> hi}"

text \<open>The scripts can decode every member.\<close>

definition movable :: "'w env \<Rightarrow> (bulk \<rightharpoonup> int) \<Rightarrow> bool" where
  "movable E z \<longleftrightarrow> (\<forall>m \<in> dom z. lua_pending E m \<noteq> None)"

lemma due_subset: "due z hi \<subseteq> dom z"
  by (auto simp: due_def)

lemma due_restrict: "due (z |` (- S)) hi = due z hi - S"
  by (auto simp: due_def restrict_map_def)

lemma movable_restrict: "movable E z \<Longrightarrow> movable E (z |` S)"
  by (simp add: movable_def)

text \<open>A range with a limit takes the due members, or as many of them as the limit.\<close>

lemma zrange_due:
  assumes "zrange_ok z hi limit ms" and "past \<le> hi" and "0 < limit" and "finite (dom z)"
  shows "card (due z past - set ms) \<le> card (due z past) - nat limit"
proof (cases "due z past \<subseteq> set ms")
  case True
  then have "due z past - set ms = {}" by blast
  then show ?thesis by (metis card.empty zero_le)
next
  case False
  then obtain m' s' where m': "z m' = Some s'" "s' \<le> past" "m' \<notin> set ms" by (auto simp: due_def)
  then have "s' \<le> hi" using assms(2) by simp
  with assms(1) m' have len: "length ms = nat limit" and low: "\<forall>m \<in> set ms. the (z m) \<le> s'"
    and some: "\<forall>m \<in> set ms. \<exists>s. z m = Some s" and d: "distinct ms" unfolding zrange_ok_def by blast+
  have "set ms \<subseteq> due z past"
  proof
    fix m assume "m \<in> set ms"
    with low some obtain s where "z m = Some s" "s \<le> s'" by force
    with m'(2) show "m \<in> due z past" by (simp add: due_def)
  qed
  then have "card (due z past - set ms) = card (due z past) - card (set ms)"
    by (intro card_Diff_subset) simp_all
  with d len show ?thesis by (simp add: distinct_card)
qed

section \<open>The scripts succeed\<close>

lemma go_fold_runs:
  assumes "\<And>x s w. x \<in> set xs \<Longrightarrow> P w \<Longrightarrow> \<exists>s' w'. f x s w = (Ret s', w') \<and> P w'" and "P w"
  shows "\<exists>s' w'. go_fold f xs s w = (Ret s', w') \<and> P w'"
  using assms
proof (induction xs arbitrary: s w)
  case Nil
  then show ?case by (simp add: go_return_def)
next
  case (Cons x xs)
  obtain s1 w1 where "f x s w = (Ret s1, w1)" "P w1" using Cons.prems by (meson list.set_intros(1))
  moreover have "\<exists>s' w'. go_fold f xs s1 w1 = (Ret s', w') \<and> P w'"
    by (rule Cons.IH) (use Cons.prems \<open>P w1\<close> in auto)
  ultimately show ?case by (simp add: go_bind_Ret)
qed

context steady_scheduler
begin

lemma lua_move_task_runs:
  assumes "I w" and "lua_pending E m \<noteq> None"
  shows "\<exists>n' w'. lua_move_task E k q m n w = (Ret n', w') \<and> I w'"
proof -
  from assms(2) obtain task updated where t: "cjson_decode E m = Some task" "lua_set_pending task = Some updated"
    by (auto simp: lua_pending_def bind_eq_None_conv)
  obtain w1 where 1: "lua_call E (ZRem k m) w = (Ret (), w1)" "I w1" using lua_call_steady [OF assms(1)] by blast
  obtain w2 where 2: "lua_call E (XAdd (streamPrefix @ q) [(''data'', cjson_encode E updated)]) w1 = (Ret (), w2)" "I w2"
    using lua_call_steady [OF 1(2)] by blast
  obtain w3 where 3: "lua_call E (HIncrBy (statsPrefix @ q) ''enqueued'' 1) w2 = (Ret (), w3)" "I w3"
    using lua_call_steady [OF 2(2)] by blast
  from 1 2 3 show ?thesis by (simp add: lua_move_task_def t go_bind_Ret)
qed

lemma lua_move_queue_runs:
  assumes "I w" and "movable E (zsets (db w) (p @ q))"
  shows "\<exists>n' w'. lua_move_queue E p hi limit q n w = (Ret n', w') \<and> I w'"
proof -
  obtain ms w1 where range: "lua_zrangebyscore E (p @ q) hi limit w = (Ret ms, w1)" and "I w1"
    using lua_zrange_steady [OF assms(1)] by blast
  have "lua_pending E m \<noteq> None" if "m \<in> set ms" for m
    using lua_zrange_ok [OF range] assms(2) that unfolding zrange_ok_def movable_def by blast
  then have "\<exists>n' w'. go_fold (lua_move_task E (p @ q) q) ms n w1 = (Ret n', w') \<and> I w'"
    using \<open>I w1\<close> by (intro go_fold_runs lua_move_task_runs) simp_all
  with range show ?thesis by (simp add: lua_move_queue_def go_bind_Ret)
qed

lemma lua_move_queue_movable:
  assumes "lua_move_queue E p hi limit q n w = (Ret n', w')" and "movable E (zsets (db w) (p @ q'))"
  shows "movable E (zsets (db w') (p @ q'))"
proof -
  from assms(1) obtain ms w1 where range: "lua_zrangebyscore E (p @ q) hi limit w = (Ret ms, w1)"
    and run: "go_fold (lua_move_task E (p @ q) q) ms n w1 = (Ret n', w')" by (auto simp: lua_move_queue_def go_bind_Ret_iff)
  have "moved E p ((\<lambda>q. [])(q := ms)) (db w) (db w')"
    using lua_move_tasks_moved [OF run] lua_zrange_ok [OF range] by simp
  then have "zsets (db w') (p @ q') = zsets (db w) (p @ q') |` (- set (((\<lambda>q. [])(q := ms)) q'))"
    unfolding moved_def by blast
  with assms(2) show ?thesis by (simp only: movable_restrict)
qed

lemma enqueue_script_runs:
  assumes "I w" and "\<forall>q \<in> sets (db w) queuesKey. movable E (zsets (db w) (p @ q))"
  shows "\<exists>n w'. enqueue_script E p hi limit w = (Ret n, w') \<and> I w'"
proof -
  obtain qs w1 where members: "lua_smembers E queuesKey w = (Ret qs, w1)" and "I w1"
    using lua_smembers_steady [OF assms(1)] by blast
  from lua_smembers_ok [OF members] assms(2) have start: "\<forall>q \<in> set qs. movable E (zsets (db w1) (p @ q))" by simp
  let ?P = "\<lambda>w. I w \<and> (\<forall>q \<in> set qs. movable E (zsets (db w) (p @ q)))"
  have "\<exists>n w'. go_fold (lua_move_queue E p hi limit) qs 0 w1 = (Ret n, w') \<and> ?P w'"
  proof (rule go_fold_runs [where P = ?P])
    fix q n w assume "q \<in> set qs" and P: "?P w"
    then obtain n' w' where run: "lua_move_queue E p hi limit q n w = (Ret n', w')" "I w'"
      using lua_move_queue_runs by blast
    with P have "?P w'" using lua_move_queue_movable by blast
    with run(1) show "\<exists>n' w'. lua_move_queue E p hi limit q n w = (Ret n', w') \<and> ?P w'" by blast
  qed (use \<open>I w1\<close> start in simp)
  with members \<open>I w1\<close> show ?thesis by (cases qs) (auto simp: enqueue_script_def go_bind_Ret go_return_def)
qed

lemma script_succeeds:
  assumes "I w" and "\<forall>q \<in> sets (db w) queuesKey. movable E (zsets (db w) (p @ q))"
  shows "\<exists>n w'. script_run E (enqueue_script E p hi limit) w = (Inr n, w') \<and> I w'"
proof (rule script_steady [OF assms(1)], intro allI impI)
  fix w1 assume same: "db w1 = db w" and "I w1"
  with assms(2) show "\<exists>n w2. enqueue_script E p hi limit w1 = (Ret n, w2) \<and> I w2"
    by (intro enqueue_script_runs) simp_all
qed

end

section \<open>A tick moves a batch\<close>

definition task_sets :: "string set" where
  "task_sets = {scheduledPrefix, retryPrefix}"

definition in_stream :: "'w env \<Rightarrow> redis_db \<Rightarrow> string \<Rightarrow> bulk \<Rightarrow> bool" where
  "in_stream E d q m \<longleftrightarrow> (\<exists>i. (i, [(''data'', the (lua_pending E m))]) \<in> set (streams d (streamKey q)))"

text \<open>Members have left the sets for the end of their queue's stream, and nothing else has happened to them.\<close>

definition forwarded :: "'w env \<Rightarrow> redis_db \<Rightarrow> redis_db \<Rightarrow> bool" where
  "forwarded E d d' \<longleftrightarrow> sets d' = sets d \<and> (\<forall>q. (\<exists>es. streams d' (streamKey q) = streams d (streamKey q) @ es) \<and>
     (\<forall>p \<in> task_sets. zsets d' (p @ q) \<subseteq>\<^sub>m zsets d (p @ q) \<and>
        (\<forall>m \<in> dom (zsets d (p @ q)) - dom (zsets d' (p @ q)). in_stream E d' q m)))"

lemma forwarded_refl: "forwarded E d d"
  by (simp add: forwarded_def)

lemma forwarded_trans:
  assumes "forwarded E d d1" and "forwarded E d1 d2"
  shows "forwarded E d d2"
proof -
  have "sets d2 = sets d" using assms by (simp add: forwarded_def)
  moreover have "\<exists>es. streams d2 (streamKey q) = streams d (streamKey q) @ es" for q
    using assms unfolding forwarded_def by (metis append_assoc)
  moreover have "zsets d2 (p @ q) \<subseteq>\<^sub>m zsets d (p @ q)" if "p \<in> task_sets" for p q
    using assms that unfolding forwarded_def by (meson map_le_trans)
  moreover have "in_stream E d2 q m" if p: "p \<in> task_sets" and m: "m \<in> dom (zsets d (p @ q)) - dom (zsets d2 (p @ q))" for p q m
  proof (cases "m \<in> dom (zsets d1 (p @ q))")
    case True
    with m p assms(2) show ?thesis unfolding forwarded_def by blast
  next
    case False
    with m p assms(1) have "in_stream E d1 q m" unfolding forwarded_def by blast
    moreover obtain es where "streams d2 (streamKey q) = streams d1 (streamKey q) @ es"
      using assms(2) unfolding forwarded_def by blast
    ultimately show ?thesis by (auto simp: in_stream_def)
  qed
  ultimately show ?thesis unfolding forwarded_def by blast
qed

lemma moved_other_set:
  assumes "moved E p ms d d'" and "p \<in> task_sets" and "p' \<in> task_sets" and "p' \<noteq> p"
  shows "zsets d' (p' @ q) = zsets d (p' @ q)"
proof -
  have "p' @ q \<noteq> p @ q'" for q' using assms(2-4) by (auto simp: task_sets_def)
  with assms(1) show ?thesis unfolding moved_def by blast
qed

lemma moved_forwarded:
  assumes "moved E p ms d d'" and "p \<in> task_sets"
  shows "forwarded E d d'"
proof -
  have "zsets d' (p' @ q) \<subseteq>\<^sub>m zsets d (p' @ q) \<and>
      (\<forall>m \<in> dom (zsets d (p' @ q)) - dom (zsets d' (p' @ q)). in_stream E d' q m)" if p': "p' \<in> task_sets" for p' q
  proof (cases "p' = p")
    case False
    with moved_other_set [OF assms p'] show ?thesis by simp
  next
    case True
    from assms(1) have z: "zsets d' (p @ q) = zsets d (p @ q) |` (- set (ms q))" unfolding moved_def by blast
    from assms(1) obtain es where es: "map snd es = map (\<lambda>m. [(''data'', the (lua_pending E m))]) (ms q)"
      and s: "streams d' (streamKey q) = streams d (streamKey q) @ es" unfolding moved_def moved_entries_def by blast
    have "in_stream E d' q m" if "m \<in> set (ms q)" for m
    proof -
      from that have "[(''data'', the (lua_pending E m))] \<in> snd ` set es"
        by (metis (no_types, lifting) es image_eqI list.set_map)
      then show ?thesis by (auto simp: in_stream_def s)
    qed
    moreover have "m \<in> set (ms q)" if "m \<in> dom (zsets d (p @ q)) - dom (zsets d' (p @ q))" for m
      using that by (auto simp: z restrict_map_def split: if_splits)
    ultimately show ?thesis using True by (auto simp: z restrict_map_def map_le_def)
  qed
  moreover have "\<exists>es. streams d' (streamKey q) = streams d (streamKey q) @ es" for q
    using assms(1) unfolding moved_def by blast
  ultimately show ?thesis using assms(1) by (simp add: forwarded_def moved_def)
qed

text \<open>All members of the known queues can be decoded, and the numbers of members that were due have dropped.\<close>

definition all_movable :: "'w env \<Rightarrow> redis_db \<Rightarrow> bool" where
  "all_movable E d \<longleftrightarrow> (\<forall>q \<in> sets d queuesKey. \<forall>p \<in> task_sets. movable E (zsets d (p @ q)))"

lemma all_movable_forwarded:
  assumes "all_movable E d" and "forwarded E d d'"
  shows "all_movable E d'"
proof -
  have "dom (zsets d' (p @ q)) \<subseteq> dom (zsets d (p @ q))" if "p \<in> task_sets" for p q
    using assms(2) that unfolding forwarded_def by (meson map_le_implies_dom_le)
  with assms show ?thesis unfolding all_movable_def movable_def forwarded_def by (metis subsetD)
qed

definition backlog :: "redis_db \<Rightarrow> int \<Rightarrow> string \<Rightarrow> string \<Rightarrow> nat" where
  "backlog d hi p q = card (due (zsets d (p @ q)) hi)"

text \<open>What some ticks do to both sets of every known queue.\<close>

definition tick_moves :: "('w \<Rightarrow> bool) \<Rightarrow> 'w env \<Rightarrow> ('w \<Rightarrow> redis_db) \<Rightarrow> int \<Rightarrow> nat \<Rightarrow> 'w \<Rightarrow> 'w \<Rightarrow> bool" where
  "tick_moves I E db hi n w w' \<longleftrightarrow> I w' \<and> forwarded E (db w) (db w') \<and>
     (\<forall>q \<in> sets (db w) queuesKey. \<forall>p \<in> task_sets. backlog (db w') hi p q \<le> backlog (db w) hi p q - n)"

context steady_scheduler
begin

lemma backlog_forwarded:
  assumes "I w" and "forwarded E (db w) d'" and "p \<in> task_sets"
  shows "backlog d' hi p q \<le> backlog (db w) hi p q"
proof -
  have "zsets d' (p @ q) \<subseteq>\<^sub>m zsets (db w) (p @ q)" using assms(2,3) by (simp add: forwarded_def)
  then have "due (zsets d' (p @ q)) hi \<subseteq> due (zsets (db w) (p @ q)) hi"
    by (auto simp: due_def map_le_def dom_def)
  moreover have "finite (due (zsets (db w) (p @ q)) hi)"
    using due_subset zset_finite [OF assms(1)] by (rule finite_subset)
  ultimately show ?thesis unfolding backlog_def by (rule card_mono [rotated])
qed

lemma script_moves_batch:
  assumes "I w" and "all_movable E (db w)" and p: "p \<in> task_sets" and "hi \<le> until" and "0 < limit"
  shows "\<exists>n w'. script_run E (enqueue_script E p until limit) w = (Inr n, w') \<and> I w' \<and> forwarded E (db w) (db w') \<and>
    (\<forall>q \<in> sets (db w) queuesKey. backlog (db w') hi p q \<le> backlog (db w) hi p q - nat limit)"
proof -
  have "\<forall>q \<in> sets (db w) queuesKey. movable E (zsets (db w) (p @ q))" using assms(2) p by (simp add: all_movable_def)
  from script_succeeds [OF assms(1) this, of until limit] obtain n w'
    where run: "script_run E (enqueue_script E p until limit) w = (Inr n, w')" and I: "I w'" by blast
  from enqueue_script_moved [OF run] obtain ms queues where qs: "set queues = sets (db w) queuesKey"
    and m: "moved E p ms (db w) (db w')" and z: "\<forall>q \<in> set queues. zrange_ok (zsets (db w) (p @ q)) until limit (ms q)" by blast
  have "backlog (db w') hi p q \<le> backlog (db w) hi p q - nat limit" if "q \<in> sets (db w) queuesKey" for q
  proof -
    from m have "zsets (db w') (p @ q) = zsets (db w) (p @ q) |` (- set (ms q))" unfolding moved_def by blast
    moreover have "zrange_ok (zsets (db w) (p @ q)) until limit (ms q)" using z qs that by blast
    ultimately show ?thesis
      using zrange_due [of _ until limit "ms q" hi] assms(4,5) zset_finite [OF assms(1)]
      by (simp add: backlog_def due_restrict)
  qed
  with run I moved_forwarded [OF m p] show ?thesis by blast
qed

lemma half_tick:
  assumes "I w" and "all_movable E (db w)" and p: "p \<in> task_sets" and "0 < limit"
  shows "\<exists>at w1 n w'. clock E w = (at, w1) \<and> script_run E (enqueue_script E p (unix at) limit) w1 = (Inr n, w') \<and> I w' \<and>
    forwarded E (db w) (db w') \<and>
    (\<forall>q \<in> sets (db w) queuesKey. backlog (db w') (unix past) p q \<le> backlog (db w) (unix past) p q - nat limit)"
proof -
  obtain at w1 where at: "clock E w = (at, w1)" by (cases "clock E w")
  have same: "db w1 = db w" using clock_ok [OF at] by blast
  have "I w1" using clock_steady [OF assms(1) at] by blast
  moreover have "unix past \<le> unix at" using clock_past [OF assms(1) at] by (simp add: unix_def zdiv_mono1 Second_def)
  ultimately show ?thesis using script_moves_batch [of w1 p "unix past" "unix at" limit] assms at same by auto
qed

lemma scheduler_tick_moves:
  assumes "srv_broker S = redis_broker E cfg" and "0 < srv_schedulerBatchSize S" and "I w" and "all_movable E (db w)"
  shows "\<exists>w'. scheduler_tick (clock E) S w = (Ret (), w') \<and> tick_moves I E db (unix past) (nat (srv_schedulerBatchSize S)) w w'"
proof -
  let ?n = "srv_schedulerBatchSize S"
  have p: "scheduledPrefix \<in> task_sets" "retryPrefix \<in> task_sets" by (simp_all add: task_sets_def)
  obtain at w1 n w2 where at: "clock E w = (at, w1)"
    and r: "script_run E (enqueue_script E scheduledPrefix (unix at) ?n) w1 = (Inr n, w2)" and I2: "I w2"
    and f: "forwarded E (db w) (db w2)"
    and s: "\<forall>q \<in> sets (db w) queuesKey. backlog (db w2) (unix past) scheduledPrefix q \<le> backlog (db w) (unix past) scheduledPrefix q - nat ?n"
    using half_tick [OF assms(3,4) p(1) assms(2)] by blast
  have known: "sets (db w2) = sets (db w)" using f by (simp add: forwarded_def)
  obtain at' w3 n' w4 where at': "clock E w2 = (at', w3)"
    and r': "script_run E (enqueue_script E retryPrefix (unix at') ?n) w3 = (Inr n', w4)" and I4: "I w4"
    and f': "forwarded E (db w2) (db w4)"
    and s': "\<forall>q \<in> sets (db w2) queuesKey. backlog (db w4) (unix past) retryPrefix q \<le> backlog (db w2) (unix past) retryPrefix q - nat ?n"
    using half_tick [OF I2 all_movable_forwarded [OF assms(4) f] p(2) assms(2)] by blast
  have "scheduler_tick (clock E) S w = (Ret (), w4)"
    by (simp add: scheduler_tick_def processScheduled_def processRetries_def assms(1) redis_broker_def EnqueueScheduled_def
        EnqueueRetry_def enqueueScheduledScript_def enqueueRetryScript_def go_bind_Ret go_bind_lift at at' r r' go_return_def)
  moreover have "backlog (db w4) (unix past) p q \<le> backlog (db w) (unix past) p q - nat ?n"
    if "q \<in> sets (db w) queuesKey" and "p \<in> task_sets" for q p
  proof -
    from that(2) consider "p = scheduledPrefix" | "p = retryPrefix" by (auto simp: task_sets_def)
    then show ?thesis
    proof cases
      case 1
      with s that(1) backlog_forwarded [OF I2 f' p(1), of "unix past" q] show ?thesis by (force intro: le_trans)
    next
      case 2
      have "backlog (db w2) (unix past) retryPrefix q \<le> backlog (db w) (unix past) retryPrefix q"
        by (rule backlog_forwarded [OF assms(3) f p(2)])
      with 2 s' known that(1) show ?thesis by (metis diff_le_mono le_trans)
    qed
  qed
  ultimately show ?thesis using I4 forwarded_trans [OF f f'] by (auto simp: tick_moves_def)
qed

lemma scheduler_ticks_move:
  assumes "srv_broker S = redis_broker E cfg" and "0 < srv_schedulerBatchSize S" and "I w" and "all_movable E (db w)"
  shows "\<exists>w'. on_ticks (\<lambda>_. scheduler_tick (clock E) S) es () w = (Ret (), w') \<and>
    tick_moves I E db (unix past) (ticks es * nat (srv_schedulerBatchSize S)) w w'"
  using assms(3,4)
proof (induction es arbitrary: w)
  case Nil
  then show ?case by (simp add: go_return_def tick_moves_def forwarded_refl)
next
  case (Cons e es)
  show ?case
  proof (cases e)
    case Tick
    obtain w1 where 1: "scheduler_tick (clock E) S w = (Ret (), w1)" and m1: "tick_moves I E db (unix past) (nat (srv_schedulerBatchSize S)) w w1"
      using scheduler_tick_moves [OF assms(1,2) Cons.prems] by blast
    then have f1: "forwarded E (db w) (db w1)" and "I w1" by (simp_all add: tick_moves_def)
    with Cons.IH [OF _ all_movable_forwarded [OF Cons.prems(2) f1]] obtain w2
      where 2: "on_ticks (\<lambda>_. scheduler_tick (clock E) S) es () w1 = (Ret (), w2)"
      and m2: "tick_moves I E db (unix past) (ticks es * nat (srv_schedulerBatchSize S)) w1 w2" by blast
    have "sets (db w1) = sets (db w)" using f1 by (simp add: forwarded_def)
    then have "tick_moves I E db (unix past) (ticks (Tick # es) * nat (srv_schedulerBatchSize S)) w w2"
      using m1 m2 forwarded_trans [OF f1] unfolding tick_moves_def by force
    with 1 2 Tick show ?thesis by (auto simp: go_bind_Ret)
  next
    case ContextDone
    with Cons.prems show ?thesis by (simp add: go_return_def tick_moves_def forwarded_refl)
  qed
qed

end

text \<open>
  C18. When the services answer and every member of the sets of the known queues can be decoded, the
  scheduler catches up: it runs on through any number of ticks, and as soon as it has seen as many as the
  largest backlog has batches, nothing that was due is left in a scheduled or a retry set. Every member
  that left is in its queue's stream, as pending, behind what was there.
\<close>

theorem scheduler_catches_up:
  assumes "steady_scheduler E db clk I past" and "srv_broker S = redis_broker E cfg"
    and "0 < sint (srv_schedulerInterval S)" and "0 < srv_schedulerBatchSize S" and "I w" and "all_movable E (db w)"
    and "\<forall>q \<in> sets (db w) queuesKey. \<forall>p \<in> task_sets.
      backlog (db w) (unix past) p q \<le> ticks es * nat (srv_schedulerBatchSize S)"
  shows "\<exists>w'. runScheduler (clock E) S es w = (Ret (), w') \<and> forwarded E (db w) (db w') \<and>
    (\<forall>q \<in> sets (db w) queuesKey. \<forall>p \<in> task_sets. due (zsets (db w') (p @ q)) (unix past) = {})"
proof -
  obtain w' where run: "on_ticks (\<lambda>_. scheduler_tick (clock E) S) es () w = (Ret (), w')"
    and moves: "tick_moves I E db (unix past) (ticks es * nat (srv_schedulerBatchSize S)) w w'"
    using steady_scheduler.scheduler_ticks_move [OF assms(1,2,4-6)] by blast
  have fin: "finite (due (zsets (db w') k) (unix past))" for k
    using due_subset steady_scheduler.zset_finite [OF assms(1)] moves unfolding tick_moves_def by (metis finite_subset)
  have "due (zsets (db w') (p @ q)) (unix past) = {}" if "q \<in> sets (db w) queuesKey" "p \<in> task_sets" for p q
  proof -
    from moves that have "backlog (db w') (unix past) p q \<le>
        backlog (db w) (unix past) p q - ticks es * nat (srv_schedulerBatchSize S)" unfolding tick_moves_def by blast
    also have "\<dots> = 0" using assms(7) that by simp
    finally show ?thesis using fin by (simp add: backlog_def)
  qed
  moreover have "runScheduler (clock E) S es w = (Ret (), w')"
    using run assms(3) by (simp add: runScheduler_def new_ticker_def)
  ultimately show ?thesis using moves by (auto simp: tick_moves_def)
qed

text \<open>The demo task, scheduled and waiting for a retry in one queue, and a scheduler that takes one at a time.\<close>

definition late_mem :: mem where
  "late_mem = due_mem\<lparr>m_now := 10 * Second\<rparr>"

definition slow_server :: "mem Server" where
  "slow_server = NewServer ''host'' ''1'' (redis_broker mem_env DefaultConsumerConfig) [WithSchedulerBatchSize 1]"

lemma slow_server_sel [simp]: "srv_broker slow_server = redis_broker mem_env DefaultConsumerConfig"
  "srv_schedulerBatchSize slow_server = 1" "0 < sint (srv_schedulerInterval slow_server)"
  by (simp_all add: slow_server_def NewServer_def WithSchedulerBatchSize_def DefaultSchedulerInterval_def dur_def Second_def)

lemma late_mem_zsets: "zsets (mem_db late_mem) (scheduledPrefix @ q) =
    (if q = ''critical'' then [JsonText (json_task demo_task) \<mapsto> 5] else Map.empty)"
  "zsets (mem_db late_mem) (retryPrefix @ q) = (if q = ''critical'' then [JsonText (json_task demo_task) \<mapsto> 7] else Map.empty)"
  by (simp_all add: mem_db_zsets [symmetric] late_mem_def due_mem_def scheduledKey_def retryKey_def)

theorem scheduler_catches_up_witness:
  "\<exists>w'. runScheduler (clock mem_env) slow_server [Tick] late_mem = (Ret (), w') \<and>
    due (zsets (mem_db w') (scheduledKey ''critical'')) 10 = {} \<and> due (zsets (mem_db w') (retryKey ''critical'')) 10 = {} \<and>
    in_stream mem_env (mem_db w') ''critical'' (JsonText (json_task demo_task))"
proof -
  have ten: "unix (10 * Second) = 10" by (simp add: unix_def Second_def)
  have known: "sets (mem_db late_mem) queuesKey = {''critical''}"
    by (simp add: late_mem_def due_mem_def mem_db_def)
  obtain j where j: "lua_set_pending (json_task demo_task) = Some j" using lua_set_pending_task by blast
  have "all_movable mem_env (mem_db late_mem)"
    by (auto simp: all_movable_def movable_def task_sets_def late_mem_zsets lua_pending_def j)
  moreover have "backlog (mem_db late_mem) 10 p ''critical'' \<le> 1" if "p \<in> task_sets" for p
    using that by (auto simp: backlog_def due_def task_sets_def late_mem_zsets)
  moreover have "steady_mem late_mem \<and> 10 * Second \<le> m_now late_mem"
    by (simp add: steady_mem_def healthy_def late_mem_def due_mem_def empty_mem_def time_printable_def
      unix_def Second_def)
  ultimately obtain w' where run: "runScheduler (clock mem_env) slow_server [Tick] late_mem = (Ret (), w')"
    and f: "forwarded mem_env (mem_db late_mem) (mem_db w')"
    and none: "\<forall>p \<in> task_sets. due (zsets (mem_db w') (p @ ''critical'')) 10 = {}"
    using scheduler_catches_up [OF mem_scheduler.steady_scheduler_axioms [of "10 * Second"], of slow_server DefaultConsumerConfig late_mem "[Tick]"]
    by (auto simp: known ten)
  let ?m = "JsonText (json_task demo_task)" and ?k = "scheduledPrefix @ ''critical''"
  have p: "scheduledPrefix \<in> task_sets" "retryPrefix \<in> task_sets" by (simp_all add: task_sets_def)
  have "?m \<notin> dom (zsets (mem_db w') ?k)"
  proof
    assume "?m \<in> dom (zsets (mem_db w') ?k)"
    moreover have "zsets (mem_db w') ?k \<subseteq>\<^sub>m zsets (mem_db late_mem) ?k" using f p(1) by (simp add: forwarded_def)
    ultimately have "zsets (mem_db w') ?k ?m = Some 5" by (auto simp: map_le_def late_mem_zsets)
    then have "?m \<in> due (zsets (mem_db w') ?k) 10" by (simp add: due_def)
    with none p(1) show False by blast
  qed
  moreover have "?m \<in> dom (zsets (mem_db late_mem) ?k)" by (simp add: late_mem_zsets)
  ultimately have "in_stream mem_env (mem_db w') ''critical'' ?m" using f p(1) unfolding forwarded_def by blast
  with run none p show ?thesis by (auto simp: scheduledKey_def retryKey_def)
qed

end
