(* ===== verification/Client_Api.thy ===== *)
theory Client_Api
  imports Broker_Api
begin

text \<open>
  \<^verbatim>\<open>client.go\<close>: enqueueing a task with the check of its unique key, now or at its time, and what the client
  does with the store. The broker, the store and the clock \<open>now\<close> are parameters. A task is a pointer, so
  a call also returns the task as it leaves it; \<open>None\<close> is a nil task. Log output is not modelled.
\<close>

record 'w Client =
  cl_broker :: "'w broker_ops"
  cl_store :: "'w store_ops option"

type_synonym 'w ClientOption = "'w Client \<Rightarrow> 'w Client"

definition WithStore :: "'w store_ops option \<Rightarrow> 'w ClientOption" where
  "WithStore st c = c\<lparr>cl_store := st\<rparr>"

definition NewClient :: "'w broker_ops \<Rightarrow> 'w ClientOption list \<Rightarrow> 'w Client" where
  "NewClient b opts = fold (\<lambda>opt c. opt c) opts \<lparr>cl_broker = b, cl_store = None\<rparr>"

section \<open>Enqueueing\<close>

text \<open>The result of the uniqueness check: the error to return, if any.\<close>

definition check_unique :: "'w Client \<Rightarrow> TaskProto \<Rightarrow> ('w, go_error option) go" where
  "check_unique c t = (case Options t of
      None \<Rightarrow> go_return None
    | Some r \<Rightarrow>
        if UniqueKey r = '''' then go_return None
        else
          (let ttl = (if sint (UniqueTTL r) > 0 then UniqueTTL r else dur Hour)
           in go_bind (op_SetUnique (cl_broker c) (UniqueKey r) (ID t) ttl) (\<lambda>res. go_return (case res of
                Inl err \<Rightarrow> Some (ErrWrap ''failed to check uniqueness: '' err)
              | Inr ok \<Rightarrow> if ok then None else Some ErrDuplicateTask))))"

text \<open>The time to process the task at, when it is still to come.\<close>

definition scheduled_for :: "('w \<Rightarrow> time \<times> 'w) \<Rightarrow> TaskProto \<Rightarrow> ('w, time option) go" where
  "scheduled_for now t = (case Options t of
      None \<Rightarrow> go_return None
    | Some r \<Rightarrow> (case ProcessAt r of
          None \<Rightarrow> go_return None
        | Some at \<Rightarrow> go_bind (go_lift now) (\<lambda>n. go_return (if at > n then Some at else None))))"

text \<open>Handing the task to the broker.\<close>

definition hand_over :: "'w Client \<Rightarrow> TaskProto \<Rightarrow> time option \<Rightarrow> ('w, go_error option \<times> TaskProto) go" where
  "hand_over c t sched = (case sched of
      Some at \<Rightarrow>
        go_bind (set_metadata (\<lambda>m. m\<lparr>State := TaskStateScheduled\<rparr>) t) (\<lambda>t.
        go_bind (op_Schedule (cl_broker c) t at) (\<lambda>err.
        go_return (map_option (ErrWrap ''failed to schedule task: '') err, t)))
    | None \<Rightarrow>
        go_bind (set_metadata (\<lambda>m. m\<lparr>State := TaskStatePending\<rparr>) t) (\<lambda>t.
        go_bind (op_Publish (cl_broker c) (task_Queue t) t) (\<lambda>err.
        go_return (map_option (ErrWrap ''failed to enqueue task: '') err, t))))"

text \<open>A task that the store refuses is enqueued all the same.\<close>

definition save_task :: "'w Client \<Rightarrow> TaskProto \<Rightarrow> ('w, unit) go" where
  "save_task c t = (case cl_store c of
      None \<Rightarrow> go_return ()
    | Some st \<Rightarrow> go_bind (st_CreateTask st t) (\<lambda>err. go_return ()))"

definition Enqueue ::
  "('w \<Rightarrow> time \<times> 'w) \<Rightarrow> 'w Client \<Rightarrow> TaskProto option \<Rightarrow> ('w, (go_error + TaskInfo) \<times> TaskProto option) go" where
  "Enqueue now c task = (case task of
      None \<Rightarrow> go_return (Inl (ErrText ''task cannot be nil''), None)
    | Some t \<Rightarrow>
        go_bind (check_unique c t) (\<lambda>refused. case refused of
            Some err \<Rightarrow> go_return (Inl err, Some t)
          | None \<Rightarrow>
        go_bind (scheduled_for now t) (\<lambda>sched.
        go_bind (hand_over c t sched) (\<lambda>(failed, t). case failed of
            Some err \<Rightarrow> go_return (Inl err, Some t)
          | None \<Rightarrow>
        go_bind (save_task c t) (\<lambda>_.
        go_return (Inr \<lparr>ti_ID = ID t, ti_Queue = task_Queue t, ti_State = task_State t, ti_ProcessAt = sched\<rparr>, Some t))))))"

definition EnqueueUnique ::
  "('w \<Rightarrow> time \<times> 'w) \<Rightarrow> 'w Client \<Rightarrow> TaskProto option \<Rightarrow> string \<Rightarrow> duration \<Rightarrow>
   ('w, (go_error + TaskInfo) \<times> TaskProto option) go" where
  "EnqueueUnique now c task uniqueKey ttl = (case task of
      None \<Rightarrow> go_return (Inl (ErrText ''task cannot be nil''), None)
    | Some t \<Rightarrow> Enqueue now c (Some (t\<lparr>Options := Some ((options_or_zero t)\<lparr>UniqueKey := uniqueKey\<rparr>)\<rparr>)))"

definition client_Schedule ::
  "('w \<Rightarrow> time \<times> 'w) \<Rightarrow> 'w Client \<Rightarrow> TaskProto option \<Rightarrow> time \<Rightarrow>
   ('w, (go_error + TaskInfo) \<times> TaskProto option) go" where
  "client_Schedule now c task processAt = (case task of
      None \<Rightarrow> go_return (Inl (ErrText ''task cannot be nil''), None)
    | Some t \<Rightarrow> Enqueue now c (Some (WithProcessAt processAt t)))"

section \<open>The store and the broker behind the client\<close>

definition Cancel :: "'w Client \<Rightarrow> string \<Rightarrow> ('w, go_error option) go" where
  "Cancel c taskID = (case cl_store c of
      Some st \<Rightarrow> st_UpdateTaskState st taskID ''cancelled'' ''''
    | None \<Rightarrow> go_return (Some (ErrText ''cancel requires a store to be configured'')))"

definition client_GetTask :: "'w Client \<Rightarrow> string \<Rightarrow> ('w, go_error + TaskProto) go" where
  "client_GetTask c taskID = (case cl_store c of
      None \<Rightarrow> go_return (Inl (ErrText ''GetTask requires a store to be configured''))
    | Some st \<Rightarrow> st_GetTask st taskID)"

definition client_GetQueueInfo :: "'w Client \<Rightarrow> string \<Rightarrow> ('w, go_error + QueueInfo) go" where
  "client_GetQueueInfo c queue = op_GetQueueInfo (cl_broker c) queue"

definition client_GetQueues :: "'w Client \<Rightarrow> ('w, go_error + string list) go" where
  "client_GetQueues c = op_GetQueues (cl_broker c)"

definition client_Ping :: "'w Client \<Rightarrow> ('w, go_error option) go" where
  "client_Ping c = op_Ping (cl_broker c)"

section \<open>The contract\<close>

text \<open>The clock and the store leave the queues alone, and the store returns.\<close>

locale task_client = task_broker "cl_broker C" qv bnow
  for C :: "'w Client" and qv :: "'w \<Rightarrow> string \<Rightarrow> queue_view" and bnow :: "'w \<Rightarrow> time" +
  fixes now :: "'w \<Rightarrow> time \<times> 'w"
  assumes now_view: "now w = (at, w') \<Longrightarrow> qv w' = qv w"
    and create_view: "cl_store C = Some st \<Longrightarrow> st_CreateTask st t w = (sr, w') \<Longrightarrow> qv w' = qv w"
begin

lemma check_unique_view: "check_unique C t w = (Ret r, w') \<Longrightarrow> qv w' = qv w"
  by (auto simp: check_unique_def Let_def go_bind_Ret_iff dest: unique_view split: option.splits if_splits)

lemma scheduled_for_view: "scheduled_for now t w = (Ret s, w') \<Longrightarrow> qv w' = qv w"
  by (auto simp: scheduled_for_def run_iff dest: now_view split: option.splits)

lemma save_task_view: "save_task C t w = (Ret u, w') \<Longrightarrow> qv w' = qv w"
  by (auto simp: save_task_def go_bind_Ret_iff dest: create_view split: option.splits)

end

end
