(* ===== verification/Client_Properties.thy ===== *)
theory Client_Properties
  imports Client_Api
begin

text \<open>
  The properties of the client: where an enqueued task goes, the refusal of a second task with the same
  unique key, and what a failed attempt leaves behind.
\<close>

lemma Enqueue_steps:
  assumes "Enqueue now C (Some t) w = (Ret (Inr info, t'), w')"
  obtains sched u w1 w2 w3 where "check_unique C t w = (Ret None, w1)" and "scheduled_for now t w1 = (Ret sched, w2)"
    and "hand_over C t sched w2 = (Ret (None, u), w3)" and "save_task C u w3 = (Ret (), w')" and "t' = Some u"
    and "info = \<lparr>ti_ID = ID u, ti_Queue = task_Queue u, ti_State = task_State u, ti_ProcessAt = sched\<rparr>"
proof -
  from assms obtain refused w1 where 1: "check_unique C t w = (Ret refused, w1)"
    by (auto simp: Enqueue_def go_bind_Ret_iff)
  with assms have refused: "refused = None" by (cases refused) (auto simp: Enqueue_def go_bind_def)
  with assms 1 obtain sched w2 failed u w3 where 2: "scheduled_for now t w1 = (Ret sched, w2)"
    and 3: "hand_over C t sched w2 = (Ret (failed, u), w3)"
    by (auto simp: Enqueue_def go_bind_Ret_iff)
  with assms 1 refused have failed: "failed = None" by (cases failed) (auto simp: Enqueue_def go_bind_def)
  with assms 1 2 3 refused obtain x where 4: "save_task C u w3 = (Ret x, w')" and "t' = Some u"
    and "info = \<lparr>ti_ID = ID u, ti_Queue = task_Queue u, ti_State = task_State u, ti_ProcessAt = sched\<rparr>"
    by (auto simp: Enqueue_def go_bind_Ret_iff)
  with 1 2 3 refused failed that [of w1 sched w2 u w3] show thesis by simp
qed

context task_client
begin

lemma hand_over_moves:
  assumes "task_wf t" and "hand_over C t sched w = (Ret (None, u), w')"
  defines "st \<equiv> (if sched = None then TaskStatePending else TaskStateScheduled)"
  shows "\<exists>m. Metadata t = Some m \<and> u = t\<lparr>Metadata := Some (m\<lparr>State := st\<rparr>)\<rparr> \<and> (case sched of
      None \<Rightarrow> \<exists>i. qv w' = (qv w)(task_Queue t := put_ready i (norm_task u) (qv w (task_Queue t)))
    | Some at \<Rightarrow> \<exists>j. marshal_task u = Inr j \<and>
        qv w' = (qv w)(task_Queue t := put_later (JsonText j) (unix at) (qv w (task_Queue t))))"
proof -
  obtain m where m: "Metadata t = Some m"
    using assms(2) by (cases "Metadata t") (auto simp: hand_over_def set_metadata_def split: option.splits)
  let ?u = "t\<lparr>Metadata := Some (m\<lparr>State := st\<rparr>)\<rparr>"
  have q: "task_Queue ?u = task_Queue t" and wf: "task_wf ?u" using assms(1) by (simp_all add: task_Queue_def task_wf_def)
  show ?thesis
  proof (cases sched)
    case None
    with m assms(2) q have "op_Publish (cl_broker C) (task_Queue t) ?u w = (Ret None, w')" and "u = ?u"
      by (auto simp: hand_over_def set_metadata_def go_bind_Ret_iff st_def)
    with publish_ok [OF this(1) wf] None m show ?thesis by simp
  next
    case (Some at)
    with m assms(2) q have "op_Schedule (cl_broker C) ?u at w = (Ret None, w')" and "u = ?u"
      by (auto simp: hand_over_def set_metadata_def go_bind_Ret_iff st_def)
    with schedule_ok [OF this(1)] Some m q show ?thesis by simp
  qed
qed

lemma Enqueue_runs:
  assumes "Enqueue now C (Some t) w = (Ret (Inr info, t'), w')"
  obtains sched u w1 w2 w3 where "check_unique C t w = (Ret None, w1)" and "scheduled_for now t w1 = (Ret sched, w2)"
    and "hand_over C t sched w2 = (Ret (None, u), w3)" and "qv w' = qv w3" and "t' = Some u"
    and "info = \<lparr>ti_ID = ID u, ti_Queue = task_Queue u, ti_State = task_State u, ti_ProcessAt = sched\<rparr>"
  using assms
proof (rule Enqueue_steps)
  fix sched u w1 w2 w3
  assume "check_unique C t w = (Ret None, w1)" and "scheduled_for now t w1 = (Ret sched, w2)"
    and "hand_over C t sched w2 = (Ret (None, u), w3)" and save: "save_task C u w3 = (Ret (), w')" and "t' = Some u"
    and "info = \<lparr>ti_ID = ID u, ti_Queue = task_Queue u, ti_State = task_State u, ti_ProcessAt = sched\<rparr>"
  with save_task_view [OF save] that show thesis by blast
qed

end

lemma scheduled_for_cases:
  assumes "scheduled_for now t w = (Ret sched, w')"
  shows "case sched of
      Some at \<Rightarrow> (\<exists>r. Options t = Some r \<and> ProcessAt r = Some at) \<and> fst (now w) < at
    | None \<Rightarrow> (\<forall>r at. Options t = Some r \<longrightarrow> ProcessAt r = Some at \<longrightarrow> at \<le> fst (now w))"
  using assms by (cases "now w") (auto simp: scheduled_for_def go_bind_lift split: option.splits if_splits, metis)

text \<open>
  C9. A task that is enqueued without an error is, unchanged but for its state, in exactly one place: in the
  scheduled set at its process time, when that was still to come as the client read the clock, and at the
  end of its queue's stream otherwise. Nothing else in any queue has changed, and the result tells the
  identifier, the queue, the state and, if it waits, the time.
\<close>

theorem Enqueue_places:
  assumes "task_client C qv bnow now" and "task_wf t" and "Enqueue now C (Some t) w = (Ret (Inr info, t'), w')"
  shows "\<exists>m w1. Metadata t = Some m \<and> qv w1 = qv w \<and>
    (let u = t\<lparr>Metadata := Some (m\<lparr>State := ti_State info\<rparr>)\<rparr>; q = task_Queue t in
      t' = Some u \<and> ti_ID info = ID t \<and> ti_Queue info = q \<and> (case ti_ProcessAt info of
        Some at \<Rightarrow> (\<exists>r. Options t = Some r \<and> ProcessAt r = Some at) \<and> fst (now w1) < at \<and>
          ti_State info = TaskStateScheduled \<and>
          (\<exists>j. marshal_task u = Inr j \<and> qv w' = (qv w)(q := put_later (JsonText j) (unix at) (qv w q)))
      | None \<Rightarrow> (\<forall>r at. Options t = Some r \<longrightarrow> ProcessAt r = Some at \<longrightarrow> at \<le> fst (now w1)) \<and>
          ti_State info = TaskStatePending \<and>
          (\<exists>i. qv w' = (qv w)(q := put_ready i (norm_task u) (qv w q)))))"
proof -
  obtain sched u w1 w2 w3 where 1: "check_unique C t w = (Ret None, w1)" and 2: "scheduled_for now t w1 = (Ret sched, w2)"
    and 3: "hand_over C t sched w2 = (Ret (None, u), w3)" and 4: "qv w' = qv w3" and t': "t' = Some u"
    and info: "info = \<lparr>ti_ID = ID u, ti_Queue = task_Queue u, ti_State = task_State u, ti_ProcessAt = sched\<rparr>"
    by (rule task_client.Enqueue_runs [OF assms(1,3)])
  have qv1: "qv w1 = qv w" by (rule task_client.check_unique_view [OF assms(1) 1])
  have qv2: "qv w2 = qv w1" by (rule task_client.scheduled_for_view [OF assms(1) 2])
  define st where "st = (if sched = None then TaskStatePending else TaskStateScheduled)"
  obtain m where m: "Metadata t = Some m" and u: "u = t\<lparr>Metadata := Some (m\<lparr>State := st\<rparr>)\<rparr>"
    and moved: "case sched of
      None \<Rightarrow> \<exists>i. qv w3 = (qv w2)(task_Queue t := put_ready i (norm_task u) (qv w2 (task_Queue t)))
    | Some at \<Rightarrow> \<exists>j. marshal_task u = Inr j \<and>
        qv w3 = (qv w2)(task_Queue t := put_later (JsonText j) (unix at) (qv w2 (task_Queue t)))"
    using task_client.hand_over_moves [OF assms(1,2) 3] unfolding st_def by blast
  have sel: "ti_State info = st" "ti_ID info = ID t" "ti_Queue info = task_Queue t" "ti_ProcessAt info = sched"
    by (simp_all add: info u task_State_def task_Queue_def)
  show ?thesis
  proof (intro exI conjI)
    show "Metadata t = Some m" by (rule m)
    show "qv w1 = qv w" by (rule qv1)
    show "let u = t\<lparr>Metadata := Some (m\<lparr>State := ti_State info\<rparr>)\<rparr>; q = task_Queue t in
      t' = Some u \<and> ti_ID info = ID t \<and> ti_Queue info = q \<and> (case ti_ProcessAt info of
        Some at \<Rightarrow> (\<exists>r. Options t = Some r \<and> ProcessAt r = Some at) \<and> fst (now w1) < at \<and>
          ti_State info = TaskStateScheduled \<and>
          (\<exists>j. marshal_task u = Inr j \<and> qv w' = (qv w)(q := put_later (JsonText j) (unix at) (qv w q)))
      | None \<Rightarrow> (\<forall>r at. Options t = Some r \<longrightarrow> ProcessAt r = Some at \<longrightarrow> at \<le> fst (now w1)) \<and>
          ti_State info = TaskStatePending \<and>
          (\<exists>i. qv w' = (qv w)(q := put_ready i (norm_task u) (qv w q))))"
      using scheduled_for_cases [OF 2] moved qv1 qv2 4 t' u
      by (cases sched) (simp_all add: sel Let_def st_def)
  qed
qed


definition demo_client :: "mem Client" where
  "demo_client = NewClient (redis_broker mem_env DefaultConsumerConfig) [WithStore (Some demo_store)]"

lemma demo_client_sel [simp]:
  "cl_broker demo_client = redis_broker mem_env DefaultConsumerConfig" "cl_store demo_client = Some demo_store"
  by (simp_all add: demo_client_def NewClient_def WithStore_def)

interpretation mem_client: task_client demo_client "\<lambda>w. view DefaultConsumerConfig (mem_db w)"
  "\<lambda>w. fst (clock mem_env w)" "clock mem_env"
proof (intro task_client.intro task_client_axioms.intro, goal_cases)
  case 1
  show ?case unfolding demo_client_sel by (rule mem.broker.task_broker_axioms)
next
  case (2 w at w')
  then show ?case by simp
next
  case (3 st t w r w')
  then show ?case by (auto simp: demo_store_def)
qed

text \<open>The demo task, with the unique key \<open>k\<close>; its process time is after the start of the in-memory clock.\<close>

definition unique_task :: TaskProto where
  "unique_task = demo_task\<lparr>Options := Some (zero_options\<lparr>UniqueKey := ''k''\<rparr>)\<rparr>"

lemma unique_task_simps [simp]: "task_wf unique_task" "Options unique_task = Some (zero_options\<lparr>UniqueKey := ''k''\<rparr>)"
  "Metadata unique_task = Metadata demo_task" "ID unique_task = ''t1''"
  by (simp_all add: unique_task_def task_wf_def options_wf_def zero_options_def demo_task_def)

definition waiting_task :: TaskProto where
  "waiting_task = demo_task\<lparr>Metadata := Some ((metadata_or_zero demo_task)\<lparr>State := TaskStateScheduled\<rparr>)\<rparr>"

lemma waiting_task_marshals: "marshal_task waiting_task = Inr (json_task waiting_task)"
  by (simp add: marshal_task_def payload_valid_def times_printable_def time_printable_def demo_task_def waiting_task_def
      zero_options_def zero_metadata_def unix_def Second_def metadata_or_zero_def)

lemma demo_steps:
  "check_unique demo_client demo_task empty_mem = (Ret None, empty_mem)"
  "scheduled_for (clock mem_env) demo_task empty_mem = (Ret (Some 1700000000000000000), empty_mem)"
  "hand_over demo_client demo_task (Some at) empty_mem =
     (Ret (None, waiting_task), snd (Schedule mem_env waiting_task at empty_mem))"
  "save_task demo_client waiting_task w = (Ret (), w)"
proof -
  show "check_unique demo_client demo_task empty_mem = (Ret None, empty_mem)"
    by (simp add: check_unique_def demo_task_def zero_options_def)
  show "scheduled_for (clock mem_env) demo_task empty_mem = (Ret (Some 1700000000000000000), empty_mem)"
    by (simp add: scheduled_for_def demo_task_def zero_options_def go_bind_lift empty_mem_def)
  have "Schedule mem_env waiting_task at empty_mem = (Ret None, snd (Schedule mem_env waiting_task at empty_mem))"
    by (simp add: Schedule_def waiting_task_marshals go_bind_lift_case go_lift_def mem_pipe_def empty_mem_def Let_def)
  moreover obtain m where "Metadata demo_task = Some m" by (simp add: demo_task_def)
  ultimately show "hand_over demo_client demo_task (Some at) empty_mem =
     (Ret (None, waiting_task), snd (Schedule mem_env waiting_task at empty_mem))"
    by (simp add: hand_over_def set_metadata_def go_bind_Ret waiting_task_def metadata_or_zero_def)
  show "save_task demo_client waiting_task w = (Ret (), w)"
    by (simp add: save_task_def demo_store_def)
qed

lemma demo_enqueue: "Enqueue (clock mem_env) demo_client (Some demo_task) empty_mem =
    (Ret (Inr \<lparr>ti_ID = ''t1'', ti_Queue = ''critical'', ti_State = TaskStateScheduled, ti_ProcessAt = Some 1700000000000000000\<rparr>,
       Some waiting_task), snd (Schedule mem_env waiting_task 1700000000000000000 empty_mem))"
proof -
  have "ID waiting_task = ''t1''" "task_Queue waiting_task = ''critical''" "task_State waiting_task = TaskStateScheduled"
    by (simp_all add: waiting_task_def task_Queue_def task_State_def demo_task_def zero_options_def)
  then show ?thesis by (simp add: Enqueue_def go_bind_Ret demo_steps del: mem_env_sel)
qed

theorem Enqueue_places_witness:
  "\<exists>j. marshal_task waiting_task = Inr j \<and>
     view DefaultConsumerConfig (mem_db (snd (Schedule mem_env waiting_task 1700000000000000000 empty_mem))) =
       (view DefaultConsumerConfig (mem_db empty_mem))(''critical'' :=
         put_later (JsonText j) 1700000000 (view DefaultConsumerConfig (mem_db empty_mem) ''critical''))"
proof -
  have q: "task_Queue demo_task = ''critical''" by (simp add: task_Queue_def demo_task_def zero_options_def)
  obtain m where m: "Metadata demo_task = Some m" by (simp add: demo_task_def)
  show ?thesis
    using Enqueue_places [OF mem_client.task_client_axioms demo_task_wf demo_enqueue] m
    by (auto simp: Let_def q unix_def Second_def waiting_task_def metadata_or_zero_def)
qed


section \<open>Unique keys\<close>

lemma check_unique_key:
  assumes "Options t = Some r" and "UniqueKey r \<noteq> ''''" and "cl_broker C = redis_broker E cfg"
    and "SetUnique E (UniqueKey r) (ID t) (if sint (UniqueTTL r) > 0 then UniqueTTL r else dur Hour) w = (Ret res, w')"
  shows "check_unique C t w = (Ret (case res of
      Inl err \<Rightarrow> Some (ErrWrap ''failed to check uniqueness: '' err)
    | Inr ok \<Rightarrow> if ok then None else Some ErrDuplicateTask), w')"
  using assms by (simp add: check_unique_def Let_def go_bind_def)

text \<open>
  Once a unique key has been won, and until it expires or is deleted, enqueueing any task with that key
  returns \<open>ErrDuplicateTask\<close> and changes nothing, neither in Redis nor in the task.
\<close>

theorem Enqueue_duplicate:
  assumes "redis_server E db clk" and "cl_broker C = redis_broker E cfg"
    and "SetUnique E key tid ttl w = (Ret (Inr True), w1)"
    and "strings (db w2) (uniquePrefix @ key) = strings (db w1) (uniquePrefix @ key)"
    and "Options t = Some r" and "UniqueKey r = key" and "key \<noteq> ''''"
    and "SetUnique E key (ID t) (if sint (UniqueTTL r) > 0 then UniqueTTL r else dur Hour) w2 = (Ret (Inr b), w3)"
    and "ttl = 0 \<or> clk w3 < clk w + sint ttl div Millisecond * Millisecond"
  shows "Enqueue now C (Some t) w2 = (Ret (Inl ErrDuplicateTask, Some t), w3) \<and> db w3 = db w2"
proof -
  have "\<not> b \<and> db w3 = db w2" by (rule redis_server.SetUnique_again [OF assms(1,3,4,8,9)])
  with check_unique_key [OF assms(5) _ assms(2), of w2 "Inr b" w3] assms(6-8) show ?thesis
    by (simp add: Enqueue_def go_bind_def)
qed

definition taken_mem :: mem where
  "taken_mem = empty_mem\<lparr>m_strings := [uniquePrefix @ ''k'' \<mapsto> (''t1'', Some Hour)]\<rparr>"

lemma demo_SetUnique: "SetUnique mem_env ''k'' ''t1'' (dur Hour) empty_mem = (Ret (Inr True), taken_mem)"
  "SetUnique mem_env ''k'' ''t1'' (dur Hour) taken_mem = (Ret (Inr False), taken_mem)"
  by (simp_all add: SetUnique_def go_lift_def mem_call_def empty_mem_def mem_set_nx_def live_def mem_db_def
      taken_mem_def dur_def Hour_def Minute_def Second_def)

theorem Enqueue_duplicate_witness:
  "Enqueue (clock mem_env) demo_client (Some unique_task) taken_mem = (Ret (Inl ErrDuplicateTask, Some unique_task), taken_mem) \<and>
     mem_db taken_mem = mem_db taken_mem"
  using Enqueue_duplicate [OF mem.redis_server_axioms demo_client_sel(1) demo_SetUnique(1) refl unique_task_simps(2) _ _ _ _,
      of False taken_mem "clock mem_env"]
  by (simp add: zero_options_def demo_SetUnique del: mem_env_sel)
    (simp add: taken_mem_def empty_mem_def dur_def Hour_def Minute_def Second_def Millisecond_def)

context redis_server
begin

lemma Publish_strings:
  assumes "Publish E q t w = (r, w')"
  shows "strings (db w') = strings (db w)"
proof (cases "marshal_task t")
  case (Inl e)
  with assms show ?thesis by (simp add: Publish_def)
next
  case (Inr j)
  let ?cs = "[XAdd (streamKey q) [(''data'', JsonText j)], SAdd queuesKey q, HIncrBy (statsPrefix @ q) ''enqueued'' 1]"
  obtain err w1 where run: "pipe_exec E ?cs w = (err, w1)" by (cases "pipe_exec E ?cs w")
  with assms Inr have "w' = w1" by (auto simp: Publish_def go_bind_lift split: option.splits)
  show ?thesis
  proof (cases err)
    case None
    from pipe_ok [OF run [unfolded None]] \<open>w' = w1\<close> show ?thesis using commands_step_strings [of ?cs] by auto
  next
    case (Some e)
    from pipe_fail [OF run [unfolded Some]] obtain cs' where sub: "subseq cs' ?cs" and step: "commands_step cs' (db w) (db w1)"
      by blast
    have "list_all (\<lambda>c. \<forall>k. c \<noteq> Del k) cs'" by (rule subseq_list_all [OF sub]) simp
    then have "Del k \<notin> set cs'" for k by (auto simp: list_all_iff)
    with commands_step_strings [OF step] \<open>w' = w1\<close> show ?thesis by blast
  qed
qed

end

text \<open>
  C37. A task that could not be published does not give its unique key back: after the error the key is
  taken in the name of this task, so enqueueing it again is refused as a duplicate, even when the task
  is in no queue.
\<close>

theorem failed_Enqueue_keeps_key:
  assumes "redis_server E db clk" and "cl_broker C = redis_broker E cfg"
    and "Options t = Some r" and "UniqueKey r \<noteq> ''''" and "ProcessAt r = None"
    and "Enqueue now C (Some t) w = (Ret (Inl (ErrWrap ''failed to enqueue task: '' e), t'), w')"
  shows "\<exists>x. strings (db w') (uniquePrefix @ UniqueKey r) = Some (ID t, x)"
proof -
  let ?ttl = "if sint (UniqueTTL r) > 0 then UniqueTTL r else dur Hour"
  obtain rs w1 where "set_nx E (uniquePrefix @ UniqueKey r) (ID t) ?ttl w = (rs, w1)"
    by (cases "set_nx E (uniquePrefix @ UniqueKey r) (ID t) ?ttl w")
  note nx = this
  then have set: "SetUnique E (UniqueKey r) (ID t) ?ttl w = (Ret rs, w1)" by (simp add: SetUnique_def go_lift_def)
  note check = check_unique_key [OF assms(3,4,2) set]
  have rs: "rs = Inr True"
  proof (cases rs)
    case (Inl err)
    with check assms(6) show ?thesis by (simp add: Enqueue_def go_bind_def)
  next
    case (Inr b)
    with check assms(6) show ?thesis by (cases b) (simp_all add: Enqueue_def go_bind_def)
  qed
  obtain m where m: "Metadata t = Some m"
    using check rs assms(3,5,6)
    by (cases "Metadata t") (simp_all add: Enqueue_def scheduled_for_def hand_over_def set_metadata_def go_bind_def)
  let ?u = "t\<lparr>Metadata := Some (m\<lparr>State := TaskStatePending\<rparr>)\<rparr>"
  from redis_server.set_nx_ok [OF assms(1) nx [unfolded rs]]
  obtain x where key: "strings (db w1) (uniquePrefix @ UniqueKey r) = Some (ID t, x)"
    by (auto simp: set_nx_eff_def split: if_splits)
  obtain pr w2 where pub: "Publish E (task_Queue t) ?u w1 = (pr, w2)" by (cases "Publish E (task_Queue t) ?u w1")
  obtain err where pr: "pr = Ret err"
    using redis_server.redis_no_panic(1) [OF assms(1)] pub by (cases pr) auto
  then have hand: "hand_over C t None w1 = (Ret (map_option (ErrWrap ''failed to enqueue task: '') err, ?u), w2)"
    using m pub assms(2) by (simp add: hand_over_def set_metadata_def go_bind_def task_Queue_def)
  have sched: "scheduled_for now t w1 = (Ret None, w1)" using assms(3,5) by (simp add: scheduled_for_def)
  have w': "w' = w2"
  proof (cases err)
    case None
    with assms(6) check rs hand sched show ?thesis by (auto simp: Enqueue_def go_bind_Ret_iff)
  next
    case (Some e)
    with assms(6) check rs hand sched show ?thesis by (auto simp: Enqueue_def go_bind_Ret_iff)
  qed
  have "strings (db w2) = strings (db w1)"
    by (rule redis_server.Publish_strings [OF assms(1) pub])
  with key w' show ?thesis by auto
qed


definition flaky_mem :: mem where
  "flaky_mem = empty_mem\<lparr>m_faults := [None, Some (ErrText ''i/o timeout'', 0)]\<rparr>"

lemma unique_task_pending_marshals:
  "marshal_task (unique_task\<lparr>Metadata := Some ((metadata_or_zero demo_task)\<lparr>State := st\<rparr>)\<rparr>) =
     Inr (json_task (unique_task\<lparr>Metadata := Some ((metadata_or_zero demo_task)\<lparr>State := st\<rparr>)\<rparr>))"
  by (simp add: marshal_task_def payload_valid_def times_printable_def time_printable_def demo_task_def unique_task_def
      zero_options_def zero_metadata_def unix_def Second_def metadata_or_zero_def)

lemma demo_failed_enqueue:
  "\<exists>t' w'. Enqueue (clock mem_env) demo_client (Some unique_task) flaky_mem =
     (Ret (Inl (ErrWrap ''failed to enqueue task: '' (ErrWrap ''failed to publish task: '' (ErrText ''i/o timeout''))), t'), w')"
proof -
  let ?w = "taken_mem\<lparr>m_faults := [Some (ErrText ''i/o timeout'', 0)]\<rparr>"
  let ?u = "unique_task\<lparr>Metadata := Some ((metadata_or_zero demo_task)\<lparr>State := TaskStatePending\<rparr>)\<rparr>"
  have "SetUnique mem_env ''k'' ''t1'' (dur Hour) flaky_mem = (Ret (Inr True), ?w)"
    by (simp add: SetUnique_def go_lift_def mem_call_def empty_mem_def mem_set_nx_def live_def mem_db_def
        taken_mem_def flaky_mem_def dur_def Hour_def Minute_def Second_def)
  then have 1: "check_unique demo_client unique_task flaky_mem = (Ret None, ?w)"
    using check_unique_key [OF unique_task_simps(2) _ demo_client_sel(1), of flaky_mem "Inr True" ?w]
    by (simp add: zero_options_def del: mem_env_sel)
  have 2: "scheduled_for (clock mem_env) unique_task ?w = (Ret None, ?w)"
    by (simp add: scheduled_for_def zero_options_def)
  have "\<exists>w'. Publish mem_env q ?u ?w = (Ret (Some (ErrWrap ''failed to publish task: '' (ErrText ''i/o timeout''))), w')" for q
    by (simp add: Publish_def unique_task_pending_marshals go_bind_lift_case mem_pipe_def)
  then obtain w' where "Publish mem_env (task_Queue ?u) ?u ?w = (Ret (Some (ErrWrap ''failed to publish task: '' (ErrText ''i/o timeout''))), w')"
    by blast
  moreover obtain m where "Metadata demo_task = Some m" by (simp add: demo_task_def)
  ultimately have "hand_over demo_client unique_task None ?w =
      (Ret (Some (ErrWrap ''failed to enqueue task: '' (ErrWrap ''failed to publish task: '' (ErrText ''i/o timeout''))), ?u), w')"
    by (simp add: hand_over_def set_metadata_def go_bind_def metadata_or_zero_def)
  with 1 2 show ?thesis by (simp add: Enqueue_def go_bind_Ret)
qed

theorem failed_Enqueue_keeps_key_witness:
  "\<exists>r w'. Enqueue (clock mem_env) demo_client (Some unique_task) flaky_mem = (Ret r, w') \<and>
     (\<exists>x. strings (mem_db w') (uniquePrefix @ ''k'') = Some (''t1'', x))"
proof -
  obtain t' w' where run: "Enqueue (clock mem_env) demo_client (Some unique_task) flaky_mem =
     (Ret (Inl (ErrWrap ''failed to enqueue task: '' (ErrWrap ''failed to publish task: '' (ErrText ''i/o timeout''))), t'), w')"
    using demo_failed_enqueue by blast
  from failed_Enqueue_keeps_key [OF mem.redis_server_axioms demo_client_sel(1) unique_task_simps(2) _ _ run]
  have "\<exists>x. strings (mem_db w') (uniquePrefix @ ''k'') = Some (''t1'', x)" by (simp add: zero_options_def)
  with run show ?thesis by blast
qed

section \<open>What the client does not do\<close>

text \<open>\<open>EnqueueUnique\<close> has no use for its time to live, and \<open>Cancel\<close> leaves the queues alone.\<close>

lemma EnqueueUnique_ttl: "EnqueueUnique now C t key ttl = EnqueueUnique now C t key ttl'"
  by (simp add: EnqueueUnique_def)

lemma Cancel_queues:
  assumes "\<And>st. cl_store C = Some st \<Longrightarrow> \<forall>a b c w. qv (snd (st_UpdateTaskState st a b c w)) = qv w"
  shows "qv (snd (Cancel C tid w)) = qv w"
  using assms by (simp add: Cancel_def split: option.split)

end
