(* ===== verification/Store_Postgres.thy ===== *)
theory Store_Postgres
  imports Task_Api
begin

text \<open>
  \<^verbatim>\<open>store/store.go\<close> and \<^verbatim>\<open>store/postgres/postgres.go\<close>: the table of tasks. The database is a parameter: \<open>'w sql\<close>
  runs a statement text with its arguments. The texts are those of the code with white space
  normalised. \<open>now\<close> is \<open>time.Now\<close>; opening, pinging and closing the connection are calls of
  \<open>database/sql\<close> and are left out.
\<close>

section \<open>The driver\<close>

text \<open>An argument of a statement; a nil pointer is \<open>NULL\<close>, and a JSON text is kept as \<open>bulk\<close>.\<close>

datatype sql_arg = ArgText string | ArgJson bulk | ArgInt int | ArgTime time | ArgNull

text \<open>A row of \<open>strego_tasks\<close> as it is scanned: \<open>sql.NullString\<close> and \<open>sql.NullTime\<close> are options.\<close>

record task_row =
  r_id :: string
  r_type :: string
  r_queue :: string
  r_state :: string
  r_payload :: json
  r_error :: "string option"
  r_retry_count :: int
  r_max_retry :: int
  r_priority :: int
  r_created_at :: time
  r_scheduled_at :: "time option"
  r_started_at :: "time option"
  r_completed_at :: "time option"
  r_worker_id :: "string option"
  r_consumer_group :: "string option"
  r_trace_id :: "string option"
  r_unique_key :: "string option"
  r_labels :: json

text \<open>
  \<open>ExecContext\<close> with the rows affected, \<open>QueryContext\<close> for rows of tasks (each the result of its \<open>Scan\<close>),
  \<open>QueryRowContext\<close> for a row of numbers (the text is the last column of the queue statistics, a float).
\<close>

record 'w sql =
  sql_exec :: "string \<Rightarrow> sql_arg list \<Rightarrow> 'w \<Rightarrow> (go_error + int) \<times> 'w"
  sql_tasks :: "string \<Rightarrow> sql_arg list \<Rightarrow> 'w \<Rightarrow> (go_error + (go_error + task_row) list) \<times> 'w"
  sql_numbers :: "string \<Rightarrow> sql_arg list \<Rightarrow> 'w \<Rightarrow> (go_error + int list \<times> string) \<times> 'w"

definition arg_text :: "string option \<Rightarrow> sql_arg" where
  "arg_text v = (case v of None \<Rightarrow> ArgNull | Some s \<Rightarrow> ArgText s)"

definition arg_time :: "time option \<Rightarrow> sql_arg" where
  "arg_time v = (case v of None \<Rightarrow> ArgNull | Some t \<Rightarrow> ArgTime t)"

text \<open>A pointer to the text, nil when it is empty.\<close>

definition non_empty :: "string \<Rightarrow> string option" where
  "non_empty s = (if s = '''' then None else Some s)"

section \<open>Writing tasks\<close>

definition insert_sql :: string where
  "insert_sql = ''INSERT INTO strego_tasks ( id, type, queue, state, payload, max_retry, priority, created_at, scheduled_at, unique_key, labels, consumer_group ) VALUES ($1, $2, $3, $4, $5::jsonb, $6, $7, $8, $9, $10, $11::jsonb, $12) ON CONFLICT (id) DO NOTHING''"

definition update_sql :: string where
  "update_sql = ''UPDATE strego_tasks SET state = $2, retry_count = $3, started_at = $4, completed_at = $5, error = $6, worker_id = $7, consumer_group = COALESCE($8, consumer_group) WHERE id = $1''"

definition update_state_sql :: string where
  "update_state_sql = ''UPDATE strego_tasks SET state = $2, error = CASE WHEN $3 = '' @ [CHR 0x27, CHR 0x27] @ '' THEN error ELSE $3 END, completed_at = COALESCE($4, completed_at) WHERE id = $1''"

definition select_columns :: string where
  "select_columns = ''SELECT id, type, queue, state, payload, error, retry_count, max_retry, priority, created_at, scheduled_at, started_at, completed_at, worker_id, consumer_group, trace_id, unique_key, labels FROM strego_tasks ''"

definition select_sql :: string where
  "select_sql = select_columns @ ''WHERE id = $1''"

text \<open>The payload and the label map as the texts that are stored.\<close>

definition payload_text :: "RawMessage \<Rightarrow> bulk" where
  "payload_text p = (case p of
      RawEmpty \<Rightarrow> JsonText (JObj [])
    | RawJson j \<Rightarrow> JsonText j
    | RawInvalid s \<Rightarrow> PlainText s)"

definition labels_json :: "string gomap \<Rightarrow> json" where
  "labels_json m = JObj (map (\<lambda>(k, v). (k, JStr v)) m)"

definition store_state :: "TaskProto \<Rightarrow> string" where
  "store_state t = (case Metadata t of
      None \<Rightarrow> TaskStatePending
    | Some m \<Rightarrow> if State m \<noteq> '''' then State m else TaskStatePending)"

definition store_max_retry :: "TaskProto \<Rightarrow> int" where
  "store_max_retry t = (case Options t of
      None \<Rightarrow> 3
    | Some r \<Rightarrow> if sint (MaxRetry r) > 0 then sint (MaxRetry r) else 3)"

definition store_labels :: "TaskProto \<Rightarrow> json" where
  "store_labels t = (case Options t of
      None \<Rightarrow> JObj []
    | Some r \<Rightarrow> (case Labels r of None \<Rightarrow> JObj [] | Some m \<Rightarrow> labels_json m))"

definition store_group :: "TaskProto \<Rightarrow> string option" where
  "store_group t = (case Metadata t of None \<Rightarrow> None | Some m \<Rightarrow> non_empty (ConsumerGroup m))"

definition scheduled_at :: "('w \<Rightarrow> time \<times> 'w) \<Rightarrow> TaskProto \<Rightarrow> ('w, time option) go" where
  "scheduled_at now t = (case Options t of
      None \<Rightarrow> go_return None
    | Some r \<Rightarrow> (case ProcessAt r of
          Some at \<Rightarrow> go_return (Some at)
        | None \<Rightarrow> go_bind (go_lift now) (\<lambda>at. go_return (Some at))))"

definition created_at :: "('w \<Rightarrow> time \<times> 'w) \<Rightarrow> TaskProto \<Rightarrow> ('w, time) go" where
  "created_at now t = (case Metadata t of
      None \<Rightarrow> go_lift now
    | Some m \<Rightarrow> (case CreatedAt m of Some at \<Rightarrow> go_return at | None \<Rightarrow> go_lift now))"

definition insert_args :: "TaskProto \<Rightarrow> time option \<Rightarrow> time \<Rightarrow> sql_arg list" where
  "insert_args t scheduledAt createdAt =
     [ArgText (ID t), ArgText (Type t), ArgText (task_Queue t), ArgText (store_state t), ArgJson (payload_text (Payload t)),
      ArgInt (store_max_retry t), ArgInt (sint (Priority (options_or_zero t))), ArgTime createdAt, arg_time scheduledAt,
      arg_text (non_empty (UniqueKey (options_or_zero t))), ArgJson (JsonText (store_labels t)), arg_text (store_group t)]"

definition CreateTask :: "'w sql \<Rightarrow> ('w \<Rightarrow> time \<times> 'w) \<Rightarrow> TaskProto \<Rightarrow> ('w, go_error option) go" where
  "CreateTask D now t =
     go_bind (scheduled_at now t) (\<lambda>scheduledAt.
     go_bind (created_at now t) (\<lambda>createdAt.
     go_bind (go_lift (sql_exec D insert_sql (insert_args t scheduledAt createdAt)))
     (\<lambda>r. go_return (case r of
         Inl err \<Rightarrow> Some (ErrWrap ''failed to insert task: '' err)
       | Inr rows \<Rightarrow> None))))"

text \<open>A task that is not in the table is created, from the fields that \<open>CreateTask\<close> stores.\<close>

definition UpdateTask :: "'w sql \<Rightarrow> ('w \<Rightarrow> time \<times> 'w) \<Rightarrow> TaskProto \<Rightarrow> ('w, go_error option) go" where
  "UpdateTask D now t =
     (let m = metadata_or_zero t
      in go_bind (go_lift (sql_exec D update_sql
           [ArgText (ID t), ArgText (store_state t), ArgInt (sint (RetryCount m)), arg_time (StartedAt m),
            arg_time (CompletedAt m), arg_text (non_empty (LastError m)), arg_text (non_empty (WorkerID m)),
            arg_text (non_empty (ConsumerGroup m))]))
         (\<lambda>r. case r of
             Inl err \<Rightarrow> go_return (Some (ErrWrap ''failed to update task: '' err))
           | Inr rows \<Rightarrow> if rows = 0 then CreateTask D now t else go_return None))"

definition UpdateTaskState ::
  "'w sql \<Rightarrow> ('w \<Rightarrow> time \<times> 'w) \<Rightarrow> string \<Rightarrow> string \<Rightarrow> string \<Rightarrow> ('w, go_error option) go" where
  "UpdateTaskState D now taskID state errMsg =
     go_bind (if state = ''completed'' \<or> state = ''dead'' \<or> state = ''cancelled''
              then go_bind (go_lift now) (\<lambda>at. go_return (Some at)) else go_return None) (\<lambda>completedAt.
     go_bind (go_lift (sql_exec D update_state_sql [ArgText taskID, ArgText state, ArgText errMsg, arg_time completedAt]))
     (\<lambda>r. go_return (case r of
         Inl err \<Rightarrow> Some (ErrWrap ''failed to update task state: '' err)
       | Inr rows \<Rightarrow> None)))"

section \<open>Reading tasks\<close>

text \<open>A nullable text column into a string field: \<open>NULL\<close> leaves it empty.\<close>

definition null_text :: "string option \<Rightarrow> string" where
  "null_text v = (case v of None \<Rightarrow> '''' | Some s \<Rightarrow> s)"

text \<open>The label map; a text that is no map of strings is dropped.\<close>

definition row_labels :: "json \<Rightarrow> string gomap option" where
  "row_labels j = (if j = JObj [] then None else
     (case dec_labels j None of None \<Rightarrow> None | Some l \<Rightarrow> l))"

text \<open>The part of the task that \<open>GetTask\<close> and \<open>ListTasks\<close> both fill.\<close>

definition row_task :: "task_row \<Rightarrow> TaskProto" where
  "row_task r = \<lparr>ID = r_id r, Type = r_type r, Payload = RawJson (r_payload r),
     Options = Some (zero_options\<lparr>Queue := r_queue r, MaxRetry := word_of_int (r_max_retry r),
       Priority := word_of_int (r_priority r), ProcessAt := r_scheduled_at r\<rparr>),
     Metadata = Some (zero_metadata\<lparr>State := r_state r, RetryCount := word_of_int (r_retry_count r),
       CreatedAt := Some (r_created_at r), LastError := null_text (r_error r), WorkerID := null_text (r_worker_id r),
       ConsumerGroup := null_text (r_consumer_group r), StartedAt := r_started_at r, CompletedAt := r_completed_at r\<rparr>)\<rparr>"

definition full_task :: "task_row \<Rightarrow> TaskProto" where
  "full_task r =
     (let t = row_task r
      in t\<lparr>Options := Some ((options_or_zero t)\<lparr>UniqueKey := null_text (r_unique_key r), Labels := row_labels (r_labels r)\<rparr>),
           Metadata := Some ((metadata_or_zero t)\<lparr>TraceID := null_text (r_trace_id r)\<rparr>)\<rparr>)"

definition GetTask :: "'w sql \<Rightarrow> string \<Rightarrow> ('w, go_error + TaskProto) go" where
  "GetTask D taskID = go_bind (go_lift (sql_tasks D select_sql [ArgText taskID])) (\<lambda>res. go_return (case res of
       Inl err \<Rightarrow> Inl (if errors_is err SqlNoRows then ErrTaskNotFound else ErrWrap ''failed to get task: '' err)
     | Inr [] \<Rightarrow> Inl ErrTaskNotFound
     | Inr (Inl err # rs) \<Rightarrow> Inl (ErrWrap ''failed to get task: '' err)
     | Inr (Inr r # rs) \<Rightarrow> Inr (full_task r)))"

section \<open>Filters\<close>

text \<open>\<open>time.Time{}\<close>, the first of January of the year 1.\<close>

definition zero_time :: time where "zero_time = -62135596800 * Second"

record TaskFilter =
  f_Queue :: string
  f_State :: string
  f_States :: "string list"
  f_Type :: string
  f_Search :: string
  f_Labels :: "string gomap option"   \<comment> \<open>no query uses it\<close>
  f_CreatedAfter :: time
  f_CreatedBefore :: time
  f_Limit :: int
  f_Offset :: int
  f_SortBy :: string
  f_SortOrder :: string

fun go_join :: "string \<Rightarrow> string list \<Rightarrow> string" where
  "go_join sep [] = ''''"
| "go_join sep [x] = x"
| "go_join sep (x # y # xs) = x @ sep @ go_join sep (y # xs)"

text \<open>The conditions, the arguments and the number of the next placeholder.\<close>

record where_parts =
  conditions :: "string list"
  args :: "sql_arg list"
  argIdx :: nat

definition no_where :: where_parts where
  "no_where = \<lparr>conditions = [], args = [], argIdx = 1\<rparr>"

text \<open>A condition with one placeholder, which comes last.\<close>

definition add_condition :: "string \<Rightarrow> sql_arg \<Rightarrow> where_parts \<Rightarrow> where_parts" where
  "add_condition c a p = p\<lparr>conditions := conditions p @ [c @ ''$'' @ show_nat (argIdx p)],
     args := args p @ [a], argIdx := argIdx p + 1\<rparr>"

definition add_states :: "string list \<Rightarrow> where_parts \<Rightarrow> where_parts" where
  "add_states states p =
     (let placeholders = map (\<lambda>i. ''$'' @ show_nat i) [argIdx p..<argIdx p + length states]
      in p\<lparr>conditions := conditions p @ [''state IN ('' @ go_join '', '' placeholders @ '')''],
           args := args p @ map ArgText states, argIdx := argIdx p + length states\<rparr>)"

definition add_search :: "string \<Rightarrow> where_parts \<Rightarrow> where_parts" where
  "add_search text p =
     (let pattern = ArgText (''%'' @ text @ ''%'')
      in p\<lparr>conditions := conditions p @
             [''(id::text ILIKE $'' @ show_nat (argIdx p) @ '' OR type ILIKE $'' @ show_nat (argIdx p + 1) @ '')''],
           args := args p @ [pattern, pattern], argIdx := argIdx p + 2\<rparr>)"

definition list_where :: "TaskFilter \<Rightarrow> where_parts" where
  "list_where f =
     (let p = no_where;
          p = (if f_Queue f \<noteq> '''' then add_condition ''queue = '' (ArgText (f_Queue f)) p else p);
          p = (if f_States f \<noteq> [] then add_states (f_States f) p
               else if f_State f \<noteq> '''' then add_condition ''state = '' (ArgText (f_State f)) p else p);
          p = (if f_Type f \<noteq> '''' then add_condition ''type = '' (ArgText (f_Type f)) p else p);
          p = (if f_Search f \<noteq> '''' then add_search (f_Search f) p else p);
          p = (if f_CreatedAfter f \<noteq> zero_time then add_condition ''created_at >= '' (ArgTime (f_CreatedAfter f)) p else p)
      in if f_CreatedBefore f \<noteq> zero_time then add_condition ''created_at <= '' (ArgTime (f_CreatedBefore f)) p else p)"

definition count_where :: "TaskFilter \<Rightarrow> where_parts" where
  "count_where f =
     (let p = no_where;
          p = (if f_Queue f \<noteq> '''' then add_condition ''queue = '' (ArgText (f_Queue f)) p else p);
          p = (if f_State f \<noteq> '''' then add_condition ''state = '' (ArgText (f_State f)) p else p)
      in if f_Type f \<noteq> '''' then add_condition ''type = '' (ArgText (f_Type f)) p else p)"

definition where_clause :: "where_parts \<Rightarrow> string" where
  "where_clause p = (if conditions p = [] then '''' else ''WHERE '' @ go_join '' AND '' (conditions p))"

definition count_sql :: "where_parts \<Rightarrow> string" where
  "count_sql p = ''SELECT COUNT(*) FROM strego_tasks '' @ where_clause p"

definition sort_columns :: "string list" where
  "sort_columns = [''created_at'', ''started_at'', ''completed_at'', ''scheduled_at'', ''type'', ''queue'', ''state'']"

definition order_by :: "TaskFilter \<Rightarrow> string" where
  "order_by f = (if f_SortBy f \<in> set sort_columns then f_SortBy f else ''created_at'')"

definition order_dir :: "TaskFilter \<Rightarrow> string" where
  "order_dir f = (if f_SortOrder f = ''asc'' then ''ASC'' else ''DESC'')"

definition list_limit :: "TaskFilter \<Rightarrow> int" where
  "list_limit f = (if f_Limit f > 0 \<and> f_Limit f \<le> 1000 then f_Limit f else 50)"

definition list_sql :: "TaskFilter \<Rightarrow> string" where
  "list_sql f = select_columns @ where_clause (list_where f) @ '' ORDER BY '' @ order_by f @ '' '' @ order_dir f @
     '' LIMIT '' @ show_int (list_limit f) @ '' OFFSET '' @ show_int (f_Offset f)"

text \<open>\<open>Scan\<close> fails when the numbers of columns and of destinations differ.\<close>

definition scan_mismatch :: go_error where
  "scan_mismatch = ErrText ''sql: wrong number of destination arguments in Scan''"

fun scan_count :: "int list \<Rightarrow> go_error + int" where
  "scan_count [n] = Inr n"
| "scan_count _ = Inl scan_mismatch"

text \<open>The query and the \<open>Scan\<close> that \<open>ListTasks\<close> and \<open>CountTasks\<close> count with.\<close>

definition count_rows :: "'w sql \<Rightarrow> where_parts \<Rightarrow> ('w, go_error + int) go" where
  "count_rows D p = go_bind (go_lift (sql_numbers D (count_sql p) (args p))) (\<lambda>res. go_return
     (case (case res of Inl err \<Rightarrow> Inl err | Inr (ns, fl) \<Rightarrow> scan_count ns) of
         Inl err \<Rightarrow> Inl (ErrWrap ''failed to count tasks: '' err)
       | Inr n \<Rightarrow> Inr n))"

fun scan_rows :: "(go_error + task_row) list \<Rightarrow> go_error + TaskProto list" where
  "scan_rows [] = Inr []"
| "scan_rows (Inl err # rs) = Inl (ErrWrap ''failed to scan task: '' err)"
| "scan_rows (Inr r # rs) = (case scan_rows rs of Inl err \<Rightarrow> Inl err | Inr ts \<Rightarrow> Inr (row_task r # ts))"

definition ListTasks :: "'w sql \<Rightarrow> TaskFilter \<Rightarrow> ('w, go_error + TaskProto list \<times> int) go" where
  "ListTasks D f = go_bind (count_rows D (list_where f)) (\<lambda>res. case res of
       Inl err \<Rightarrow> go_return (Inl err)
     | Inr cnt \<Rightarrow>
         go_bind (go_lift (sql_tasks D (list_sql f) (args (list_where f)))) (\<lambda>res. go_return (case res of
             Inl err \<Rightarrow> Inl (ErrWrap ''failed to list tasks: '' err)
           | Inr rows \<Rightarrow> (case scan_rows rows of
                 Inl err \<Rightarrow> Inl err
               | Inr ts \<Rightarrow> Inr (ts, cnt)))))"

definition CountTasks :: "'w sql \<Rightarrow> TaskFilter \<Rightarrow> ('w, go_error + int) go" where
  "CountTasks D f = count_rows D (count_where f)"

section \<open>Deleting\<close>

definition delete_sql :: string where
  "delete_sql = ''DELETE FROM strego_tasks WHERE id = $1''"

definition quoted :: "string \<Rightarrow> string" where
  "quoted s = CHR 0x27 # s @ [CHR 0x27]"

definition delete_old_sql :: string where
  "delete_old_sql = ''DELETE FROM strego_tasks WHERE state IN ('' @
     go_join '', '' (map quoted [''completed'', ''dead'', ''cancelled'']) @ '') AND completed_at < $1''"

definition DeleteTask :: "'w sql \<Rightarrow> string \<Rightarrow> ('w, go_error option) go" where
  "DeleteTask D taskID = go_bind (go_lift (sql_exec D delete_sql [ArgText taskID])) (\<lambda>r. go_return (case r of
       Inl err \<Rightarrow> Some (ErrWrap ''failed to delete task: '' err)
     | Inr rows \<Rightarrow> None))"

definition DeleteOldTasks :: "'w sql \<Rightarrow> ('w \<Rightarrow> time \<times> 'w) \<Rightarrow> duration \<Rightarrow> ('w, go_error + int) go" where
  "DeleteOldTasks D now olderThan = go_bind (go_lift now) (\<lambda>t.
     go_bind (go_lift (sql_exec D delete_old_sql [ArgTime (t + sint (- olderThan))])) (\<lambda>r. go_return (case r of
       Inl err \<Rightarrow> Inl (ErrWrap ''failed to delete old tasks: '' err)
     | Inr rows \<Rightarrow> Inr rows)))"

section \<open>Statistics\<close>

record Stats =
  TotalTasks :: int
  PendingTasks :: int
  ActiveTasks :: int
  CompletedTasks :: int
  FailedTasks :: int
  DeadTasks :: int
  RetryTasks :: int
  ScheduledTasks :: int

text \<open>The float \<open>AvgDuration\<close> is kept as the text the database gives.\<close>

record QueueStats = Stats +
  qs_Queue :: string
  AvgDuration :: string

definition stats_columns :: string where
  "stats_columns = ''SELECT COUNT(*) as total, '' @ go_join '', '' (map
     (\<lambda>st. ''COUNT(*) FILTER (WHERE state = '' @ quoted st @ '') as '' @ st)
     [''pending'', ''active'', ''completed'', ''failed'', ''dead'', ''retry'', ''scheduled''])"

definition stats_sql :: string where
  "stats_sql = stats_columns @ '' FROM strego_tasks''"

definition queue_stats_sql :: string where
  "queue_stats_sql = stats_columns @
     '', COALESCE(AVG(EXTRACT(EPOCH FROM (completed_at - started_at))) FILTER (WHERE completed_at IS NOT NULL AND started_at IS NOT NULL), 0) as avg_duration FROM strego_tasks WHERE queue = $1''"

fun scan_stats :: "int list \<Rightarrow> go_error + Stats" where
  "scan_stats [n1, n2, n3, n4, n5, n6, n7, n8] = Inr \<lparr>TotalTasks = n1, PendingTasks = n2, ActiveTasks = n3,
     CompletedTasks = n4, FailedTasks = n5, DeadTasks = n6, RetryTasks = n7, ScheduledTasks = n8\<rparr>"
| "scan_stats _ = Inl scan_mismatch"

definition GetStats :: "'w sql \<Rightarrow> ('w, go_error + Stats) go" where
  "GetStats D = go_bind (go_lift (sql_numbers D stats_sql [])) (\<lambda>res. go_return (case res of
       Inl err \<Rightarrow> Inl (ErrWrap ''failed to get stats: '' err)
     | Inr (ns, fl) \<Rightarrow> (case scan_stats ns of
           Inl err \<Rightarrow> Inl (ErrWrap ''failed to get stats: '' err)
         | Inr st \<Rightarrow> Inr st)))"

definition GetQueueStats :: "'w sql \<Rightarrow> string \<Rightarrow> ('w, go_error + QueueStats) go" where
  "GetQueueStats D queue = go_bind (go_lift (sql_numbers D queue_stats_sql [ArgText queue])) (\<lambda>res. go_return (case res of
       Inl err \<Rightarrow> Inl (ErrWrap ''failed to get queue stats: '' err)
     | Inr (ns, fl) \<Rightarrow> (case scan_stats ns of
           Inl err \<Rightarrow> Inl (ErrWrap ''failed to get queue stats: '' err)
         | Inr st \<Rightarrow> Inr (Stats.extend st \<lparr>qs_Queue = queue, AvgDuration = fl\<rparr>))))"

end
