(* ===== verification/Store_Laws.thy ===== *)
theory Store_Laws
  imports Store_Postgres Json_Canon
begin

text \<open>
  What the store relies on of PostgreSQL, as the locale \<open>task_table\<close> over a view \<open>tbl\<close> of the table by id:
  what each statement of \<open>Store_Postgres\<close> does when it succeeds. \<open>ts\<close> is what storing does to a time
  (microseconds), \<open>jsonb\<close> what it does to a JSON value. A table in memory satisfies the laws.
\<close>

section \<open>Values\<close>

text \<open>The canonical text of a UUID, which is how the column gives it back.\<close>

definition hex_char :: "char \<Rightarrow> bool" where
  "hex_char c \<longleftrightarrow> is_digit c \<or> c \<in> set ''abcdef''"

definition uuid_text :: "string \<Rightarrow> bool" where
  "uuid_text s \<longleftrightarrow> length s = 36 \<and>
     list_all (\<lambda>i. if i \<in> {8, 13, 18, 23} then s ! i = CHR ''-'' else hex_char (s ! i)) [0..<36]"

text \<open>Values that \<open>jsonb\<close> keeps but for the order of fields: no fraction or exponent and no repeated name.\<close>

fun jsonb_exact :: "json \<Rightarrow> bool" where
  "jsonb_exact (JNum (JFrac s)) = False"
| "jsonb_exact (JArr js) = list_all jsonb_exact js"
| "jsonb_exact (JObj kvs) = (distinct (map fst kvs) \<and> list_all (\<lambda>(k, j). jsonb_exact j) kvs)"
| "jsonb_exact _ = True"

section \<open>The laws\<close>

definition finished_before :: "time \<Rightarrow> task_row \<Rightarrow> bool" where
  "finished_before cutoff r \<longleftrightarrow> r_state r \<in> {''completed'', ''dead'', ''cancelled''} \<and>
     (case r_completed_at r of None \<Rightarrow> False | Some t \<Rightarrow> t < cutoff)"

text \<open>The number of rows with a property.\<close>

definition row_count :: "(string \<rightharpoonup> task_row) \<Rightarrow> (task_row \<Rightarrow> bool) \<Rightarrow> int" where
  "row_count T P = int (card {i. \<exists>r. T i = Some r \<and> P r})"

definition state_counts :: "(string \<rightharpoonup> task_row) \<Rightarrow> int list" where
  "state_counts T = row_count T (\<lambda>r. True) # map (\<lambda>st. row_count T (\<lambda>r. r_state r = st))
     [''pending'', ''active'', ''completed'', ''failed'', ''dead'', ''retry'', ''scheduled'']"

definition inserted_row ::
  "(time \<Rightarrow> time) \<Rightarrow> (json \<Rightarrow> json) \<Rightarrow> string \<Rightarrow> string \<Rightarrow> string \<Rightarrow> string \<Rightarrow> json \<Rightarrow> int \<Rightarrow> int \<Rightarrow>
   time \<Rightarrow> time option \<Rightarrow> string option \<Rightarrow> json \<Rightarrow> string option \<Rightarrow> task_row" where
  "inserted_row ts jsonb i ty q st p mr pr c at uk l cg =
     \<lparr>r_id = i, r_type = ty, r_queue = q, r_state = st, r_payload = jsonb p, r_error = None, r_retry_count = 0,
      r_max_retry = mr, r_priority = pr, r_created_at = ts c, r_scheduled_at = map_option ts at, r_started_at = None,
      r_completed_at = None, r_worker_id = None, r_consumer_group = cg, r_trace_id = None, r_unique_key = uk,
      r_labels = jsonb l\<rparr>"

definition updated_row ::
  "(time \<Rightarrow> time) \<Rightarrow> string \<Rightarrow> int \<Rightarrow> time option \<Rightarrow> time option \<Rightarrow> string option \<Rightarrow> string option \<Rightarrow>
   string option \<Rightarrow> task_row \<Rightarrow> task_row" where
  "updated_row ts st n started ended err wid cg r =
     r\<lparr>r_state := st, r_retry_count := n, r_started_at := map_option ts started, r_completed_at := map_option ts ended,
       r_error := err, r_worker_id := wid, r_consumer_group := (if cg = None then r_consumer_group r else cg)\<rparr>"

locale task_table =
  fixes D :: "'w sql" and tbl :: "'w \<Rightarrow> string \<rightharpoonup> task_row" and ts :: "time \<Rightarrow> time" and jsonb :: "json \<Rightarrow> json"
  assumes jsonb_same: "jsonb_exact j \<Longrightarrow> json_same j (jsonb j)"
    and jsonb_empty: "jsonb j = JObj [] \<longleftrightarrow> j = JObj []"
    and insert_ok: "uuid_text i \<Longrightarrow> sql_exec D insert_sql [ArgText i, ArgText ty, ArgText q, ArgText st, ArgJson (JsonText p),
        ArgInt mr, ArgInt pr, ArgTime c, arg_time at, arg_text uk, ArgJson (JsonText l), arg_text cg] w = (Inr n, w') \<Longrightarrow>
      (case tbl w i of
         Some r \<Rightarrow> n = 0 \<and> tbl w' = tbl w
       | None \<Rightarrow> n = 1 \<and> tbl w' = (tbl w)(i \<mapsto> inserted_row ts jsonb i ty q st p mr pr c at uk l cg))"
    and update_ok: "uuid_text i \<Longrightarrow> sql_exec D update_sql [ArgText i, ArgText st, ArgInt m, arg_time started, arg_time ended,
        arg_text err, arg_text wid, arg_text cg] w = (Inr n, w') \<Longrightarrow>
      (case tbl w i of
         None \<Rightarrow> n = 0 \<and> tbl w' = tbl w
       | Some r \<Rightarrow> n = 1 \<and> tbl w' = (tbl w)(i \<mapsto> updated_row ts st m started ended err wid cg r))"
    and update_state_ok: "uuid_text i \<Longrightarrow>
      sql_exec D update_state_sql [ArgText i, ArgText st, ArgText msg, arg_time ended] w = (Inr n, w') \<Longrightarrow>
      (case tbl w i of
         None \<Rightarrow> n = 0 \<and> tbl w' = tbl w
       | Some r \<Rightarrow> n = 1 \<and> tbl w' = (tbl w)(i \<mapsto> r\<lparr>r_state := st, r_error := (if msg = '''' then r_error r else Some msg),
           r_completed_at := (if ended = None then r_completed_at r else map_option ts ended)\<rparr>))"
    and select_ok: "uuid_text i \<Longrightarrow> sql_tasks D select_sql [ArgText i] w = (Inr rows, w') \<Longrightarrow>
      tbl w' = tbl w \<and> rows = (case tbl w i of None \<Rightarrow> [] | Some r \<Rightarrow> [Inr r])"
    and delete_ok: "uuid_text i \<Longrightarrow> sql_exec D delete_sql [ArgText i] w = (Inr n, w') \<Longrightarrow> tbl w' = (tbl w)(i := None)"
    and delete_old_ok: "sql_exec D delete_old_sql [ArgTime cutoff] w = (Inr n, w') \<Longrightarrow>
      tbl w' = (\<lambda>i. case tbl w i of None \<Rightarrow> None | Some r \<Rightarrow> if finished_before (ts cutoff) r then None else Some r) \<and>
      n = row_count (tbl w) (finished_before (ts cutoff))"
    and stats_ok: "sql_numbers D stats_sql [] w = (Inr (ns, fl), w') \<Longrightarrow>
      tbl w' = tbl w \<and> finite (dom (tbl w)) \<and> ns = state_counts (tbl w)"

section \<open>A table in memory\<close>

type_synonym mem_table = "(string \<times> task_row) list"

definition table_put :: "string \<Rightarrow> task_row \<Rightarrow> mem_table \<Rightarrow> mem_table" where
  "table_put i r T = map (\<lambda>(k, x). (k, if k = i then r else x)) T"

definition arg_text_of :: "sql_arg \<Rightarrow> string option" where
  "arg_text_of a = (case a of ArgText s \<Rightarrow> Some s | _ \<Rightarrow> None)"

definition arg_time_of :: "sql_arg \<Rightarrow> time option" where
  "arg_time_of a = (case a of ArgTime t \<Rightarrow> Some t | _ \<Rightarrow> None)"

lemma arg_of [simp]: "arg_text_of (arg_text v) = v" "arg_time_of (arg_time t) = t"
  by (simp_all add: arg_text_of_def arg_text_def arg_time_of_def arg_time_def split: option.split)

definition arg_int_of :: "sql_arg \<Rightarrow> int" where
  "arg_int_of a = (case a of ArgInt n \<Rightarrow> n | _ \<Rightarrow> 0)"

definition arg_json_of :: "sql_arg \<Rightarrow> json" where
  "arg_json_of a = (case a of ArgJson (JsonText j) \<Rightarrow> j | _ \<Rightarrow> JNull)"

lemma arg_of_simps [simp]: "arg_text_of (ArgText s) = Some s" "arg_time_of (ArgTime t) = Some t" "arg_int_of (ArgInt n) = n"
  "arg_json_of (ArgJson (JsonText j)) = j"
  by (simp_all add: arg_text_of_def arg_time_of_def arg_int_of_def arg_json_of_def)

definition mem_insert :: "sql_arg list \<Rightarrow> mem_table \<Rightarrow> (go_error + int) \<times> mem_table" where
  "mem_insert as T =
     (let i = the (arg_text_of (as ! 0)) in
      if map_of T i \<noteq> None then (Inr 0, T)
      else (Inr 1, (i, inserted_row id id i (the (arg_text_of (as ! 1))) (the (arg_text_of (as ! 2))) (the (arg_text_of (as ! 3)))
        (arg_json_of (as ! 4)) (arg_int_of (as ! 5)) (arg_int_of (as ! 6)) (the (arg_time_of (as ! 7))) (arg_time_of (as ! 8))
        (arg_text_of (as ! 9)) (arg_json_of (as ! 10)) (arg_text_of (as ! 11))) # T))"

definition mem_change :: "sql_arg list \<Rightarrow> (task_row \<Rightarrow> task_row) \<Rightarrow> mem_table \<Rightarrow> (go_error + int) \<times> mem_table" where
  "mem_change as f T =
     (let i = the (arg_text_of (as ! 0)) in
      case map_of T i of None \<Rightarrow> (Inr 0, T) | Some r \<Rightarrow> (Inr 1, table_put i (f r) T))"

definition mem_rows :: "mem_table \<Rightarrow> task_row list" where
  "mem_rows T = map (\<lambda>i. the (map_of T i)) (remdups (map fst T))"

definition mem_delete_if :: "(task_row \<Rightarrow> bool) \<Rightarrow> mem_table \<Rightarrow> mem_table" where
  "mem_delete_if P T = filter (\<lambda>(i, r). \<not> P (the (map_of T i))) T"

definition mem_count :: "mem_table \<Rightarrow> (task_row \<Rightarrow> bool) \<Rightarrow> int" where
  "mem_count T P = int (length (filter P (mem_rows T)))"

definition mem_exec :: "string \<Rightarrow> sql_arg list \<Rightarrow> mem_table \<Rightarrow> (go_error + int) \<times> mem_table" where
  "mem_exec q as T =
     (if q = insert_sql then mem_insert as T
      else if q = update_sql then
        mem_change as (updated_row id (the (arg_text_of (as ! 1))) (arg_int_of (as ! 2)) (arg_time_of (as ! 3)) (arg_time_of (as ! 4))
          (arg_text_of (as ! 5)) (arg_text_of (as ! 6)) (arg_text_of (as ! 7))) T
      else if q = update_state_sql then
        mem_change as (\<lambda>r. r\<lparr>r_state := the (arg_text_of (as ! 1)),
          r_error := (if arg_text_of (as ! 2) = Some '''' then r_error r else arg_text_of (as ! 2)),
          r_completed_at := (if arg_time_of (as ! 3) = None then r_completed_at r else arg_time_of (as ! 3))\<rparr>) T
      else if q = delete_sql then (Inr 1, filter (\<lambda>e. Some (fst e) \<noteq> arg_text_of (as ! 0)) T)
      else if q = delete_old_sql then
        (let P = finished_before (the (arg_time_of (as ! 0))) in (Inr (mem_count T P), mem_delete_if P T))
      else (Inl (ErrText ''pq: syntax error''), T))"

definition mem_sql :: "mem_table sql" where
  "mem_sql = \<lparr>sql_exec = mem_exec,
     sql_tasks = (\<lambda>q as T. (if q = select_sql
       then Inr (case map_of T (the (arg_text_of (as ! 0))) of None \<Rightarrow> [] | Some r \<Rightarrow> [Inr r])
       else Inl (ErrText ''pq: syntax error''), T)),
     sql_numbers = (\<lambda>q as T. (if q = stats_sql then Inr (mem_count T (\<lambda>r. True) # map (\<lambda>st. mem_count T (\<lambda>r. r_state r = st))
         [''pending'', ''active'', ''completed'', ''failed'', ''dead'', ''retry'', ''scheduled''], '''')
       else Inl (ErrText ''pq: syntax error''), T))\<rparr>"

lemma sql_texts: "insert_sql \<noteq> update_sql" "insert_sql \<noteq> update_state_sql" "insert_sql \<noteq> delete_sql" "insert_sql \<noteq> delete_old_sql"
  "update_sql \<noteq> update_state_sql" "update_sql \<noteq> delete_sql" "update_sql \<noteq> delete_old_sql"
  "update_state_sql \<noteq> delete_sql" "update_state_sql \<noteq> delete_old_sql" "delete_sql \<noteq> delete_old_sql"
  by (simp_all add: insert_sql_def update_sql_def update_state_sql_def delete_sql_def delete_old_sql_def quoted_def)

lemmas sql_texts_neq = sql_texts sql_texts [symmetric]

lemma map_of_table_put: "map_of (table_put i r T) k = (if k = i \<and> map_of T i \<noteq> None then Some r else map_of T k)"
  by (induction T) (auto simp: table_put_def)

lemma map_of_filter_fst: "map_of (filter (\<lambda>e. P (fst e)) T) k = (if P k then map_of T k else None)"
  by (induction T) auto

lemma mem_delete_if_map: "map_of (mem_delete_if P T) =
    (\<lambda>i. case map_of T i of None \<Rightarrow> None | Some r \<Rightarrow> if P r then None else Some r)"
proof
  fix i
  have f: "mem_delete_if P T = filter (\<lambda>e. \<not> P (the (map_of T (fst e)))) T"
    by (simp add: mem_delete_if_def case_prod_unfold)
  show "map_of (mem_delete_if P T) i = (case map_of T i of None \<Rightarrow> None | Some r \<Rightarrow> if P r then None else Some r)"
    unfolding f map_of_filter_fst [of "\<lambda>k. \<not> P (the (map_of T k))"] by (simp split: option.split)
qed

lemma mem_count: "mem_count T P = row_count (map_of T) P"
proof -
  let ?is = "filter (\<lambda>i. P (the (map_of T i))) (remdups (map fst T))"
  have "filter P (mem_rows T) = map (\<lambda>i. the (map_of T i)) ?is" by (simp add: mem_rows_def filter_map comp_def)
  then have "mem_count T P = int (length ?is)" by (simp add: mem_count_def)
  moreover have "set ?is = {i. \<exists>r. map_of T i = Some r \<and> P r}"
    using map_of_eq_None_iff [of T] by (auto simp: image_iff) (force dest: map_of_SomeD)+
  moreover have "distinct ?is" by simp
  ultimately show ?thesis unfolding row_count_def by (metis distinct_card)
qed

interpretation mem_table: task_table mem_sql map_of id id
proof (unfold_locales, goal_cases)
  case (1 j)
  then show ?case by simp
next
  case (2 j)
  then show ?case by simp
next
  case (3 i ty q st p mr pr c at uk l cg w n w')
  then show ?case
    by (auto simp: mem_sql_def mem_exec_def sql_texts_neq mem_insert_def Let_def split: if_splits option.splits)
next
  case (4 i st m started ended err wid cg w n w')
  then show ?case
    by (auto simp: mem_sql_def mem_exec_def sql_texts_neq mem_change_def map_of_table_put fun_eq_iff Let_def updated_row_def
        split: option.splits)
next
  case (5 i st msg ended w n w')
  then show ?case
    by (auto simp: mem_sql_def mem_exec_def sql_texts_neq mem_change_def map_of_table_put fun_eq_iff Let_def updated_row_def
        split: option.splits)
next
  case (6 i w rows w')
  then show ?case by (auto simp: mem_sql_def)
next
  case (7 i w n w')
  then show ?case
    using map_of_filter_fst [of "\<lambda>k. k \<noteq> i" w]
    by (auto simp: mem_sql_def mem_exec_def sql_texts_neq fun_eq_iff)
next
  case (8 cutoff w n w')
  then show ?case unfolding id_apply
    by (auto simp: mem_sql_def mem_exec_def sql_texts_neq Let_def mem_delete_if_map mem_count)
next
  case (9 w ns fl w')
  then show ?case by (auto simp: mem_sql_def state_counts_def mem_count finite_dom_map_of)
qed

end
