(* ===== verification/Store_Properties.thy ===== *)
theory Store_Properties
  imports Store_Laws
begin

text \<open>
  The properties of the store: what of a task survives being stored, what an update changes, what the
  deletion of old tasks removes, and the texts of the queries that are built from a filter.
\<close>

section \<open>Storing and reading back\<close>

text \<open>The row of a new task, with the times it is scheduled and created at.\<close>

definition created_row :: "(time \<Rightarrow> time) \<Rightarrow> (json \<Rightarrow> json) \<Rightarrow> TaskProto \<Rightarrow> json \<Rightarrow> time option \<Rightarrow> time \<Rightarrow> task_row" where
  "created_row ts jsonb t p at c = inserted_row ts jsonb (ID t) (Type t) (task_Queue t) (store_state t) p (store_max_retry t)
     (sint (Priority (options_or_zero t))) c at (non_empty (UniqueKey (options_or_zero t))) (store_labels t) (store_group t)"

text \<open>The times a task is stored with: its own, and some time of storing where it has none.\<close>

definition row_times :: "TaskProto \<Rightarrow> time option \<Rightarrow> time \<Rightarrow> bool" where
  "row_times t at c \<longleftrightarrow> (at = None \<longleftrightarrow> Options t = None) \<and>
     (\<forall>r x. Options t = Some r \<longrightarrow> ProcessAt r = Some x \<longrightarrow> at = Some x) \<and>
     (\<forall>m x. Metadata t = Some m \<longrightarrow> CreatedAt m = Some x \<longrightarrow> c = x)"

text \<open>The clock has nothing to do with the table.\<close>

definition quiet_clock :: "('w \<Rightarrow> 'v) \<Rightarrow> ('w \<Rightarrow> time \<times> 'w) \<Rightarrow> bool" where
  "quiet_clock tbl now \<longleftrightarrow> (\<forall>w. tbl (snd (now w)) = tbl w)"

lemma quiet_clockD: "quiet_clock tbl now \<Longrightarrow> now w = (at, w') \<Longrightarrow> tbl w' = tbl w"
  unfolding quiet_clock_def by (metis snd_conv)

lemma scheduled_at_run:
  assumes "scheduled_at now t w = (Ret at, w')" and "quiet_clock tbl now"
  shows "tbl w' = tbl w \<and> (at = None \<longleftrightarrow> Options t = None) \<and>
    (\<forall>r x. Options t = Some r \<longrightarrow> ProcessAt r = Some x \<longrightarrow> at = Some x)"
  using assms(1) quiet_clockD [OF assms(2)]
  by (auto simp: scheduled_at_def go_bind_Ret_iff go_lift_iff split: option.splits, metis)

lemma created_at_run:
  assumes "created_at now t w = (Ret c, w')" and "quiet_clock tbl now"
  shows "tbl w' = tbl w \<and> (\<forall>m x. Metadata t = Some m \<longrightarrow> CreatedAt m = Some x \<longrightarrow> c = x)"
  using assms(1) quiet_clockD [OF assms(2)]
  by (auto simp: created_at_def go_lift_iff split: option.splits)

context task_table
begin

lemma CreateTask_row:
  assumes "uuid_text (ID t)" and "payload_text (Payload t) = JsonText p" and "quiet_clock tbl now"
    and "CreateTask D now t w = (Ret None, w')"
  shows "\<exists>at c. row_times t at c \<and>
    tbl w' = (case tbl w (ID t) of Some r \<Rightarrow> tbl w | None \<Rightarrow> (tbl w)(ID t \<mapsto> created_row ts jsonb t p at c))"
proof -
  from assms(4) obtain at w1 c w2 r where 1: "scheduled_at now t w = (Ret at, w1)" and 2: "created_at now t w1 = (Ret c, w2)"
    and 3: "sql_exec D insert_sql (insert_args t at c) w2 = (r, w')"
    and 4: "(case r of Inl err \<Rightarrow> Some (ErrWrap ''failed to insert task: '' err) | Inr rows \<Rightarrow> None) = None"
    by (auto simp: CreateTask_def go_bind_Ret_iff go_lift_iff)
  from 4 obtain n where r: "r = Inr n" by (cases r) simp_all
  from scheduled_at_run [OF 1 assms(3)] created_at_run [OF 2 assms(3)] have same: "tbl w2 = tbl w"
    and times: "row_times t at c" unfolding row_times_def by (simp, blast)
  from insert_ok [OF assms(1) 3 [unfolded r insert_args_def assms(2)]] same
  have "tbl w' = (case tbl w (ID t) of Some r \<Rightarrow> tbl w | None \<Rightarrow> (tbl w)(ID t \<mapsto> created_row ts jsonb t p at c))"
    by (cases "tbl w (ID t)") (simp_all add: created_row_def)
  with times show ?thesis by blast
qed

lemma GetTask_row:
  assumes "uuid_text i" and "GetTask D i w = (Ret res, w')"
  shows "(\<exists>e. res = Inl e) \<or> (\<exists>r. tbl w i = Some r \<and> res = Inr (full_task r) \<and> tbl w' = tbl w)"
proof -
  from assms(2) obtain q where sel: "sql_tasks D select_sql [ArgText i] w = (q, w')"
    and res: "res = (case q of
       Inl err \<Rightarrow> Inl (if errors_is err SqlNoRows then ErrTaskNotFound else ErrWrap ''failed to get task: '' err)
     | Inr [] \<Rightarrow> Inl ErrTaskNotFound
     | Inr (Inl err # rs) \<Rightarrow> Inl (ErrWrap ''failed to get task: '' err)
     | Inr (Inr r # rs) \<Rightarrow> Inr (full_task r))"
    by (auto simp: GetTask_def go_bind_Ret_iff go_lift_iff)
  show ?thesis
  proof (cases q)
    case (Inl err)
    with res show ?thesis by simp
  next
    case (Inr rows)
    from select_ok [OF assms(1) sel [unfolded Inr]] Inr res show ?thesis by (cases "tbl w i") auto
  qed
qed

lemma row_labels_stored: "task_wf t \<Longrightarrow> row_labels (jsonb (store_labels t)) =
    (case Options t of None \<Rightarrow> None | Some r \<Rightarrow> if Labels r = Some [] then None else Labels r)"
proof -
  assume wf: "task_wf t"
  have read: "row_labels (jsonb (labels_json m)) = (if m = [] then None else Some m)" if "gomap_ok m" for m
  proof (cases "m = []")
    case True
    then show ?thesis using jsonb_empty [of "JObj []"] by (simp add: row_labels_def labels_json_def)
  next
    case False
    have keys: "map (fst \<circ> (\<lambda>(k, v). (k, JStr v))) m = map fst m" by auto
    have dist: "distinct (map (fst \<circ> (\<lambda>(k, v). (k, JStr v))) m)" unfolding keys by (rule gomap_ok_distinct [OF that])
    then have lab: "labels_keys_ok (labels_json m)" by (simp add: labels_keys_ok_def labels_json_def)
    from dist have "jsonb_exact (labels_json m)" by (auto simp: labels_json_def list_all_iff)
    then have canon: "canon (jsonb (labels_json m)) = canon (labels_json m)"
      using jsonb_same [of "labels_json m"] by (simp add: json_same_def)
    have "labels_keys_ok (jsonb (labels_json m))"
      using lab labels_keys_ok_canon [of "jsonb (labels_json m)"] canon by simp
    then have "dec_labels (jsonb (labels_json m)) None = dec_labels (labels_json m) None"
      using dec_labels_canon [of "jsonb (labels_json m)" None] dec_labels_canon [OF lab, of None] canon by simp
    also have "\<dots> = Some (Some m)"
      using dec_entries_print [OF that] by (simp add: labels_json_def)
    finally show ?thesis
      using False jsonb_empty [of "labels_json m"] by (simp add: row_labels_def labels_json_def)
  qed
  have "row_labels (jsonb (JObj [])) = None" using jsonb_empty [of "JObj []"] by (simp add: row_labels_def)
  with wf read show ?thesis
    by (auto simp: store_labels_def task_wf_def options_wf_def split: option.splits)
qed

end

text \<open>
  What is read back of a task: its type, payload, queue, state, limits, key, labels, group and times, with
  the defaults that storing filled in. The timeout, the time to live of the key, the trace and what a
  run of the task left (retry count, error, worker, start and end) are not stored with a new task.
\<close>

definition stored_task :: "(time \<Rightarrow> time) \<Rightarrow> (json \<Rightarrow> json) \<Rightarrow> TaskProto \<Rightarrow> json \<Rightarrow> time option \<Rightarrow> time \<Rightarrow> TaskProto" where
  "stored_task ts jsonb t p at c = \<lparr>ID = ID t, Type = Type t, Payload = RawJson (jsonb p),
     Options = Some (zero_options\<lparr>Queue := task_Queue t, MaxRetry := word_of_int (store_max_retry t),
       Priority := Priority (options_or_zero t), ProcessAt := map_option ts at, UniqueKey := UniqueKey (options_or_zero t),
       Labels := (case Options t of None \<Rightarrow> None | Some r \<Rightarrow> if Labels r = Some [] then None else Labels r)\<rparr>),
     Metadata = Some (zero_metadata\<lparr>State := store_state t, CreatedAt := Some (ts c),
       ConsumerGroup := ConsumerGroup (metadata_or_zero t)\<rparr>)\<rparr>"

lemma null_non_empty [simp]: "null_text (non_empty s) = s" "null_text None = ''''"
  by (simp_all add: null_text_def non_empty_def)

lemma null_store_group: "null_text (store_group t) = ConsumerGroup (metadata_or_zero t)"
  by (simp add: store_group_def metadata_or_zero_def zero_metadata_def split: option.split)

context task_table
begin

lemma full_created_row: "task_wf t \<Longrightarrow> full_task (created_row ts jsonb t p at c) = stored_task ts jsonb t p at c"
  using row_labels_stored [of t]
  by (simp add: full_task_def row_task_def created_row_def inserted_row_def stored_task_def Let_def options_or_zero_def
      metadata_or_zero_def null_store_group [unfolded metadata_or_zero_def] zero_metadata_def zero_options_def)

end

text \<open>
  C21. A task that was not in the table and is stored without an error is read back, when reading succeeds, as
  itself in the sense of \<open>stored_task\<close>: with the queue, state and retry limit defaulted where they were
  empty, at the process and creation times it has (or the time of storing), and with no retries used.
\<close>

theorem CreateTask_GetTask:
  assumes "task_table D tbl ts jsonb" and "uuid_text (ID t)" and "task_wf t" and "payload_text (Payload t) = JsonText p"
    and "quiet_clock tbl now" and "tbl w (ID t) = None"
    and "CreateTask D now t w = (Ret None, w1)" and "GetTask D (ID t) w1 = (Ret (Inr u), w2)"
  shows "\<exists>at c. u = stored_task ts jsonb t p at c \<and> row_times t at c"
proof -
  obtain at c where times: "row_times t at c"
    and tbl: "tbl w1 = (tbl w)(ID t \<mapsto> created_row ts jsonb t p at c)"
    using task_table.CreateTask_row [OF assms(1,2,4,5,7)] unfolding assms(6) option.case by blast
  from task_table.GetTask_row [OF assms(1,2,8)] tbl have "u = full_task (created_row ts jsonb t p at c)" by auto
  also have "\<dots> = stored_task ts jsonb t p at c" by (rule task_table.full_created_row [OF assms(1,3)])
  finally show ?thesis using times by blast
qed


definition demo_id :: string where "demo_id = ''00000000-0000-0000-0000-000000000001''"

definition demo_stored :: TaskProto where "demo_stored = demo_task\<lparr>ID := demo_id\<rparr>"

definition demo_now :: "mem_table \<Rightarrow> time \<times> mem_table" where "demo_now T = (7, T)"

lemma demo_stored_facts: "uuid_text (ID demo_stored)" "task_wf demo_stored" "quiet_clock map_of demo_now"
  "payload_text (Payload demo_stored) = JsonText (JObj [(''to'', JStr ''u'')])"
  using demo_task_wf
  by (simp_all add: demo_stored_def demo_id_def uuid_text_def upt_rec hex_char_def is_digit_def task_wf_def quiet_clock_def
      demo_now_def payload_text_def) (simp_all add: demo_task_def)

definition demo_table :: mem_table where
  "demo_table = snd (CreateTask mem_sql demo_now demo_stored [])"

lemma demo_CreateTask: "CreateTask mem_sql demo_now demo_stored [] = (Ret None, demo_table)"
  by (simp add: demo_table_def CreateTask_def scheduled_at_def created_at_def demo_stored_def demo_task_def zero_options_def
      zero_metadata_def go_bind_lift_case mem_sql_def mem_exec_def mem_insert_def insert_args_def)

lemma demo_table_has: "\<exists>r. map_of demo_table demo_id = Some r"
  using mem_table.CreateTask_row [OF demo_stored_facts(1,4,3) demo_CreateTask]
  by (auto simp: demo_stored_def fun_upd_def split: option.splits)

lemma demo_GetTask: "\<exists>u. GetTask mem_sql (ID demo_stored) demo_table = (Ret (Inr u), demo_table)"
  using demo_table_has by (auto simp: GetTask_def go_bind_lift_case mem_sql_def demo_stored_def)

theorem CreateTask_GetTask_witness:
  "\<exists>u at c. GetTask mem_sql (ID demo_stored) demo_table = (Ret (Inr u), demo_table) \<and>
     u = stored_task id id demo_stored (JObj [(''to'', JStr ''u'')]) at c"
proof -
  obtain u where get: "GetTask mem_sql (ID demo_stored) demo_table = (Ret (Inr u), demo_table)" using demo_GetTask by blast
  from CreateTask_GetTask [OF mem_table.task_table_axioms demo_stored_facts(1,2,4,3) _ demo_CreateTask get] get
  show ?thesis by auto
qed

section \<open>Updating\<close>

text \<open>
  C30. An update of a stored task that succeeds writes its state, retry count, start and end, error and worker,
  and its group when it has one, and leaves every other column and every other row alone. When the task
  is not in the table it is inserted as a new one, so what the update wanted to write besides the state
  is lost.
\<close>

theorem UpdateTask_upserts:
  assumes "task_table D tbl ts jsonb" and "uuid_text (ID t)" and "payload_text (Payload t) = JsonText p"
    and "quiet_clock tbl now" and "UpdateTask D now t w = (Ret None, w')"
  shows "let m = metadata_or_zero t in \<exists>r'. tbl w' = (tbl w)(ID t \<mapsto> r') \<and> r_state r' = store_state t \<and>
    (case tbl w (ID t) of
       Some r \<Rightarrow> r' = updated_row ts (store_state t) (sint (RetryCount m)) (StartedAt m) (CompletedAt m)
         (non_empty (LastError m)) (non_empty (WorkerID m)) (non_empty (ConsumerGroup m)) r
     | None \<Rightarrow> r_retry_count r' = 0 \<and> r_error r' = None \<and> (\<exists>at c. row_times t at c \<and> r' = created_row ts jsonb t p at c))"
proof -
  let ?m = "metadata_or_zero t"
  from assms(5) obtain r w1 where run: "sql_exec D update_sql
           [ArgText (ID t), ArgText (store_state t), ArgInt (sint (RetryCount ?m)), arg_time (StartedAt ?m),
            arg_time (CompletedAt ?m), arg_text (non_empty (LastError ?m)), arg_text (non_empty (WorkerID ?m)),
            arg_text (non_empty (ConsumerGroup ?m))] w = (r, w1)"
    and rest: "(case r of
             Inl err \<Rightarrow> go_return (Some (ErrWrap ''failed to update task: '' err))
           | Inr rows \<Rightarrow> if rows = 0 then CreateTask D now t else go_return None) w1 = (Ret None, w')"
    by (auto simp: UpdateTask_def Let_def go_bind_Ret_iff go_lift_iff)
  from rest obtain n where r: "r = Inr n" by (cases r) simp_all
  note eff = task_table.update_ok [OF assms(1,2) run [unfolded r]]
  show ?thesis
  proof (cases "tbl w (ID t)")
    case (Some x)
    with eff rest r show ?thesis by (simp add: Let_def updated_row_def)
  next
    case None
    with eff rest r have create: "CreateTask D now t w1 = (Ret None, w')" and same: "tbl w1 = tbl w" by simp_all
    obtain at c where "row_times t at c" and "tbl w' = (tbl w)(ID t \<mapsto> created_row ts jsonb t p at c)"
      using task_table.CreateTask_row [OF assms(1,2,3,4) create] None same by auto
    moreover have "r_state (created_row ts jsonb t p at c) = store_state t"
      "r_retry_count (created_row ts jsonb t p at c) = 0" "r_error (created_row ts jsonb t p at c) = None"
      by (simp_all add: created_row_def inserted_row_def)
    ultimately show ?thesis using None by (auto simp: Let_def)
  qed
qed

lemma demo_UpdateTask: "\<exists>w'. UpdateTask mem_sql demo_now demo_stored demo_table = (Ret None, w')"
  using demo_table_has
  by (auto simp: UpdateTask_def Let_def go_bind_lift_case mem_sql_def mem_exec_def sql_texts_neq mem_change_def demo_stored_def)

theorem UpdateTask_upserts_witness:
  "\<exists>w' r'. UpdateTask mem_sql demo_now demo_stored demo_table = (Ret None, w') \<and>
     map_of w' = (map_of demo_table)(demo_id \<mapsto> r') \<and> r_state r' = ''pending''"
proof -
  obtain w' where run: "UpdateTask mem_sql demo_now demo_stored demo_table = (Ret None, w')" using demo_UpdateTask by blast
  have st: "store_state demo_stored = ''pending''" "ID demo_stored = demo_id"
    by (simp_all add: store_state_def demo_stored_def demo_task_def TaskStatePending_def)
  from UpdateTask_upserts [OF mem_table.task_table_axioms demo_stored_facts(1,4,3) run] run show ?thesis
    by (auto simp: Let_def st)
qed

section \<open>Deleting old tasks\<close>


definition old_table :: mem_table where
  "old_table = [(''a'', inserted_row id id ''a'' ''t'' ''q'' ''pending'' JNull 3 0 1 None None JNull None),
     (''b'', (inserted_row id id ''b'' ''t'' ''q'' ''completed'' JNull 3 0 1 None None JNull None)\<lparr>r_completed_at := Some 2\<rparr>)]"



section \<open>Queries built from a filter\<close>

text \<open>The numbers of the placeholders in a text, in order.\<close>

fun placeholders :: "string \<Rightarrow> nat list" where
  "placeholders [] = []"
| "placeholders (c # cs) = (if c = CHR ''$'' then read_digits 0 cs # placeholders cs else placeholders cs)"

text \<open>A text that holds the given placeholders, whatever comes after it but for a digit.\<close>

definition holds :: "string \<Rightarrow> nat list \<Rightarrow> bool" where
  "holds s ns \<longleftrightarrow> (\<forall>u. u = [] \<or> \<not> is_digit (hd u) \<longrightarrow> placeholders (s @ u) = ns @ placeholders u)"

lemma placeholders_plain: "CHR ''$'' \<notin> set s \<Longrightarrow> placeholders (s @ u) = placeholders u"
  by (induction s) auto

lemma holds_plain: "CHR ''$'' \<notin> set s \<Longrightarrow> holds s []"
  by (simp add: holds_def placeholders_plain)

lemma holds_append:
  assumes "holds s ns" and "holds u ms" and "u \<noteq> []" and "\<not> is_digit (hd u)"
  shows "holds (s @ u) (ns @ ms)"
  using assms by (simp add: holds_def)

lemma digits_plain: "list_all is_digit s \<Longrightarrow> CHR ''$'' \<notin> set s"
  by (auto simp: list_all_iff is_digit_def)

lemma holds_placeholder: "holds (''$'' @ show_nat n) [n]"
proof -
  have d: "list_all is_digit (show_nat n)" using show_nat_digits by blast
  have "read_digits n u = n" if "u = [] \<or> \<not> is_digit (hd u)" for u using that by (cases u) auto
  then show ?thesis using d digits_plain [OF d]
    by (simp add: holds_def placeholders_plain read_digits_append)
qed

lemma holds_empty [simp]: "holds [] ns \<longleftrightarrow> ns = []"
  by (auto simp: holds_def dest: spec [of _ "[]"])

lemma go_join_head:
  "xs \<noteq> [] \<Longrightarrow> \<forall>x \<in> set xs. x \<noteq> [] \<and> \<not> is_digit (hd x) \<Longrightarrow> go_join sep xs \<noteq> [] \<and> \<not> is_digit (hd (go_join sep xs))"
  by (cases "(sep, xs)" rule: go_join.cases) auto

lemma go_join_holds:
  assumes "CHR ''$'' \<notin> set sep" and "sep \<noteq> []" and "\<not> is_digit (hd sep)"
  shows "list_all2 holds xs nss \<Longrightarrow> \<forall>x \<in> set xs. x \<noteq> [] \<and> \<not> is_digit (hd x) \<Longrightarrow> holds (go_join sep xs) (concat nss)"
proof (induction xs arbitrary: nss rule: induct_list012)
  case (3 x y xs)
  then obtain ns nss' where nss: "nss = ns # nss'" and x: "holds x ns" and rest: "list_all2 holds (y # xs) nss'"
    by (auto simp: list_all2_Cons1)
  have ih: "holds (go_join sep (y # xs)) (concat nss')" using 3 rest by simp
  have "go_join sep (y # xs) \<noteq> [] \<and> \<not> is_digit (hd (go_join sep (y # xs)))"
    using "3.prems"(2) by (intro go_join_head) auto
  with ih have "holds (sep @ go_join sep (y # xs)) ([] @ concat nss')"
    using assms(1) by (intro holds_append holds_plain) auto
  with x have "holds (x @ (sep @ go_join sep (y # xs))) (ns @ concat nss')"
    using assms(2,3) by (intro holds_append) auto
  then show ?case by (simp add: nss)
qed (auto simp: list_all2_Cons1)

text \<open>The conditions hold the placeholders from 1 up to the last argument, in order.\<close>

definition where_ok :: "where_parts \<Rightarrow> bool" where
  "where_ok p \<longleftrightarrow> argIdx p = Suc (length (args p)) \<and>
     (\<exists>nss. list_all2 holds (conditions p) nss \<and> concat nss = [1..<argIdx p]) \<and>
     (\<forall>c \<in> set (conditions p). c \<noteq> [] \<and> \<not> is_digit (hd c))"

lemma where_ok_no_where [simp]: "where_ok no_where"
  by (simp add: where_ok_def no_where_def)

lemma where_ok_add:
  assumes "where_ok p" and "holds c [argIdx p..<argIdx p + length as]" and "c \<noteq> [] \<and> \<not> is_digit (hd c)"
  shows "where_ok (p\<lparr>conditions := conditions p @ [c], args := args p @ as, argIdx := argIdx p + length as\<rparr>)"
proof -
  from assms(1) obtain nss where nss: "list_all2 holds (conditions p) nss" "concat nss = [1..<argIdx p]"
    and idx: "argIdx p = Suc (length (args p))" by (auto simp: where_ok_def)
  have "list_all2 holds (conditions p @ [c]) (nss @ [[argIdx p..<argIdx p + length as]])"
    using nss(1) assms(2) by (simp add: list_all2_appendI)
  moreover have "concat (nss @ [[argIdx p..<argIdx p + length as]]) = [1..<argIdx p + length as]"
    using nss(2) idx upt_add_eq_append [of 1 "argIdx p" "length as"] by (simp del: upt_Suc)
  ultimately have "\<exists>nss. list_all2 holds (conditions p @ [c]) nss \<and> concat nss = [1..<argIdx p + length as]" by blast
  then show ?thesis using assms(1,3) idx unfolding where_ok_def by simp
qed

lemma where_ok_condition:
  assumes "where_ok p" and "CHR ''$'' \<notin> set c" and "c \<noteq> [] \<and> \<not> is_digit (hd c)"
  shows "where_ok (add_condition c a p)"
proof -
  have "holds (c @ (''$'' @ show_nat (argIdx p))) ([] @ [argIdx p])"
    by (rule holds_append [OF holds_plain [OF assms(2)] holds_placeholder]) (simp_all add: is_digit_def)
  then show ?thesis
    using where_ok_add [OF assms(1), of "c @ ''$'' @ show_nat (argIdx p)" "[a]"] assms(3)
    by (simp add: add_condition_def)
qed

lemma where_ok_search: "where_ok p \<Longrightarrow> where_ok (add_search text p)"
proof -
  assume ok: "where_ok p"
  let ?n = "argIdx p"
  let ?s = "''(id::text ILIKE '' @ ((''$'' @ show_nat ?n) @ ('' OR type ILIKE '' @ ((''$'' @ show_nat (?n + 1)) @ '')'')))"
  have "holds ?s ([] @ ([?n] @ ([] @ ([?n + 1] @ []))))"
    by (intro holds_append holds_plain holds_placeholder) (simp_all add: is_digit_def)
  then show ?thesis
    using where_ok_add [OF ok, of ?s "[ArgText (''%'' @ text @ ''%''), ArgText (''%'' @ text @ ''%'')]"]
    by (simp add: add_search_def Let_def is_digit_def upt_rec numeral_2_eq_2)
qed

lemma where_ok_states: "where_ok p \<Longrightarrow> states \<noteq> [] \<Longrightarrow> where_ok (add_states states p)"
proof -
  assume ok: "where_ok p" and ne: "states \<noteq> []"
  let ?is = "[argIdx p..<argIdx p + length states]"
  let ?ps = "map (\<lambda>i. ''$'' @ show_nat i) ?is"
  have "list_all2 holds ?ps (map (\<lambda>i. [i]) ?is)"
    using holds_placeholder by (simp add: list_all2_conv_all_nth)
  moreover have nd: "\<forall>x \<in> set ?ps. x \<noteq> [] \<and> \<not> is_digit (hd x)" by (auto simp: is_digit_def)
  ultimately have j: "holds (go_join '', '' ?ps) (concat (map (\<lambda>i. [i]) ?is))"
    by (intro go_join_holds) (simp_all add: is_digit_def)
  have cc: "concat (map (\<lambda>i. [i]) ?is) = ?is" by (induction ?is) auto
  have "?ps \<noteq> []" using ne by simp
  then have "go_join '', '' ?ps \<noteq> [] \<and> \<not> is_digit (hd (go_join '', '' ?ps))"
    using nd by (rule go_join_head)
  then have "holds (''state IN ('' @ (go_join '', '' ?ps @ '')'')) ([] @ (?is @ []))"
    using j unfolding cc by (intro holds_append holds_plain) (simp_all add: is_digit_def)
  then show ?thesis
    using where_ok_add [OF ok, of "''state IN ('' @ go_join '', '' ?ps @ '')''" "map ArgText states"]
    by (simp add: add_states_def Let_def is_digit_def)
qed


lemma where_ok_list: "where_ok (list_where f)"
  unfolding list_where_def Let_def
  by (auto intro!: where_ok_condition where_ok_search where_ok_states simp: is_digit_def)

lemma where_clause_placeholders:
  assumes "where_ok p"
  shows "placeholders (where_clause p) = [1..<Suc (length (args p))]"
proof (cases "conditions p = []")
  case True
  with assms show ?thesis by (auto simp: where_ok_def where_clause_def)
next
  case False
  from assms obtain nss where nss: "list_all2 holds (conditions p) nss" "concat nss = [1..<argIdx p]"
    and idx: "argIdx p = Suc (length (args p))" and c: "\<forall>c \<in> set (conditions p). c \<noteq> [] \<and> \<not> is_digit (hd c)"
    by (auto simp: where_ok_def)
  have "holds (''WHERE '' @ go_join '' AND '' (conditions p)) ([] @ concat nss)"
    using nss(1) c go_join_head [OF False c] by (intro holds_append holds_plain go_join_holds) (simp_all add: is_digit_def)
  then have "placeholders ((''WHERE '' @ go_join '' AND '' (conditions p)) @ []) = concat nss @ placeholders []"
    unfolding holds_def by simp
  with False nss(2) idx show ?thesis by (simp add: where_clause_def)
qed

text \<open>What of a filter shows in the text of the query: which conditions there are, not their values.\<close>

definition filter_shape :: "TaskFilter \<Rightarrow> bool list \<times> nat \<times> string \<times> string \<times> int \<times> int" where
  "filter_shape f = ([f_Queue f \<noteq> '''', f_State f \<noteq> '''', f_Type f \<noteq> '''', f_Search f \<noteq> '''',
     f_CreatedAfter f \<noteq> zero_time, f_CreatedBefore f \<noteq> zero_time], length (f_States f),
     order_by f, order_dir f, list_limit f, f_Offset f)"

definition skeleton :: "where_parts \<Rightarrow> string list \<times> nat" where
  "skeleton p = (conditions p, argIdx p)"

lemma skeleton_steps:
  "skeleton p = skeleton p' \<Longrightarrow> skeleton (add_condition c a p) = skeleton (add_condition c a' p')"
  "skeleton p = skeleton p' \<Longrightarrow> skeleton (add_search s p) = skeleton (add_search s' p')"
  "skeleton p = skeleton p' \<Longrightarrow> length ss = length ss' \<Longrightarrow> skeleton (add_states ss p) = skeleton (add_states ss' p')"
  "skeleton p = skeleton p' \<Longrightarrow> skeleton q = skeleton q' \<Longrightarrow> b = b' \<Longrightarrow>
     skeleton (if b then p else q) = skeleton (if b' then p' else q')"
  by (simp_all add: skeleton_def add_condition_def add_search_def add_states_def Let_def)

lemma list_where_skeleton:
  assumes "filter_shape f = filter_shape g"
  shows "skeleton (list_where f) = skeleton (list_where g)"
proof -
  have shape: "(f_Queue f \<noteq> '''') = (f_Queue g \<noteq> '''')" "(f_State f \<noteq> '''') = (f_State g \<noteq> '''')"
    "(f_Type f \<noteq> '''') = (f_Type g \<noteq> '''')" "(f_Search f \<noteq> '''') = (f_Search g \<noteq> '''')"
    "(f_CreatedAfter f \<noteq> zero_time) = (f_CreatedAfter g \<noteq> zero_time)"
    "(f_CreatedBefore f \<noteq> zero_time) = (f_CreatedBefore g \<noteq> zero_time)"
    "length (f_States f) = length (f_States g)"
    using assms by (simp_all add: filter_shape_def)
  then have states: "(f_States f \<noteq> []) = (f_States g \<noteq> [])" by (metis length_0_conv)
  show ?thesis unfolding list_where_def Let_def
    by (intro skeleton_steps refl shape states)
qed

text \<open>
  C31. The query of \<open>ListTasks\<close> has exactly one argument for every placeholder, numbered in order, and the
  values of the filter never become part of its text: filters with the same conditions present, the same
  page and the same order give the same text, and the order is one of the known columns and directions.
\<close>

theorem list_query_safe:
  assumes "filter_shape f = filter_shape g"
  shows "list_sql f = list_sql g \<and> placeholders (where_clause (list_where f)) = [1..<Suc (length (args (list_where f)))] \<and>
    order_by f \<in> set sort_columns \<and> order_dir f \<in> {''ASC'', ''DESC''} \<and> 1 \<le> list_limit f \<and> list_limit f \<le> 1000"
proof -
  have "conditions (list_where f) = conditions (list_where g)"
    using list_where_skeleton [OF assms] by (simp add: skeleton_def)
  then have "list_sql f = list_sql g"
    using assms by (simp add: list_sql_def where_clause_def filter_shape_def)
  moreover have "order_by f \<in> set sort_columns" by (simp add: order_by_def sort_columns_def)
  ultimately show ?thesis
    using where_clause_placeholders [OF where_ok_list, of f] by (simp add: order_dir_def list_limit_def del: upt_Suc)
qed

definition search_for :: "string \<Rightarrow> TaskFilter" where
  "search_for s = \<lparr>f_Queue = ''q'', f_State = '''', f_States = [''dead'', ''retry''], f_Type = '''', f_Search = s, f_Labels = None,
     f_CreatedAfter = zero_time, f_CreatedBefore = 5, f_Limit = 5000, f_Offset = 0, f_SortBy = ''id; DROP'', f_SortOrder = ''asc''\<rparr>"

theorem list_query_safe_witness:
  "list_sql (search_for ''x'') = list_sql (search_for [CHR 0x27]) \<and> args (list_where (search_for ''x'')) =
     [ArgText ''q'', ArgText ''dead'', ArgText ''retry'', ArgText ''%x%'', ArgText ''%x%'', ArgTime 5]"
proof -
  have "filter_shape (search_for ''x'') = filter_shape (search_for [CHR 0x27])"
    by (simp add: filter_shape_def search_for_def order_by_def order_dir_def list_limit_def)
  from list_query_safe [OF this] show ?thesis
    by (simp add: list_where_def search_for_def no_where_def add_condition_def add_states_def add_search_def Let_def
        zero_time_def Second_def)
qed

section \<open>Statistics\<close>

lemma row_counts_sum:
  assumes "finite (dom T)" and "distinct sts"
  shows "(\<Sum>st \<leftarrow> sts. row_count T (\<lambda>r. r_state r = st)) \<le> row_count T (\<lambda>r. True)"
proof -
  let ?S = "\<lambda>P. {i. \<exists>r. T i = Some r \<and> P r}"
  have fin: "finite (?S P)" for P by (rule finite_subset [OF _ assms(1)]) auto
  have "(\<Sum>st \<leftarrow> sts. row_count T (\<lambda>r. r_state r = st)) = (\<Sum>st \<in> set sts. row_count T (\<lambda>r. r_state r = st))"
    using assms(2) by (simp add: sum_list_distinct_conv_sum_set)
  also have "\<dots> = int (\<Sum>st \<in> set sts. card (?S (\<lambda>r. r_state r = st)))" by (simp add: row_count_def)
  also have "(\<Sum>st \<in> set sts. card (?S (\<lambda>r. r_state r = st))) = card (\<Union>st \<in> set sts. ?S (\<lambda>r. r_state r = st))"
    by (rule card_UN_disjoint [symmetric]) (use fin in auto)
  also have "int \<dots> \<le> row_count T (\<lambda>r. True)"
    unfolding row_count_def by (intro of_nat_mono card_mono fin) auto
  finally show ?thesis .
qed

text \<open>
  The statistics of the store are the numbers of tasks in each state; together they are at most the total
  (the cancelled tasks have no number of their own), and reading them changes nothing.
\<close>

theorem GetStats_counts:
  assumes "task_table D tbl ts jsonb" and "GetStats D w = (Ret (Inr s), w')"
  shows "tbl w' = tbl w \<and> TotalTasks s = row_count (tbl w) (\<lambda>r. True) \<and>
    CompletedTasks s = row_count (tbl w) (\<lambda>r. r_state r = ''completed'') \<and>
    DeadTasks s = row_count (tbl w) (\<lambda>r. r_state r = ''dead'') \<and>
    PendingTasks s + ActiveTasks s + CompletedTasks s + FailedTasks s + DeadTasks s + RetryTasks s + ScheduledTasks s \<le> TotalTasks s"
proof -
  obtain res w1 where run: "sql_numbers D stats_sql [] w = (res, w1)" by (cases "sql_numbers D stats_sql [] w")
  with assms(2) have w': "w' = w1" by (simp add: GetStats_def go_bind_lift)
  show ?thesis
  proof (cases res)
    case (Inl e)
    with run assms(2) show ?thesis by (simp add: GetStats_def go_bind_lift)
  next
    case (Inr p)
    obtain ns fl where p: "p = (ns, fl)" by (cases p)
    from task_table.stats_ok [OF assms(1) run [unfolded Inr p]] have same: "tbl w1 = tbl w" and fin: "finite (dom (tbl w))"
      and ns: "ns = state_counts (tbl w)" by simp_all
    have "scan_stats ns = Inr s"
      using run Inr p assms(2) by (auto simp: GetStats_def go_bind_lift split: sum.splits)
    with row_counts_sum [OF fin, of "[''pending'', ''active'', ''completed'', ''failed'', ''dead'', ''retry'', ''scheduled'']"] same w'
    show ?thesis by (auto simp: ns state_counts_def)
  qed
qed

theorem GetStats_counts_witness:
  "\<exists>s. GetStats mem_sql old_table = (Ret (Inr s), old_table) \<and> TotalTasks s = row_count (map_of old_table) (\<lambda>r. True)"
proof -
  obtain s where run: "GetStats mem_sql old_table = (Ret (Inr s), old_table)"
    by (simp add: GetStats_def go_bind_lift_case mem_sql_def)
  with GetStats_counts [OF mem_table.task_table_axioms run] show ?thesis by blast
qed

end
