(* ===== verification/Store_Api.thy ===== *)
theory Store_Api
  imports Broker_Api Store_Postgres
begin

text \<open>
  The interface \<open>store.Store\<close> of \<^verbatim>\<open>store/store.go\<close>, which extends the one that client and server use by
  what the user interface needs, and its implementation on PostgreSQL. \<open>Ping\<close> and \<open>Close\<close> are calls of
  \<^verbatim>\<open>database/sql\<close>.
\<close>

record 'w task_store = "'w store_ops" +
  st_ListTasks :: "TaskFilter \<Rightarrow> ('w, go_error + TaskProto list \<times> int) go"
  st_CountTasks :: "TaskFilter \<Rightarrow> ('w, go_error + int) go"
  st_DeleteTask :: "string \<Rightarrow> ('w, go_error option) go"
  st_DeleteOldTasks :: "duration \<Rightarrow> ('w, go_error + int) go"
  st_GetStats :: "('w, go_error + Stats) go"
  st_GetQueueStats :: "string \<Rightarrow> ('w, go_error + QueueStats) go"

definition postgres_store :: "'w sql \<Rightarrow> ('w \<Rightarrow> time \<times> 'w) \<Rightarrow> 'w task_store" where
  "postgres_store D now = \<lparr>st_CreateTask = CreateTask D now, st_UpdateTask = UpdateTask D now,
     st_UpdateTaskState = UpdateTaskState D now, st_GetTask = GetTask D, st_ListTasks = ListTasks D,
     st_CountTasks = CountTasks D, st_DeleteTask = DeleteTask D, st_DeleteOldTasks = DeleteOldTasks D now,
     st_GetStats = GetStats D, st_GetQueueStats = GetQueueStats D\<rparr>"

section \<open>Opening the store\<close>

text \<open>
  \<open>New\<close> and \<open>NewWithDB\<close>. The driver opens a pool of connections and tries one; the pool's limits follow
  \<^verbatim>\<open>database/sql\<close>: no limit of open connections and of their life, two idle ones, and never more idle
  than open ones.
\<close>

record pg_config =
  DSN :: string
  MaxOpenConns :: int
  MaxIdleConns :: int
  ConnMaxLifetime :: duration

record pool =
  max_open :: int
  max_idle :: int
  max_lifetime :: duration

definition default_pool :: pool where
  "default_pool = \<lparr>max_open = 0, max_idle = 2, max_lifetime = 0\<rparr>"

definition SetMaxOpenConns :: "int \<Rightarrow> pool \<Rightarrow> pool" where
  "SetMaxOpenConns n p = p\<lparr>max_open := n, max_idle := (if n < max_idle p then n else max_idle p)\<rparr>"

definition SetMaxIdleConns :: "int \<Rightarrow> pool \<Rightarrow> pool" where
  "SetMaxIdleConns n p = p\<lparr>max_idle := (if 0 < max_open p \<and> max_open p < n then max_open p else n)\<rparr>"

record 'w driver =
  sql_open :: "string \<Rightarrow> 'w \<Rightarrow> (go_error + 'w sql) \<times> 'w"
  sql_ping :: "'w \<Rightarrow> go_error option \<times> 'w"

definition configured_pool :: "pg_config \<Rightarrow> pool" where
  "configured_pool cfg =
     (let p1 = (if MaxOpenConns cfg > 0 then SetMaxOpenConns (MaxOpenConns cfg) default_pool else default_pool);
          p2 = (if MaxIdleConns cfg > 0 then SetMaxIdleConns (MaxIdleConns cfg) p1 else p1)
      in if sint (ConnMaxLifetime cfg) > 0 then p2\<lparr>max_lifetime := ConnMaxLifetime cfg\<rparr> else p2)"

definition store_New :: "'w driver \<Rightarrow> pg_config \<Rightarrow> ('w, go_error + 'w sql \<times> pool) go" where
  "store_New drv cfg = go_bind (go_lift (sql_open drv (DSN cfg))) (\<lambda>res. case res of
       Inl err \<Rightarrow> go_return (Inl (ErrWrap ''failed to open database: '' err))
     | Inr db \<Rightarrow>
         let p = configured_pool cfg
         in go_bind (go_lift (sql_ping drv)) (\<lambda>err. go_return (case err of
              Some e \<Rightarrow> Inl (ErrWrap ''failed to ping database: '' e)
            | None \<Rightarrow> Inr (db, p))))"

text \<open>A store is only returned after the database has answered, and its limits are consistent.\<close>

lemma store_New_ok:
  assumes "store_New drv cfg w = (Ret (Inr (db, p)), w')"
  shows "\<exists>w1. sql_open drv (DSN cfg) w = (Inr db, w1) \<and> sql_ping drv w1 = (None, w') \<and> p = configured_pool cfg"
  using assms by (auto simp: store_New_def Let_def go_bind_lift_case go_bind_Ret_iff go_lift_iff go_return_def
      split: sum.splits option.splits prod.splits)

lemma pool_consistent: "0 \<le> max_idle (configured_pool cfg) \<and>
    (0 < max_open (configured_pool cfg) \<longrightarrow> max_idle (configured_pool cfg) \<le> max_open (configured_pool cfg))"
  by (auto simp: configured_pool_def SetMaxOpenConns_def SetMaxIdleConns_def default_pool_def Let_def)

end
