(* ===== verification/Deployment.thy ===== *)
theory Deployment
  imports Client_Properties Server_Recovery Scheduler_Properties Store_Properties Store_Api
begin

text \<open>
  The program as it is deployed: client and server on one Redis server and one PostgreSQL database. The
  outside world is then a pair of the two, and the commands of each service leave the other alone, which
  the locale \<open>deployment\<close> states. In a deployment the model's client keeps the contract \<open>task_client\<close> and
  the model's server \<open>steady_server\<close>, both with the Redis broker and the PostgreSQL store behind them.
\<close>

section \<open>Two services side by side\<close>

definition on_fst :: "('r \<Rightarrow> 'a \<times> 'r) \<Rightarrow> 'r \<times> 'd \<Rightarrow> 'a \<times> 'r \<times> 'd" where
  "on_fst f w = (case f (fst w) of (x, r) \<Rightarrow> (x, r, snd w))"

definition on_snd :: "('d \<Rightarrow> 'a \<times> 'd) \<Rightarrow> 'r \<times> 'd \<Rightarrow> 'a \<times> 'r \<times> 'd" where
  "on_snd f w = (case f (snd w) of (x, d) \<Rightarrow> (x, fst w, d))"

lemma on_fst_iff [simp]: "on_fst f w = (x, w') \<longleftrightarrow> f (fst w) = (x, fst w') \<and> snd w' = snd w"
  by (cases w') (auto simp: on_fst_def split: prod.split)

lemma on_snd_iff [simp]: "on_snd f w = (x, w') \<longleftrightarrow> f (snd w) = (x, snd w') \<and> fst w' = fst w"
  by (cases w') (auto simp: on_snd_def split: prod.split)

text \<open>A script that runs in Redis sees the database as it was when it started.\<close>

definition script_fst :: "'d \<Rightarrow> ('r \<times> 'd, int) go \<Rightarrow> ('r, int) go" where
  "script_fst d s r = (case s (r, d) of (x, w) \<Rightarrow> (x, fst w))"

definition env_fst :: "'r env \<Rightarrow> ('r \<times> 'd) env" where
  "env_fst E = \<lparr>clock = on_fst (clock E), ctx_err = (\<lambda>w. ctx_err E (fst w)), go_sleep = (\<lambda>d. on_fst (go_sleep E d)),
     pipe_exec = (\<lambda>cs. on_fst (pipe_exec E cs)), command_do = (\<lambda>c. on_fst (command_do E c)),
     set_nx = (\<lambda>k v ttl. on_fst (set_nx E k v ttl)), x_range = (\<lambda>k. on_fst (x_range E k)),
     x_len = (\<lambda>k. on_fst (x_len E k)), x_pending = (\<lambda>k g. on_fst (x_pending E k g)), z_card = (\<lambda>k. on_fst (z_card E k)),
     h_get_all = (\<lambda>k. on_fst (h_get_all E k)), s_members = (\<lambda>k. on_fst (s_members E k)), ping = on_fst (ping E),
     x_group_create = (\<lambda>k g start. on_fst (x_group_create E k g start)),
     x_read_group = (\<lambda>g c sts n block. on_fst (x_read_group E g c sts n block)),
     x_auto_claim = (\<lambda>k g c idle start n. on_fst (x_auto_claim E k g c idle start n)),
     x_info_groups = (\<lambda>k. on_fst (x_info_groups E k)), x_info_consumers = (\<lambda>k g. on_fst (x_info_consumers E k g)),
     x_group_del_consumer = (\<lambda>k g c. on_fst (x_group_del_consumer E k g c)),
     script_run = (\<lambda>s w. on_fst (script_run E (script_fst (snd w) s)) w),
     lua_call = (\<lambda>c. on_fst (lua_call E c)), lua_smembers = (\<lambda>k. on_fst (lua_smembers E k)),
     lua_zrangebyscore = (\<lambda>k hi limit. on_fst (lua_zrangebyscore E k hi limit)),
     cjson_decode = cjson_decode E, cjson_encode = cjson_encode E\<rparr>"

definition sql_snd :: "'d sql \<Rightarrow> ('r \<times> 'd) sql" where
  "sql_snd D = \<lparr>sql_exec = (\<lambda>q as. on_snd (sql_exec D q as)), sql_tasks = (\<lambda>q as. on_snd (sql_tasks D q as)),
     sql_numbers = (\<lambda>q as. on_snd (sql_numbers D q as))\<rparr>"

lemma env_fst_sel [simp]:
  "clock (env_fst E) = on_fst (clock E)" "go_sleep (env_fst E) d = on_fst (go_sleep E d)"
  "pipe_exec (env_fst E) cs = on_fst (pipe_exec E cs)" "command_do (env_fst E) cmd = on_fst (command_do E cmd)"
  "set_nx (env_fst E) k v ttl = on_fst (set_nx E k v ttl)" "x_range (env_fst E) k = on_fst (x_range E k)"
  "x_len (env_fst E) k = on_fst (x_len E k)" "x_pending (env_fst E) k g = on_fst (x_pending E k g)"
  "z_card (env_fst E) k = on_fst (z_card E k)" "h_get_all (env_fst E) k = on_fst (h_get_all E k)"
  "s_members (env_fst E) k = on_fst (s_members E k)"
  "x_group_create (env_fst E) k g start = on_fst (x_group_create E k g start)"
  "x_read_group (env_fst E) g c sts n block = on_fst (x_read_group E g c sts n block)"
  "x_auto_claim (env_fst E) k g c idle start n = on_fst (x_auto_claim E k g c idle start n)"
  "x_info_groups (env_fst E) k = on_fst (x_info_groups E k)"
  "x_info_consumers (env_fst E) k g = on_fst (x_info_consumers E k g)"
  "x_group_del_consumer (env_fst E) k g c = on_fst (x_group_del_consumer E k g c)"
  "script_run (env_fst E) s w = on_fst (script_run E (script_fst (snd w) s)) w"
  "lua_call (env_fst E) cmd = on_fst (lua_call E cmd)" "lua_smembers (env_fst E) k = on_fst (lua_smembers E k)"
  "lua_zrangebyscore (env_fst E) k hi limit = on_fst (lua_zrangebyscore E k hi limit)"
  "cjson_decode (env_fst E) = cjson_decode E" "cjson_encode (env_fst E) = cjson_encode E"
  by (simp_all add: env_fst_def)

lemma sql_snd_sel [simp]:
  "sql_exec (sql_snd D) q as = on_snd (sql_exec D q as)" "sql_tasks (sql_snd D) q as = on_snd (sql_tasks D q as)"
  "sql_numbers (sql_snd D) q as = on_snd (sql_numbers D q as)"
  by (simp_all add: sql_snd_def)

lemma script_fst_iff: "script_fst d s r = (x, r') \<longleftrightarrow> (\<exists>d'. s (r, d) = (x, r', d'))"
  by (auto simp: script_fst_def split: prod.split)

text \<open>The laws of a service hold of it in the pair.\<close>

lemma redis_server_fst:
  assumes "redis_server E db clk"
  shows "redis_server (env_fst E) (\<lambda>w. db (fst w)) (\<lambda>w. clk (fst w))"
proof -
  note laws = redis_server.clock_ok redis_server.sleep_ok redis_server.pipe_ok redis_server.pipe_fail redis_server.do_ok
    redis_server.do_fail redis_server.set_nx_ok redis_server.set_nx_fail redis_server.x_len_ok redis_server.x_pending_ok
    redis_server.z_card_ok redis_server.h_get_all_ok redis_server.s_members_ok redis_server.x_range_ok
    redis_server.lua_call_ok redis_server.lua_call_fail redis_server.lua_smembers_ok redis_server.lua_smembers_fail
    redis_server.lua_zrange_ok redis_server.lua_zrange_fail
  show ?thesis
  proof (unfold_locales, goal_cases)
    case (15 s w n w')
    then have "script_run E (script_fst (snd w) s) (fst w) = (Inr n, fst w')" by simp
    from redis_server.script_ok [OF assms this] obtain r1 r2 d2 where "db r1 = db (fst w)" "clk (fst w) \<le> clk r1"
      "s (r1, snd w) = (Ret n, r2, d2)" "db (fst w') = db r2" by (auto simp: script_fst_iff)
    then show ?case by (intro exI [of _ "(r1, snd w)"] exI [of _ "(r2, d2)"]) simp
  next
    case (16 s w e w')
    then have "script_run E (script_fst (snd w) s) (fst w) = (Inl e, fst w')" by simp
    from redis_server.script_fail [OF assms this] show ?case by (force simp: script_fst_iff)
  qed (unfold env_fst_sel on_fst_iff, (elim conjE, erule laws [OF assms])+)
qed

lemma redis_consumer_fst:
  assumes "redis_consumer E db clk"
  shows "redis_consumer (env_fst E) (\<lambda>w. db (fst w)) (\<lambda>w. clk (fst w))"
proof -
  note laws = redis_consumer.read_new_ok redis_consumer.read_new_fail redis_consumer.read_pending_ok
    redis_consumer.read_pending_fail redis_consumer.claim_ok redis_consumer.claim_fail redis_consumer.group_create_ok
    redis_consumer.info_groups_ok redis_consumer.info_consumers_ok redis_consumer.del_consumer_ok
  show ?thesis
    by (intro redis_consumer.intro redis_server_fst redis_consumer.axioms(1) [OF assms], unfold_locales,
        unfold env_fst_sel on_fst_iff, (elim conjE, erule laws [OF assms])+)
qed

lemma steady_redis_fst:
  assumes "steady_redis E db clk I"
  shows "steady_redis (env_fst E) (\<lambda>w. db (fst w)) (\<lambda>w. clk (fst w)) (\<lambda>w. I (fst w))"
proof -
  note laws = steady_redis.pipe_steady steady_redis.clock_steady steady_redis.set_nx_steady
  show ?thesis
    by (intro steady_redis.intro redis_server_fst steady_redis.axioms(1) [OF assms], unfold_locales,
        unfold env_fst_sel on_fst_iff, (elim conjE, erule (1) laws [OF assms])+)
qed

lemma steady_consumer_fst:
  assumes "steady_consumer E db clk I"
  shows "steady_consumer (env_fst E) (\<lambda>w. db (fst w)) (\<lambda>w. clk (fst w)) (\<lambda>w. I (fst w))"
proof -
  note laws = steady_consumer.command_steady steady_consumer.read_steady steady_consumer.range_steady
  show ?thesis
  proof (intro steady_consumer.intro redis_consumer_fst steady_redis_fst steady_consumer.axioms [OF assms], unfold_locales, goal_cases)
    case (4 w k)
    then show ?case by (rule steady_consumer.ids_unique [OF assms])
  qed (unfold env_fst_sel on_fst_iff, (elim conjE, erule (1) laws [OF assms])+)
qed

lemma cjson_codec_fst: "cjson_codec E \<Longrightarrow> cjson_codec (env_fst E)"
  by (simp add: cjson_codec_def)

lemma task_table_snd:
  assumes "task_table D tbl ts jsonb"
  shows "task_table (sql_snd D) (\<lambda>w. tbl (snd w)) ts jsonb"
proof -
  note laws = task_table.insert_ok task_table.update_ok task_table.update_state_ok task_table.select_ok
    task_table.delete_ok task_table.delete_old_ok task_table.stats_ok
  show ?thesis
  proof (unfold_locales, goal_cases)
    case 1
    then show ?case by (rule task_table.jsonb_same [OF assms])
  next
    case 2
    show ?case by (rule task_table.jsonb_empty [OF assms])
  qed (unfold sql_snd_sel on_snd_iff, (elim conjE, (erule (1) laws [OF assms] | erule laws [OF assms]))+)
qed

section \<open>A deployment\<close>

text \<open>The methods that client and server use of the PostgreSQL store.\<close>

definition history :: "'w sql \<Rightarrow> ('w \<Rightarrow> time \<times> 'w) \<Rightarrow> 'w store_ops" where
  "history D now = store_ops.truncate (postgres_store D now)"

lemma history_sel [simp]: "st_CreateTask (history D now) = CreateTask D now" "st_UpdateTask (history D now) = UpdateTask D now"
  "st_UpdateTaskState (history D now) = UpdateTaskState D now" "st_GetTask (history D now) = GetTask D"
  by (simp_all add: history_def postgres_store_def store_ops.truncate_def)

locale deployment = steady_consumer E db clk I + cjson_codec E + task_table D tbl ts jsonb
  for E :: "'w env" and db :: "'w \<Rightarrow> redis_db" and clk :: "'w \<Rightarrow> time" and I :: "'w \<Rightarrow> bool"
    and D :: "'w sql" and tbl :: "'w \<Rightarrow> string \<rightharpoonup> task_row" and ts :: "time \<Rightarrow> time" and jsonb :: "json \<Rightarrow> json" +
  assumes sql_apart: "sql_exec D sq as w = (rn, w') \<Longrightarrow> db w' = db w" "sql_tasks D sq as w = (rt, w') \<Longrightarrow> db w' = db w"
      "sql_numbers D sq as w = (rs, w') \<Longrightarrow> db w' = db w"
    and sql_steady: "I w \<Longrightarrow> sql_exec D sq as w = (rn, w') \<Longrightarrow> I w'"
    and redis_apart: "pipe_exec E cs w = (re, w') \<Longrightarrow> tbl w' = tbl w" "set_nx E k v ttl w = (rb, w') \<Longrightarrow> tbl w' = tbl w"
      "clock E w = (at, w') \<Longrightarrow> tbl w' = tbl w" "s_members E k w = (rss, w') \<Longrightarrow> tbl w' = tbl w"
      "x_info_groups E k w = (rgs, w') \<Longrightarrow> tbl w' = tbl w" "x_info_consumers E k g w = (rcs, w') \<Longrightarrow> tbl w' = tbl w"
      "x_len E k w = (rn, w') \<Longrightarrow> tbl w' = tbl w" "x_pending E k g w = (rn, w') \<Longrightarrow> tbl w' = tbl w"
      "z_card E k w = (rn, w') \<Longrightarrow> tbl w' = tbl w" "h_get_all E k w = (rhs, w') \<Longrightarrow> tbl w' = tbl w"
      "x_range E k w = (res, w') \<Longrightarrow> tbl w' = tbl w"
    and queries_read: "sql_tasks D select_sql as w = (rt, w') \<Longrightarrow> tbl w' = tbl w"
      "sql_tasks D (list_sql filt) as w = (rt, w') \<Longrightarrow> tbl w' = tbl w"
      "sql_numbers D (count_sql parts) as w = (rs, w') \<Longrightarrow> tbl w' = tbl w"
      "sql_numbers D stats_sql as w = (rs, w') \<Longrightarrow> tbl w' = tbl w"

text \<open>A server of the deployment, and handlers that behave.\<close>

locale deployed_server = deployment E db clk I D tbl ts jsonb
  for E :: "'w env" and db :: "'w \<Rightarrow> redis_db" and clk :: "'w \<Rightarrow> time" and I :: "'w \<Rightarrow> bool"
    and D :: "'w sql" and tbl :: "'w \<Rightarrow> string \<rightharpoonup> task_row" and ts :: "time \<Rightarrow> time" and jsonb :: "json \<Rightarrow> json" +
  fixes S :: "'w Server" and cfg :: ConsumerConfig
  assumes server_broker: "srv_broker S = redis_broker E cfg"
    and server_store: "srv_store S = None \<or> srv_store S = Some (history D (clock E))"
    and handlers_behave: "mux_Handler (srv_mux S) ty = Some h \<Longrightarrow> h d t w = ((res, t'), w') \<Longrightarrow>
      (I w \<longrightarrow> I w') \<and> t' = t \<and> view cfg (db w') = view cfg (db w)"

section \<open>The store leaves the queues alone\<close>

text \<open>A program that returns, in a world related to the one it started in.\<close>

definition keeps :: "('w \<Rightarrow> 'w \<Rightarrow> bool) \<Rightarrow> ('w, 'a) go \<Rightarrow> bool" where
  "keeps R m \<longleftrightarrow> (\<forall>w r w'. m w = (r, w') \<longrightarrow> R w w' \<and> (\<exists>x. r = Ret x))"

lemma keeps_return: "(\<And>w. R w w) \<Longrightarrow> keeps R (go_return x)"
  by (simp add: keeps_def)

lemma keeps_lift: "(\<And>w x w'. f w = (x, w') \<Longrightarrow> R w w') \<Longrightarrow> keeps R (go_lift f)"
  by (auto simp: keeps_def go_lift_iff)

lemma keeps_bind:
  assumes "\<And>a b c. R a b \<Longrightarrow> R b c \<Longrightarrow> R a c" and "keeps R m" and "\<And>x. keeps R (f x)"
  shows "keeps R (go_bind m f)"
  unfolding keeps_def
proof (intro allI impI)
  fix w r w' assume run: "go_bind m f w = (r, w')"
  obtain x w1 where 1: "m w = (Ret x, w1)" and "R w w1" using assms(2) unfolding keeps_def by (metis prod.exhaust)
  moreover from run 1 assms(3) have "R w1 w' \<and> (\<exists>x. r = Ret x)" by (simp add: go_bind_Ret keeps_def)
  ultimately show "R w w' \<and> (\<exists>x. r = Ret x)" using assms(1) by blast
qed

text \<open>The queues are as they were, and the services answer if they did.\<close>

definition aside :: "('w \<Rightarrow> redis_db) \<Rightarrow> ('w \<Rightarrow> bool) \<Rightarrow> 'w \<Rightarrow> 'w \<Rightarrow> bool" where
  "aside db I w w' \<longleftrightarrow> db w' = db w \<and> (I w \<longrightarrow> I w')"

context deployment
begin

lemma aside_return: "keeps (aside db I) (go_return x)"
  by (rule keeps_return) (simp add: aside_def)

lemma aside_bind: "keeps (aside db I) m \<Longrightarrow> (\<And>x. keeps (aside db I) (f x)) \<Longrightarrow> keeps (aside db I) (go_bind m f)"
  by (rule keeps_bind) (auto simp: aside_def)

lemma aside_sql: "keeps (aside db I) (go_lift (sql_exec D sq as))"
  by (rule keeps_lift) (use sql_apart(1) sql_steady in \<open>auto simp: aside_def\<close>)

lemma aside_clock: "keeps (aside db I) (go_lift (clock E))"
  by (rule keeps_lift) (use clock_ok clock_steady in \<open>auto simp: aside_def\<close>)

lemma aside_CreateTask: "keeps (aside db I) (CreateTask D (clock E) t)"
  unfolding CreateTask_def scheduled_at_def created_at_def
  by (intro aside_bind aside_return aside_clock aside_sql) (auto split: option.split intro: aside_bind aside_return aside_clock)+

lemma aside_UpdateTask: "keeps (aside db I) (UpdateTask D (clock E) t)"
  unfolding UpdateTask_def Let_def
  by (intro aside_bind aside_sql) (auto split: sum.split intro: aside_return aside_CreateTask)

end

text \<open>The contracts of client and server, kept by the model's client and server with both services behind them.\<close>

definition deployed_client :: "'w env \<Rightarrow> ConsumerConfig \<Rightarrow> 'w sql \<Rightarrow> 'w Client" where
  "deployed_client E cfg D = NewClient (redis_broker E cfg) [WithStore (Some (history D (clock E)))]"

lemma deployed_client_sel [simp]:
  "cl_broker (deployed_client E cfg D) = redis_broker E cfg" "cl_store (deployed_client E cfg D) = Some (history D (clock E))"
  by (simp_all add: deployed_client_def NewClient_def WithStore_def)

sublocale deployment \<subseteq> client: task_client "deployed_client E cfg D" "\<lambda>w. view cfg (db w)" "\<lambda>w. fst (clock E w)" "clock E"
  for cfg
proof (intro task_client.intro task_client_axioms.intro, goal_cases)
  case 1
  show ?case unfolding deployed_client_sel by (rule broker.task_broker_axioms)
next
  case (2 w at w')
  then show ?case using clock_ok by simp
next
  case (3 st t w sr w')
  then show ?case using aside_CreateTask [of t] by (auto simp: keeps_def aside_def)
qed

sublocale deployed_server \<subseteq> server: steady_server S "\<lambda>w. view cfg (db w)" "\<lambda>w. fst (clock E w)" "clock E" I
proof (intro steady_server.intro task_server.intro task_server_axioms.intro steady_server_axioms.intro, goal_cases)
  case 1
  show ?case unfolding server_broker by (rule broker.task_broker_axioms)
next
  case (2 w at w')
  then show ?case using clock_ok by simp
next
  case (3 st t w sr w')
  with server_store have "UpdateTask D (clock E) t w = (sr, w')" by auto
  then show ?case using aside_UpdateTask [of t] unfolding keeps_def aside_def by auto
next
  case 4
  show ?case unfolding server_broker by (rule steady.steady_broker_axioms)
next
  case (5 w at w')
  then show ?case using clock_steady by simp
next
  case (6 w st t sr w')
  with server_store have "UpdateTask D (clock E) t w = (sr, w')" by auto
  then show ?case using aside_UpdateTask [of t] 6(1) unfolding keeps_def aside_def by auto
next
  case (7 w ty h d t res t' w')
  then show ?case using handlers_behave by simp
qed

section \<open>Everything in memory\<close>

text \<open>The Redis server and the table in memory, side by side, with a client and a server on them.\<close>

type_synonym mem_world = "mem \<times> mem_table"

definition pair_env :: "mem_world env" where "pair_env = env_fst mem_env"
definition pair_sql :: "mem_world sql" where "pair_sql = sql_snd mem_sql"

definition pair_client :: "mem_world Client" where
  "pair_client = deployed_client pair_env DefaultConsumerConfig pair_sql"

definition failing_handler :: "mem_world Handler" where
  "failing_handler d t w = ((Ret (Some (ErrText ''boom'')), t), w)"

definition pair_server :: "mem_world Server" where
  "pair_server = (NewServer ''host'' ''1'' (redis_broker pair_env DefaultConsumerConfig)
       [WithServerStore (Some (history pair_sql (clock pair_env)))])
     \<lparr>srv_mux := \<lparr>handlers = [(''email:send'', failing_handler)]\<rparr>\<rparr>"

lemma pair_server_sel [simp]:
  "srv_broker pair_server = redis_broker pair_env DefaultConsumerConfig"
  "srv_store pair_server = Some (history pair_sql (clock pair_env))"
  "mux_Handler (srv_mux pair_server) ty = (if ty = ''email:send'' then Some failing_handler else None)"
  by (simp_all add: pair_server_def NewServer_def WithServerStore_def mux_Handler_def)

interpretation pair: deployment pair_env "\<lambda>w. mem_db (fst w)" "\<lambda>w. m_now (fst w)" "\<lambda>w. steady_mem (fst w)"
  pair_sql "\<lambda>w. map_of (snd w)" id id
proof (intro deployment.intro deployment_axioms.intro, unfold pair_env_def pair_sql_def, goal_cases)
  case 1
  show ?case by (rule steady_consumer_fst [OF mem_steady_consumer.steady_consumer_axioms])
next
  case 2
  show ?case by (rule cjson_codec_fst [OF mem.cjson_codec_axioms])
next
  case 3
  show ?case by (rule task_table_snd [OF mem_table.task_table_axioms])
qed (simp_all add: mem_sql_def)

interpretation pair_server: deployed_server pair_env "\<lambda>w. mem_db (fst w)" "\<lambda>w. m_now (fst w)" "\<lambda>w. steady_mem (fst w)"
  pair_sql "\<lambda>w. map_of (snd w)" id id pair_server DefaultConsumerConfig
proof (intro deployed_server.intro deployed_server_axioms.intro, goal_cases)
  case 1
  show ?case by (rule pair.deployment_axioms)
next
  case (4 ty h d t w res t' w')
  then show ?case by (auto simp: failing_handler_def split: if_splits)
qed simp_all

section \<open>From the client to the history\<close>

context deployment
begin

lemma unique_apart: "check_unique (deployed_client E cfg D) t w = (Ret r, w') \<Longrightarrow> tbl w' = tbl w"
  by (auto simp: check_unique_def SetUnique_def Let_def run_iff dest: redis_apart(2) split: option.splits if_splits)

lemma scheduled_apart: "scheduled_for (clock E) t w = (Ret r, w') \<Longrightarrow> tbl w' = tbl w"
  by (auto simp: scheduled_for_def run_iff dest: redis_apart(3) split: option.splits)

lemma hand_over_apart: "hand_over (deployed_client E cfg D) t sched w = (Ret r, w') \<Longrightarrow> tbl w' = tbl w"
  by (auto simp: hand_over_def Publish_def Schedule_def set_metadata_def Let_def run_iff dest: redis_apart(1)
      split: option.splits sum.splits)

lemma Enqueue_saves:
  assumes "task_wf t" and "Enqueue (clock E) (deployed_client E cfg D) (Some t) w = (Ret (Inr info, t'), w')"
  shows "\<exists>u m w1 err. t' = Some u \<and> Metadata t = Some m \<and> u = t\<lparr>Metadata := Some (m\<lparr>State := ti_State info\<rparr>)\<rparr> \<and>
    ti_State info \<noteq> '''' \<and> tbl w1 = tbl w \<and> CreateTask D (clock E) u w1 = (Ret err, w')"
proof -
  let ?C = "deployed_client E cfg D"
  obtain sched u w1 w2 w3 where 1: "check_unique ?C t w = (Ret None, w1)"
    and 2: "scheduled_for (clock E) t w1 = (Ret sched, w2)" and 3: "hand_over ?C t sched w2 = (Ret (None, u), w3)"
    and 4: "save_task ?C u w3 = (Ret (), w')" and t': "t' = Some u"
    and info: "info = \<lparr>ti_ID = ID u, ti_Queue = task_Queue u, ti_State = task_State u, ti_ProcessAt = sched\<rparr>"
    by (rule Enqueue_steps [OF assms(2)])
  from client.hand_over_moves [OF assms(1) 3] obtain m where m: "Metadata t = Some m"
    and u: "u = t\<lparr>Metadata := Some (m\<lparr>State := (if sched = None then TaskStatePending else TaskStateScheduled)\<rparr>)\<rparr>" by blast
  from 4 obtain err where "CreateTask D (clock E) u w3 = (Ret err, w')"
    by (auto simp: save_task_def go_bind_Ret_iff)
  moreover have "tbl w3 = tbl w" using unique_apart [OF 1] scheduled_apart [OF 2] hand_over_apart [OF 3] by simp
  moreover have "ti_State info = (if sched = None then TaskStatePending else TaskStateScheduled)"
    by (simp add: info u task_State_def)
  ultimately show ?thesis using t' m u
    by (auto simp: TaskStatePending_def TaskStateScheduled_def)
qed

end


text \<open>The demo task with a proper identifier, handed in and looked up.\<close>

definition pair_empty :: mem_world where "pair_empty = (empty_mem, [])"

definition saved_task :: TaskProto where
  "saved_task = demo_stored\<lparr>Metadata := Some ((metadata_or_zero demo_stored)\<lparr>State := TaskStateScheduled\<rparr>)\<rparr>"

lemma saved_task_sel [simp]: "ID saved_task = demo_id" "task_Queue saved_task = ''critical''"
  "task_State saved_task = TaskStateScheduled" "Payload saved_task = Payload demo_stored"
  by (simp_all add: saved_task_def demo_stored_def task_Queue_def task_State_def demo_task_def zero_options_def)

lemma pair_checks:
  "check_unique pair_client demo_stored pair_empty = (Ret None, pair_empty)"
  "scheduled_for (clock pair_env) demo_stored pair_empty = (Ret (Some 1700000000000000000), pair_empty)"
  by (simp_all add: check_unique_def scheduled_for_def demo_stored_def demo_task_def zero_options_def go_bind_lift
      pair_env_def pair_empty_def empty_mem_def on_fst_def)

lemma saved_task_marshals: "marshal_task saved_task = Inr (json_task saved_task)"
  by (simp add: marshal_task_def payload_valid_def times_printable_def time_printable_def demo_task_def saved_task_def
      demo_stored_def zero_options_def zero_metadata_def unix_def Second_def metadata_or_zero_def)

lemma pair_hand_over: "\<exists>m. hand_over pair_client demo_stored (Some at) pair_empty = (Ret (None, saved_task), m, [])"
proof -
  obtain md where "Metadata demo_stored = Some md" by (simp add: demo_stored_def demo_task_def)
  moreover from this have "demo_stored\<lparr>Metadata := Some (md\<lparr>State := TaskStateScheduled\<rparr>)\<rparr> = saved_task"
    by (simp add: saved_task_def metadata_or_zero_def)
  moreover have "\<exists>m. Schedule pair_env saved_task at pair_empty = (Ret None, m, [])"
    by (simp add: Schedule_def saved_task_marshals go_bind_lift_case go_lift_def mem_pipe_def empty_mem_def Let_def
        pair_env_def pair_empty_def on_fst_def)
  ultimately show ?thesis by (auto simp: hand_over_def set_metadata_def go_bind_Ret pair_client_def)
qed

lemma pair_save: "\<exists>T r. save_task pair_client saved_task (m, []) = (Ret (), m, T) \<and> map_of T demo_id = Some r"
  by (simp add: save_task_def pair_client_def CreateTask_def scheduled_at_def created_at_def go_bind_lift_case go_bind_Ret
      pair_env_def pair_sql_def on_snd_def on_fst_def mem_sql_def mem_exec_def mem_insert_def insert_args_def Let_def
      saved_task_def demo_stored_def demo_task_def zero_options_def zero_metadata_def metadata_or_zero_def)

lemma demo_saved:
  "\<exists>w' v. Enqueue (clock pair_env) pair_client (Some demo_stored) pair_empty = (Ret (Inr
     \<lparr>ti_ID = demo_id, ti_Queue = ''critical'', ti_State = TaskStateScheduled, ti_ProcessAt = Some 1700000000000000000\<rparr>,
     Some saved_task), w') \<and> client_GetTask pair_client demo_id w' = (Ret (Inr v), w')"
proof -
  obtain m where hand: "hand_over pair_client demo_stored (Some 1700000000000000000) pair_empty = (Ret (None, saved_task), m, [])"
    using pair_hand_over by blast
  obtain T r where save: "save_task pair_client saved_task (m, []) = (Ret (), m, T)" and r: "map_of T demo_id = Some r"
    using pair_save by blast
  have "client_GetTask pair_client demo_id (m, T) = (Ret (Inr (full_task r)), m, T)"
    by (simp add: client_GetTask_def pair_client_def GetTask_def go_bind_lift_case pair_sql_def on_snd_def mem_sql_def r)
  moreover have "Enqueue (clock pair_env) pair_client (Some demo_stored) pair_empty = (Ret (Inr
     \<lparr>ti_ID = demo_id, ti_Queue = ''critical'', ti_State = TaskStateScheduled, ti_ProcessAt = Some 1700000000000000000\<rparr>,
     Some saved_task), m, T)"
    by (simp add: Enqueue_def go_bind_Ret pair_checks hand save)
  ultimately show ?thesis by blast
qed


end
