(* ===== verification/Task_Flow.thy ===== *)
theory Task_Flow
  imports Deployment
begin

text \<open>
  The program as one state machine: clients hand tasks in, the consumer group takes messages, the server
  handles them, consumers die and messages are taken over, the scheduler moves due tasks, dead tasks are
  revived or purged, in any order. Each step is a run of an operation of the model. The invariant is that
  a task that was handed in is finished, discarded or still in a queue.
\<close>

section \<open>Tasks that pass through everything\<close>

text \<open>What every task in a queue is: readable, within what cjson keeps, and in its own queue.\<close>

definition sound :: "string \<Rightarrow> TaskProto \<Rightarrow> bool" where
  "sound q t \<longleftrightarrow> task_good t \<and> lua_ok (json_task t) \<and> task_Queue t = q"

lemma json_task_norm [simp]: "json_task (norm_task t) = json_task t"
proof -
  have "json_options (norm_options r) = json_options r" for r
    by (simp add: json_options_def norm_options_def labels_field_def)
  then show ?thesis by (simp add: json_task_def norm_task_def split: option.split)
qed

lemma norm_task_same [simp]: "ID (norm_task t) = ID t" "task_Queue (norm_task t) = task_Queue t"
  by (simp_all add: norm_task_def task_Queue_def norm_options_def split: option.split)

lemma good_norm: "task_good t \<Longrightarrow> task_good (norm_task t)"
  by (auto simp: task_good_iff norm_task_def payload_valid_def norm_options_def options_good_def options_wf_def
      split: option.splits)

lemma sound_norm [simp]: "sound q t \<Longrightarrow> sound q (norm_task t)"
  by (simp add: sound_def good_norm)

lemma sound_metadata:
  assumes "sound q t" and "metadata_good m"
  shows "sound q (t\<lparr>Metadata := Some m\<rparr>)"
  using assms lua_ok_with_metadata [of t m]
  by (auto simp: sound_def task_good_iff payload_valid_def task_Queue_def)

lemma next_attempt_sound:
  assumes "sound q t" and "next_attempt st e t u" and "task_good u" and "st \<noteq> ''''"
  shows "sound q u"
proof -
  obtain m where m: "Metadata u = Some m"
    using assms(2,4) by (cases "Metadata u") (auto simp: next_attempt_def metadata_or_zero_def zero_metadata_def)
  moreover have "u = t\<lparr>Metadata := Some m\<rparr>" using assms(2) m by (cases t; cases u) (simp add: next_attempt_def)
  moreover have "metadata_good m" using assms(3) m by (simp add: task_good_iff)
  ultimately show ?thesis using sound_metadata [OF assms(1)] by simp
qed

lemma revived_sound: "sound q t \<Longrightarrow> Metadata t = Some m \<Longrightarrow> sound q (revived t m)"
  unfolding revived_def by (rule sound_metadata) (auto simp: sound_def task_good_iff metadata_good_def)

lemma json_task_canon:
  assumes "canon_task a = canon_task b"
  shows "json_same (json_task a) (json_task b)"
proof -
  from assms obtain p where a: "a = b\<lparr>Payload := p\<rparr>" and p: "canon_payload p = canon_payload (Payload b)"
    using canon_task_eq by blast
  have "map canon_field (payload_field ''payload'' p) = map canon_field (payload_field ''payload'' (Payload b))"
    using p by (cases p; cases "Payload b") (simp_all add: payload_field_def canon_payload_def canon_field_def)
  then show ?thesis by (simp add: json_same_def json_task_def a)
qed

lemma canon_task_sound:
  assumes "canon_task u = canon_task t" and "task_good u" and "sound q t"
  shows "sound q u" and "ID u = ID t"
proof -
  from assms(1) obtain p where u: "u = t\<lparr>Payload := p\<rparr>" using canon_task_eq by blast
  then show "ID u = ID t" by simp
  show "sound q u"
    using assms lua_ok_same [OF json_task_canon [OF assms(1)]] u by (simp add: sound_def task_Queue_def)
qed

lemma pending_again_sound: "sound q t \<Longrightarrow> sound q (pending_again t)"
  unfolding pending_again_def
  by (rule sound_metadata) (auto simp: sound_def task_good_iff metadata_good_def metadata_or_zero_def zero_metadata_def
      time_printable_def split: option.splits)

text \<open>What the scheduler makes of a waiting task.\<close>

lemma moved_sound:
  assumes "cjson_codec E" and "sound q t"
  shows "\<exists>u. message_task \<lparr>xm_ID = i, xm_Values = [(''data'', the (lua_pending E (JsonText (json_task t))))]\<rparr> = Some u \<and>
    sound q u \<and> ID u = ID t"
proof -
  have t: "task_wf t" "marshal_task t = Inr (json_task t)" "lua_ok (json_task t)"
    using assms(2) by (simp_all add: sound_def task_good_def good_marshals)
  from cjson_codec.lua_pending_reads [OF assms(1) t] obtain b u where b: "lua_pending E (JsonText (json_task t)) = Some b"
    and u: "unmarshal_task b = Inr u" and same: "canon_task u = canon_task (norm_task (pending_again t))" by blast
  from canon_task_sound [OF same unmarshal_good [OF u] sound_norm [OF pending_again_sound [OF assms(2)]]]
  show ?thesis using b u by (simp add: pending_again_def)
qed

section \<open>The queues of the machine\<close>

text \<open>The tasks of a queue, wherever in it they are.\<close>

definition task_ids :: "queue_view \<Rightarrow> string set" where
  "task_ids v = ID ` snd ` set (ready v) \<union> ID ` snd ` set (dead v) \<union>
     {ID t | b t. b \<in> dom (later v) \<union> dom (retrying v) \<and> unmarshal_task b = Inr t}"

definition waiting_ok :: "string \<Rightarrow> bulk \<Rightarrow> bool" where
  "waiting_ok q b \<longleftrightarrow> (\<exists>t. b = JsonText (json_task t) \<and> sound q t)"

text \<open>Messages have ids of their own, every task in the queue is sound, and what is unacknowledged was taken.\<close>

definition queue_ok :: "string \<Rightarrow> queue_view \<Rightarrow> bool" where
  "queue_ok q v \<longleftrightarrow> distinct (map fst (ready v)) \<and> (\<forall>(i, t) \<in> set (ready v). i \<noteq> '''' \<and> sound q t) \<and>
     (\<forall>(i, t) \<in> set (dead v). sound q t) \<and> (\<forall>b \<in> dom (later v) \<union> dom (retrying v). waiting_ok q b) \<and>
     dom (unacked v) \<subseteq> taken v"

text \<open>A message in the hands of a consumer: if it is still in the queue, with the same task.\<close>

definition held_ok :: "string \<Rightarrow> queue_view \<Rightarrow> XMessage \<Rightarrow> bool" where
  "held_ok q v msg \<longleftrightarrow> xm_ID msg \<in> taken v \<and> (\<forall>t. message_task msg = Some t \<longrightarrow>
     xm_ID msg \<noteq> '''' \<and> sound q t \<and> (\<forall>u. (xm_ID msg, u) \<in> set (ready v) \<longrightarrow> u = t))"

text \<open>The queue keeps what consumers rely on.\<close>

definition still_held :: "queue_view \<Rightarrow> queue_view \<Rightarrow> bool" where
  "still_held v v' \<longleftrightarrow> taken v \<subseteq> taken v' \<and> (\<forall>(i, t) \<in> set (ready v'). i \<in> taken v \<longrightarrow> (i, t) \<in> set (ready v))"

lemma held_still: "held_ok q v msg \<Longrightarrow> still_held v v' \<Longrightarrow> held_ok q v' msg"
  by (auto simp: held_ok_def still_held_def)

lemma still_held_refl [simp]: "still_held v v"
  by (auto simp: still_held_def)

lemma waiting_ids: "sound q t \<Longrightarrow> \<exists>u. unmarshal_task (JsonText (json_task t)) = Inr u \<and> ID u = ID t"
  using decode_json_task [of t] by (simp add: sound_def task_good_def)

lemma waiting_id: "b \<in> dom (later v) \<union> dom (retrying v) \<Longrightarrow> unmarshal_task b = Inr u \<Longrightarrow> ID u \<in> task_ids v"
  unfolding task_ids_def by blast

lemma task_id: "(i, t) \<in> set (ready v) \<Longrightarrow> ID t \<in> task_ids v" "(i, t) \<in> set (dead v) \<Longrightarrow> ID t \<in> task_ids v"
  using imageI [OF imageI [of "(i, t)" "set (ready v)" snd], of ID] imageI [OF imageI [of "(i, t)" "set (dead v)" snd], of ID]
  unfolding task_ids_def by simp_all

lemma task_ids_le:
  assumes "\<And>i t. (i, t) \<in> set (ready v) \<Longrightarrow> ID t \<in> X" and "\<And>i t. (i, t) \<in> set (dead v) \<Longrightarrow> ID t \<in> X"
    and "\<And>b t. b \<in> dom (later v) \<Longrightarrow> unmarshal_task b = Inr t \<Longrightarrow> ID t \<in> X"
    and "\<And>b t. b \<in> dom (retrying v) \<Longrightarrow> unmarshal_task b = Inr t \<Longrightarrow> ID t \<in> X"
  shows "task_ids v \<subseteq> X"
  unfolding task_ids_def
proof (intro Un_least subsetI)
  show "x \<in> X" if "x \<in> ID ` snd ` set (ready v)" for x using that assms(1) by force
  show "x \<in> X" if "x \<in> ID ` snd ` set (dead v)" for x using that assms(2) by force
  show "x \<in> X" if "x \<in> {ID t | b t. b \<in> dom (later v) \<union> dom (retrying v) \<and> unmarshal_task b = Inr t}" for x
    using that assms(3,4) by blast
qed

text \<open>What the operations do to a queue keeps it in order; no task leaves it but for the reason given.\<close>

lemma ready_flow:
  assumes "queue_ok q v" and "sound q t" and "i \<noteq> ''''" and "i \<notin> fst ` set (ready v)" and "i \<notin> taken v"
  shows "queue_ok q (put_ready i t v) \<and> still_held v (put_ready i t v) \<and>
    task_ids v \<subseteq> task_ids (put_ready i t v) \<and> ID t \<in> task_ids (put_ready i t v)"
  using assms by (auto simp: queue_ok_def put_ready_def still_held_def task_ids_def)

lemma dead_flow:
  assumes "queue_ok q v" and "sound q t"
  shows "queue_ok q (put_dead i t v) \<and> still_held v (put_dead i t v) \<and>
    task_ids v \<subseteq> task_ids (put_dead i t v) \<and> ID t \<in> task_ids (put_dead i t v)"
  using assms by (auto simp: queue_ok_def put_dead_def still_held_def task_ids_def)

lemma later_flow:
  fixes at :: int
  assumes "queue_ok q v" and "sound q t"
  defines "v' \<equiv> put_later (JsonText (json_task t)) at v"
  shows "queue_ok q v' \<and> still_held v v' \<and> task_ids v \<subseteq> task_ids v' \<and> ID t \<in> task_ids v'"
proof -
  obtain u where u: "unmarshal_task (JsonText (json_task t)) = Inr u" "ID u = ID t" using waiting_ids [OF assms(2)] by blast
  have "ID t \<in> task_ids v'" using waiting_id [of "JsonText (json_task t)" v' u] u by (simp add: v'_def put_later_def)
  moreover have "waiting_ok q (JsonText (json_task t))" using assms(2) by (auto simp: waiting_ok_def)
  ultimately show ?thesis using assms(1) unfolding v'_def
    by (auto simp: queue_ok_def put_later_def still_held_def task_ids_def)
qed

lemma retry_flow:
  fixes at :: int
  assumes "queue_ok q v" and "sound q t"
  defines "v' \<equiv> put_retry (JsonText (json_task t)) at v"
  shows "queue_ok q v' \<and> still_held v v' \<and> task_ids v \<subseteq> task_ids v' \<and> ID t \<in> task_ids v'"
proof -
  obtain u where u: "unmarshal_task (JsonText (json_task t)) = Inr u" "ID u = ID t" using waiting_ids [OF assms(2)] by blast
  have "ID t \<in> task_ids v'" using waiting_id [of "JsonText (json_task t)" v' u] u by (simp add: v'_def put_retry_def)
  moreover have "waiting_ok q (JsonText (json_task t))" using assms(2) by (auto simp: waiting_ok_def)
  ultimately show ?thesis using assms(1) unfolding v'_def
    by (auto simp: queue_ok_def put_retry_def still_held_def task_ids_def)
qed

lemma drop_flow:
  assumes "queue_ok q v" and "held_ok q v msg" and "message_task msg = Some t"
  defines "v' \<equiv> drop_message (xm_ID msg) v"
  shows "queue_ok q v' \<and> still_held v v' \<and> task_ids v \<subseteq> insert (ID t) (task_ids v')"
proof -
  have "(i, u) \<in> set (ready v) \<Longrightarrow> i \<noteq> xm_ID msg \<or> u = t" for i u using assms(2,3) by (auto simp: held_ok_def)
  then show ?thesis using assms(1) unfolding v'_def
    by (auto simp: queue_ok_def drop_message_def still_held_def task_ids_def distinct_map_filter)
      (metis (mono_tags, lifting) image_eqI mem_Collect_eq prod.collapse snd_conv)+
qed

text \<open>The entries that the scheduler appends for the members it takes.\<close>

lemma moved_tasks:
  assumes "cjson_codec E" and es: "map snd es = map (\<lambda>m. [(''data'', the (lua_pending E m))]) ms"
    and ok: "\<forall>m \<in> set ms. waiting_ok q m"
  shows "\<forall>(i, u) \<in> set (tasks_of es). sound q u"
    and "m \<in> set ms \<Longrightarrow> unmarshal_task m = Inr t \<Longrightarrow> ID t \<in> ID ` snd ` set (tasks_of es)"
proof -
  have reads: "\<exists>u. message_task \<lparr>xm_ID = i, xm_Values = [(''data'', the (lua_pending E m))]\<rparr> = Some u \<and> sound q u \<and>
      (\<forall>t. unmarshal_task m = Inr t \<longrightarrow> ID t = ID u)" if "m \<in> set ms" for i m
  proof -
    from ok that obtain t where t: "m = JsonText (json_task t)" "sound q t" unfolding waiting_ok_def by blast
    from moved_sound [OF assms(1) t(2), of i] waiting_ids [OF t(2)] show ?thesis unfolding t(1) by auto
  qed
  have from_ms: "\<exists>m \<in> set ms. vs = [(''data'', the (lua_pending E m))]" if "(i, vs) \<in> set es" for i vs
  proof -
    have "vs \<in> set (map snd es)" using that by force
    then show ?thesis unfolding es by auto
  qed
  show "\<forall>(i, u) \<in> set (tasks_of es). sound q u"
  proof clarify
    fix i u assume "(i, u) \<in> set (tasks_of es)"
    then obtain vs where "(i, vs) \<in> set es" and u: "message_task \<lparr>xm_ID = i, xm_Values = vs\<rparr> = Some u"
      using tasks_of_memD by blast
    with from_ms obtain m where "m \<in> set ms" "vs = [(''data'', the (lua_pending E m))]" by blast
    with reads [of m i] u show "sound q u" by auto
  qed
  assume m: "m \<in> set ms" and t: "unmarshal_task m = Inr t"
  then have "[(''data'', the (lua_pending E m))] \<in> set (map snd es)" unfolding es by simp
  then obtain i where e: "(i, [(''data'', the (lua_pending E m))]) \<in> set es" by auto
  obtain u where u: "message_task \<lparr>xm_ID = i, xm_Values = [(''data'', the (lua_pending E m))]\<rparr> = Some u" "ID t = ID u"
    using reads [OF m] t by blast
  from tasks_of_mem [OF e u(1)] u(2) show "ID t \<in> ID ` snd ` set (tasks_of es)" by force
qed

definition fresh_entries :: "queue_view \<Rightarrow> (string \<times> (string \<times> bulk) list) list \<Rightarrow> bool" where
  "fresh_entries v es \<longleftrightarrow> distinct (map fst es) \<and>
     (\<forall>i \<in> fst ` set es. i \<noteq> '''' \<and> i \<notin> fst ` set (ready v) \<and> i \<notin> taken v)"

lemma append_flow:
  assumes "queue_ok q v" and "fresh_entries v es" and "\<forall>(i, u) \<in> set (tasks_of es). sound q u"
  defines "v' \<equiv> v\<lparr>ready := ready v @ tasks_of es\<rparr>"
  shows "queue_ok q v' \<and> still_held v v'"
proof -
  have new: "i \<noteq> '''' \<and> i \<notin> fst ` set (ready v) \<and> i \<notin> taken v" if "(i, u) \<in> set (tasks_of es)" for i u
    using assms(2) tasks_of_ids [of es] that unfolding fresh_entries_def by force
  have "distinct (map fst (tasks_of es))" using assms(2) by (simp add: fresh_entries_def tasks_of_distinct)
  moreover have "fst ` set (ready v) \<inter> fst ` set (tasks_of es) = {}" using new by force
  ultimately have "distinct (map fst (ready v'))" using assms(1) unfolding v'_def queue_ok_def by simp
  moreover have "(i, t) \<in> set (ready v') \<Longrightarrow> i \<noteq> '''' \<and> sound q t" for i t
    using assms(1,3) new unfolding v'_def queue_ok_def by auto
  moreover have "(i, t) \<in> set (ready v') \<Longrightarrow> i \<in> taken v \<Longrightarrow> (i, t) \<in> set (ready v)" for i t
    using new unfolding v'_def by auto
  ultimately show ?thesis using assms(1) unfolding v'_def queue_ok_def still_held_def by auto
qed

lemma move_later_flow:
  assumes "cjson_codec E" and "queue_ok q v" and "fresh_entries v es" and "set ms \<subseteq> dom (later v)"
    and "map snd es = map (\<lambda>m. [(''data'', the (lua_pending E m))]) ms"
  defines "v' \<equiv> v\<lparr>ready := ready v @ tasks_of es, later := later v |` (- set ms)\<rparr>"
  shows "queue_ok q v' \<and> still_held v v' \<and> task_ids v \<subseteq> task_ids v'"
proof -
  have ok: "\<forall>m \<in> set ms. waiting_ok q m" using assms(2,4) unfolding queue_ok_def by blast
  note tasks = moved_tasks [OF assms(1,5) ok]
  have "queue_ok q (v\<lparr>ready := ready v @ tasks_of es\<rparr>)" "still_held v (v\<lparr>ready := ready v @ tasks_of es\<rparr>)"
    using append_flow [OF assms(2,3) tasks(1)] by blast+
  then have "queue_ok q v' \<and> still_held v v'"
    unfolding v'_def by (auto simp: queue_ok_def still_held_def restrict_map_def split: if_splits)
  moreover have "task_ids v \<subseteq> task_ids v'"
  proof (rule task_ids_le)
    fix b t assume b: "b \<in> dom (later v)" and t: "unmarshal_task b = Inr t"
    show "ID t \<in> task_ids v'"
    proof (cases "b \<in> set ms")
      case True
      from tasks(2) [OF this t] show ?thesis by (simp add: v'_def task_ids_def image_Un)
    next
      case False
      with b show ?thesis by (intro waiting_id [OF _ t]) (auto simp: v'_def restrict_map_def)
    qed
  next
    fix b t assume "b \<in> dom (retrying v)" and "unmarshal_task b = Inr t"
    then show "ID t \<in> task_ids v'" by (intro waiting_id [of b]) (auto simp: v'_def)
  qed (auto simp: v'_def intro: task_id)
  ultimately show ?thesis by blast
qed

lemma move_retrying_flow:
  assumes "cjson_codec E" and "queue_ok q v" and "fresh_entries v es" and "set ms \<subseteq> dom (retrying v)"
    and "map snd es = map (\<lambda>m. [(''data'', the (lua_pending E m))]) ms"
  defines "v' \<equiv> v\<lparr>ready := ready v @ tasks_of es, retrying := retrying v |` (- set ms)\<rparr>"
  shows "queue_ok q v' \<and> still_held v v' \<and> task_ids v \<subseteq> task_ids v'"
proof -
  have ok: "\<forall>m \<in> set ms. waiting_ok q m" using assms(2,4) unfolding queue_ok_def by blast
  note tasks = moved_tasks [OF assms(1,5) ok]
  have "queue_ok q (v\<lparr>ready := ready v @ tasks_of es\<rparr>)" "still_held v (v\<lparr>ready := ready v @ tasks_of es\<rparr>)"
    using append_flow [OF assms(2,3) tasks(1)] by blast+
  then have "queue_ok q v' \<and> still_held v v'"
    unfolding v'_def by (auto simp: queue_ok_def still_held_def restrict_map_def split: if_splits)
  moreover have "task_ids v \<subseteq> task_ids v'"
  proof (rule task_ids_le)
    fix b t assume b: "b \<in> dom (retrying v)" and t: "unmarshal_task b = Inr t"
    show "ID t \<in> task_ids v'"
    proof (cases "b \<in> set ms")
      case True
      from tasks(2) [OF this t] show ?thesis by (simp add: v'_def task_ids_def image_Un)
    next
      case False
      with b show ?thesis by (intro waiting_id [OF _ t]) (auto simp: v'_def restrict_map_def)
    qed
  next
    fix b t assume "b \<in> dom (later v)" and "unmarshal_task b = Inr t"
    then show "ID t \<in> task_ids v'" by (intro waiting_id [of b]) (auto simp: v'_def)
  qed (auto simp: v'_def intro: task_id)
  ultimately show ?thesis by blast
qed

text \<open>Reviving takes the first task with the identifier; entries of the dead letter queue have different ids.\<close>

lemma find_split:
  assumes "List.find P xs = Some (i, t)" and "distinct (map fst xs)"
  shows "(i, t) \<in> set xs" and "(i, u) \<in> set xs \<Longrightarrow> u = t"
proof -
  show t: "(i, t) \<in> set xs" using assms(1) by (auto simp: find_Some_iff)
  show "(i, u) \<in> set xs \<Longrightarrow> u = t" using t assms(2) by (metis eq_key_imp_eq_value)
qed

lemma drop_dead_flow:
  assumes "queue_ok q v" and "distinct (map fst (dead v))" and "(i, t) \<in> set (dead v)"
  defines "v' \<equiv> drop_dead i v"
  shows "queue_ok q v' \<and> still_held v v' \<and> task_ids v \<subseteq> insert (ID t) (task_ids v')"
proof -
  have same: "u = t" if "(i, u) \<in> set (dead v)" for u using that assms(2,3) by (metis eq_key_imp_eq_value)
  have "task_ids v \<subseteq> insert (ID t) (task_ids v')"
  proof (rule task_ids_le)
    fix j u assume "(j, u) \<in> set (dead v)"
    then show "ID u \<in> insert (ID t) (task_ids v')"
      using same [of u] by (cases "j = i") (auto simp: v'_def drop_dead_def intro: task_id(2) [of j])
  next
    fix b u assume "b \<in> dom (later v)" and "unmarshal_task b = Inr u"
    then show "ID u \<in> insert (ID t) (task_ids v')"
      by (intro insertI2 waiting_id [of b]) (auto simp: v'_def drop_dead_def)
  next
    fix b u assume "b \<in> dom (retrying v)" and "unmarshal_task b = Inr u"
    then show "ID u \<in> insert (ID t) (task_ids v')"
      by (intro insertI2 waiting_id [of b]) (auto simp: v'_def drop_dead_def)
  qed (auto simp: v'_def drop_dead_def intro: task_id(1))
  then show ?thesis using assms(1) unfolding v'_def queue_ok_def drop_dead_def still_held_def by auto
qed

lemma revive_flow:
  assumes "queue_ok q v" and "distinct (map fst (dead v))" and "(i, t) \<in> set (dead v)" and "Metadata t = Some m"
    and "j \<noteq> ''''" and "j \<notin> fst ` set (ready v)" and "j \<notin> taken v"
  defines "v' \<equiv> put_ready j (norm_task (revived t m)) (drop_dead i v)"
  shows "queue_ok q v' \<and> still_held v v' \<and> task_ids v \<subseteq> task_ids v'"
proof -
  let ?d = "drop_dead i v"
  from drop_dead_flow [OF assms(1-3)] have d: "queue_ok q ?d" "still_held v ?d" "task_ids v \<subseteq> insert (ID t) (task_ids ?d)" by blast+
  have "sound q t" using assms(1,3) by (auto simp: queue_ok_def)
  then have "sound q (norm_task (revived t m))" using revived_sound assms(4) by simp
  from ready_flow [OF d(1) this assms(5)] assms(6,7) have "queue_ok q v'" "still_held ?d v'" "task_ids ?d \<subseteq> task_ids v'"
    "ID (norm_task (revived t m)) \<in> task_ids v'" by (simp_all add: v'_def drop_dead_def)
  moreover have "ID (norm_task (revived t m)) = ID t" by (simp add: revived_def)
  ultimately show ?thesis using d by (auto simp: still_held_def drop_dead_def)
qed

text \<open>Deliveries change only who has what.\<close>

definition only_taken :: "queue_view \<Rightarrow> queue_view \<Rightarrow> bool" where
  "only_taken v v' \<longleftrightarrow> ready v' = ready v \<and> dead v' = dead v \<and> later v' = later v \<and> retrying v' = retrying v \<and>
     taken v \<subseteq> taken v' \<and> dom (unacked v') \<subseteq> dom (unacked v) \<union> taken v'"

lemma only_taken_flow:
  "only_taken v v' \<Longrightarrow> queue_ok q v \<Longrightarrow> queue_ok q v' \<and> still_held v v' \<and> task_ids v \<subseteq> task_ids v'"
proof -
  assume taken: "only_taken v v'" and ok: "queue_ok q v"
  then have "dom (unacked v') \<subseteq> taken v'" unfolding only_taken_def queue_ok_def by blast
  with taken ok show ?thesis by (auto simp: only_taken_def queue_ok_def still_held_def task_ids_def)
qed

lemma only_taken_refl [simp]: "only_taken v v"
  by (simp add: only_taken_def)

lemma only_taken_trans: "only_taken v v' \<Longrightarrow> only_taken v' v'' \<Longrightarrow> only_taken v v''"
  unfolding only_taken_def by (intro conjI) (metis | blast)+

text \<open>Emptying the dead letter queue discards what is in it.\<close>

lemma purge_flow:
  assumes "queue_ok q v"
  shows "queue_ok q (v\<lparr>dead := []\<rparr>) \<and> still_held v (v\<lparr>dead := []\<rparr>) \<and>
    task_ids v \<subseteq> ID ` snd ` set (dead v) \<union> task_ids (v\<lparr>dead := []\<rparr>)"
  using assms by (auto simp: queue_ok_def still_held_def task_ids_def)

text \<open>Handling a message takes it out of the queue, and its task goes on unless it is done.\<close>

lemma settled_flow:
  assumes ok: "queue_ok q (v q)" and msg: "held_ok q (v q) msg" "message_task msg = Some t"
    and "message_settled (xm_ID msg) t r v v'"
  shows "v' = v(q := v' q)" and "queue_ok q (v' q)" and "still_held (v q) (v' q)"
    and "task_ids (v q) \<subseteq> (if r = None then {ID t} else {}) \<union> task_ids (v' q)"
proof -
  let ?left = "drop_message (xm_ID msg) (v q)"
  have t: "sound q t" using msg by (simp add: held_ok_def)
  then have q: "task_Queue t = q" by (simp add: sound_def)
  from drop_flow [OF ok msg] have left: "queue_ok q ?left" "still_held (v q) ?left" "task_ids (v q) \<subseteq> insert (ID t) (task_ids ?left)"
    by blast+
  have goes_on: "v' = v(q := v' q) \<and> queue_ok q (v' q) \<and> still_held (v q) (v' q) \<and> task_ids (v q) \<subseteq> task_ids (v' q)"
    if "v' = v(q := x)" "queue_ok q x \<and> still_held ?left x \<and> task_ids ?left \<subseteq> task_ids x \<and> ID t \<in> task_ids x" for x
    using that left(2,3) by (auto simp: still_held_def drop_message_def)
  from assms(4) q consider (finished) "r = None" "v' = v(q := ?left)"
    | (again) u e s where "r \<noteq> None" "task_good u" "next_attempt TaskStateRetry e t u" "v' = v(q := put_retry (JsonText (json_task u)) s ?left)"
    | (buried) u e j where "r \<noteq> None" "task_good u" "next_attempt TaskStateDead e t u" "v' = v(q := put_dead j (norm_task u) ?left)"
    unfolding message_settled_def Let_def by auto
  then have "v' = v(q := v' q) \<and> queue_ok q (v' q) \<and> still_held (v q) (v' q) \<and>
    task_ids (v q) \<subseteq> (if r = None then {ID t} else {}) \<union> task_ids (v' q)"
  proof cases
    case finished
    with left show ?thesis by simp
  next
    case again
    have u: "sound q u" "ID u = ID t"
      using next_attempt_sound [OF t again(3,2)] again(3) by (simp_all add: TaskStateRetry_def next_attempt_def)
    from goes_on [OF again(4)] retry_flow [OF left(1) u(1), of s] u(2) again(1) show ?thesis by auto
  next
    case buried
    have u: "sound q (norm_task u)" "ID (norm_task u) = ID t"
      using next_attempt_sound [OF t buried(3,2)] buried(3) by (simp_all add: TaskStateDead_def next_attempt_def)
    from goes_on [OF buried(4)] dead_flow [OF left(1) u(1), of j] u(2) buried(1) show ?thesis by auto
  qed
  then show "v' = v(q := v' q)" "queue_ok q (v' q)" "still_held (v q) (v' q)"
    "task_ids (v q) \<subseteq> (if r = None then {ID t} else {}) \<union> task_ids (v' q)" by blast+
qed

end
