(* ===== verification/Retry_Cycle.thy ===== *)
theory Retry_Cycle
  imports Scheduler_Liveness Task_Flow
begin

text \<open>
  Server, broker and scheduler together: a task whose handler fails comes back. Handling its message puts it into
  the retry set, and when its time has come the scheduler puts it into the stream again, one attempt on.
\<close>

section \<open>What the scheduler makes of a waiting task\<close>

lemma waiting_comes_back:
  assumes "cjson_codec E" and "sound q u" and "in_stream E d q (JsonText (json_task u))"
  shows "\<exists>i t'. (i, t') \<in> set (ready (view cfg d q)) \<and> canon_task t' = canon_task (norm_task (pending_again u))"
proof -
  have u: "task_wf u" "marshal_task u = Inr (json_task u)" "lua_ok (json_task u)"
    using assms(2) by (simp_all add: sound_def task_good_def good_marshals)
  from cjson_codec.lua_pending_reads [OF assms(1) u] obtain b t' where b: "lua_pending E (JsonText (json_task u)) = Some b"
    and t': "unmarshal_task b = Inr t'" and same: "canon_task t' = canon_task (norm_task (pending_again u))" by blast
  from assms(3) b obtain i where i: "(i, [(''data'', b)]) \<in> set (streams d (streamKey q))" by (auto simp: in_stream_def)
  have "message_task \<lparr>xm_ID = i, xm_Values = [(''data'', b)]\<rparr> = Some t'" using t' by (simp add: message_task_def)
  then have "(i, t') \<in> set (ready (view cfg d q))" using tasks_of_mem [OF i] by (simp add: view_def)
  with same show ?thesis by blast
qed

context steady_scheduler
begin

text \<open>A member of a retry set whose time has come is in the stream when the scheduler has caught up.\<close>

lemma retry_forwarded:
  assumes S: "srv_broker S = redis_broker E cfg" "0 < srv_schedulerBatchSize S" and w: "I w" "all_movable E (db w)"
    and q: "q \<in> sets (db w) queuesKey" and m: "zsets (db w) (retryKey q) m = Some s" "s \<le> unix past"
    and enough: "backlog (db w) (unix past) retryPrefix q \<le> ticks es * nat (srv_schedulerBatchSize S)"
  shows "\<exists>w'. on_ticks (\<lambda>_. scheduler_tick (clock E) S) es () w = (Ret (), w') \<and> in_stream E (db w') q m"
proof -
  let ?k = "retryPrefix @ q"
  have p: "retryPrefix \<in> task_sets" by (simp add: task_sets_def)
  obtain w' where run: "on_ticks (\<lambda>_. scheduler_tick (clock E) S) es () w = (Ret (), w')"
    and t: "tick_moves I E db (unix past) (ticks es * nat (srv_schedulerBatchSize S)) w w'"
    using scheduler_ticks_move [OF S w] by blast
  then have "I w'" and f: "forwarded E (db w) (db w')" by (simp_all add: tick_moves_def)
  have "backlog (db w') (unix past) retryPrefix q = 0" using t q p enough unfolding tick_moves_def by fastforce
  moreover have "finite (due (zsets (db w') ?k) (unix past))"
    using due_subset zset_finite [OF \<open>I w'\<close>] by (rule finite_subset)
  ultimately have "due (zsets (db w') ?k) (unix past) = {}" by (simp add: backlog_def)
  moreover have "zsets (db w') ?k \<subseteq>\<^sub>m zsets (db w) ?k" using f p by (simp add: forwarded_def)
  moreover have "m \<in> due (zsets (db w') ?k) (unix past)" if "m \<in> dom (zsets (db w') ?k)"
    using that m \<open>zsets (db w') ?k \<subseteq>\<^sub>m _\<close> by (simp add: due_def map_le_def retryKey_def)
  ultimately have "m \<notin> dom (zsets (db w') ?k)" by blast
  moreover have "m \<in> dom (zsets (db w) ?k)" using m(1) by (auto simp: retryKey_def)
  ultimately have "in_stream E (db w') q m" using f p unfolding forwarded_def by blast
  with run show ?thesis by blast
qed

end

section \<open>A failed task comes back\<close>

text \<open>
  C6. The handler of a task fails and the task has attempts left. Handling its message tells the broker to
  retry it and leaves it in the retry set, with one attempt more on its count; and as soon as its time has
  come and the scheduler has seen as many ticks as the retry set has batches of due tasks, the task is in
  the stream of its queue again, pending and otherwise the same: every failure leads to the next attempt
  until there is none left.
\<close>

theorem failed_task_comes_back:
  assumes "steady_server S (\<lambda>w. view cfg (db w)) bnow (clock E) I" and "srv_broker S = redis_broker E cfg"
    and "steady_scheduler E db clk J past" and "cjson_codec E"
    and "I w" and "message_task msg = Some t" and "xm_ID msg \<noteq> ''''" and "sound q t" and "\<not> gives_up t"
    and "should_process S (with_message_id (xm_ID msg) t) w = (Ret True, w1)"
    and "mux_Handler (srv_mux S) (Type t) = Some h"
    and "\<forall>d at v. fst (fst (h d ((with_message_id (xm_ID msg) t)\<lparr>Metadata := Some (active S at
      ((metadata_or_zero t)\<lparr>StreamMsgID := xm_ID msg\<rparr>))\<rparr>) v)) = Ret (Some err)"
    and "0 < sint (srv_schedulerInterval S)" and "0 < srv_schedulerBatchSize S"
  shows "\<exists>w2 u e s. processMessage E cfg (processTask (clock E) big S) q msg w = (Ret (Some ErrTaskRetried), w2) \<and>
    next_attempt TaskStateRetry e t u \<and> retrying (view cfg (db w2) q) (JsonText (json_task u)) = Some s \<and>
    (\<forall>w3 es. J w3 \<and> db w3 = db w2 \<and> q \<in> sets (db w3) queuesKey \<and> all_movable E (db w3) \<and> s \<le> unix past \<and>
       backlog (db w3) (unix past) retryPrefix q \<le> ticks es * nat (srv_schedulerBatchSize S) \<longrightarrow>
       (\<exists>w4 i t'. runScheduler (clock E) S es w3 = (Ret (), w4) \<and> (i, t') \<in> set (ready (view cfg (db w4) q)) \<and>
          canon_task t' = canon_task (norm_task (pending_again u))))"
proof -
  have q: "task_Queue t = q" using assms(8) by (simp add: sound_def)
  have v: "verdict t (Some err) = Some ErrTaskRetried" using assms(9) by (simp add: verdict_def)
  obtain w2 where run: "processMessage E cfg (processTask (clock E) big S) q msg w = (Ret (Some ErrTaskRetried), w2)"
    and set: "message_settled (xm_ID msg) t (Some ErrTaskRetried) (view cfg (db w)) (view cfg (db w2))"
    using steady_server.processMessage_verdict [OF assms(1,2,5-7,10-12), of big] q v by auto
  from set obtain u e s where u: "task_good u" "next_attempt TaskStateRetry e t u"
    and w2: "view cfg (db w2) = (view cfg (db w))(q := put_retry (JsonText (json_task u)) s (drop_message (xm_ID msg) (view cfg (db w) q)))"
    by (auto simp: message_settled_def Let_def q)
  have "sound q u" by (rule next_attempt_sound [OF assms(8) u(2,1)]) (simp add: TaskStateRetry_def)
  have m: "retrying (view cfg (db w2) q) (JsonText (json_task u)) = Some s" by (simp add: w2 put_retry_def)
  have "\<exists>w4 i t'. runScheduler (clock E) S es w3 = (Ret (), w4) \<and> (i, t') \<in> set (ready (view cfg (db w4) q)) \<and>
      canon_task t' = canon_task (norm_task (pending_again u))"
    if w3: "J w3" "db w3 = db w2" "q \<in> sets (db w3) queuesKey" "all_movable E (db w3)" "s \<le> unix past"
      and "backlog (db w3) (unix past) retryPrefix q \<le> ticks es * nat (srv_schedulerBatchSize S)" for w3 es
  proof -
    have "zsets (db w3) (retryKey q) (JsonText (json_task u)) = Some s" using m w3(2) by (simp add: view_def)
    from steady_scheduler.retry_forwarded [OF assms(3,2,14) w3(1,4,3) this w3(5) that(6)] obtain w4
      where ticks: "on_ticks (\<lambda>_. scheduler_tick (clock E) S) es () w3 = (Ret (), w4)"
        and "in_stream E (db w4) q (JsonText (json_task u))" by blast
    from waiting_comes_back [OF assms(4) \<open>sound q u\<close> this(2), of cfg] ticks show ?thesis
      using assms(13) by (auto simp: runScheduler_def new_ticker_def)
  qed
  with run u(2) m show ?thesis by blast
qed

text \<open>The demo task in the hands of a consumer, in a queue that is registered.\<close>

definition held_mem :: mem where
  "held_mem = pending_mem\<lparr>m_sets := (\<lambda>_. [])(queuesKey := [''critical''])\<rparr>"

abbreviation demo_held :: TaskProto where
  "demo_held \<equiv> with_message_id ''i'' (norm_task demo_task)"

definition checked_mem :: mem where
  "checked_mem = held_mem\<lparr>m_strings := [processedPrefix @ ''t1'' \<mapsto> (''1'', Some (24 * Hour))]\<rparr>"

lemma demo_check: "should_process demo_server demo_held held_mem = (Ret True, checked_mem)"
proof -
  have t: "ID demo_task = ''t1''" "task_RetryCount demo_held = 0"
    by (simp_all add: norm_task_def demo_task_def task_RetryCount_def zero_metadata_def metadata_or_zero_def)
  have "SetProcessed mem_env ''t1'' (dur (24 * Hour)) held_mem = (Ret (Inr True), checked_mem)"
    by (simp add: SetProcessed_def go_lift_def mem_call_def held_mem_def pending_mem_def empty_mem_def mem_set_nx_def live_def mem_db_def
        checked_mem_def dur_def Hour_def Minute_def Second_def)
  then show ?thesis by (simp add: should_process_def t go_bind_Ret go_return_def del: mem_env_sel)
qed

abbreviation demo_failed :: TaskProto where
  "demo_failed \<equiv> failed_once (ErrText ''boom'') (demo_held\<lparr>Metadata := Some (active demo_server 0 ((metadata_or_zero (norm_task demo_task))\<lparr>StreamMsgID := ''i''\<rparr>))\<rparr>)"

lemma demo_failed_good: "task_good (retried demo_failed)"
proof -
  have "task_good demo_held" by (rule good_with_message_id [OF good_norm [OF demo_good]])
  then have "task_good (demo_held\<lparr>Metadata := Some (active demo_server 0 ((metadata_or_zero (norm_task demo_task))\<lparr>StreamMsgID := ''i''\<rparr>))\<rparr>)"
    by (rule mem_server.good_active) (simp_all add: time_printable_def unix_def Second_def)
  then show ?thesis by (rule good_failed)
qed

lemma demo_retries: "Retry mem_env DefaultConsumerConfig ''critical'' demo_failed (dur Second) checked_mem = ((Ret (None, retried demo_failed)),
    fold mem_command [XAck (streamKey ''critical'') (Group DefaultConsumerConfig) ''i'', XDel (streamKey ''critical'') ''i'',
      ZAdd (retryKey ''critical'') 1 (JsonText (json_task (retried demo_failed)))] checked_mem)"
proof -
  have "StreamMsgID (metadata_or_zero demo_failed) = ''i''" by (simp add: failed_once_def active_def metadata_or_zero_def Let_def)
  then show ?thesis
    unfolding Retry_run [OF good_marshals [OF demo_failed_good]]
    by (simp add: go_bind_lift_case unstream_def mem_pipe_def checked_mem_def held_mem_def pending_mem_def empty_mem_def dur_def Second_def unix_def go_return_def)
qed

lemma demo_handles: "handleFailure (clock mem_env) 0 demo_server (demo_held\<lparr>Metadata := Some (active demo_server 0 ((metadata_or_zero (norm_task demo_task))\<lparr>StreamMsgID := ''i''\<rparr>))\<rparr>) (ErrText ''boom'') checked_mem = (Ret (Some ErrTaskRetried),
    fold mem_command [XAck (streamKey ''critical'') (Group DefaultConsumerConfig) ''i'', XDel (streamKey ''critical'') ''i'',
      ZAdd (retryKey ''critical'') 1 (JsonText (json_task (retried demo_failed)))] checked_mem)"
proof -
  define F where "F = demo_failed"
  have f: "RetryCount (metadata_or_zero F) = 1" "max_retry F = 5" "task_Queue F = ''critical''"
    by (simp_all add: F_def failed_once_def active_def metadata_or_zero_def Let_def norm_task_def demo_task_def max_retry_def norm_options_def
        zero_options_def zero_metadata_def task_Queue_def)
  have d: "calculateBackoff 0 demo_server 1 = dur Second"
    by (simp add: calculateBackoff_def pow2_duration_def Let_def dur_def Second_def Minute_def)
  note r = demo_retries [folded F_def]
  have "set_metadata (\<lambda>m. m\<lparr>State := TaskStateRetry\<rparr>) (retried F) v = (Ret (retried F), v)" for v :: mem
    by (simp add: set_metadata_def retried_def go_return_def)
  then show ?thesis unfolding handleFailure_def F_def [symmetric]
    by (simp add: Let_def f d redis_broker_def go_bind_Ret r update_store_def demo_store_def go_return_def
        del: mem_env_sel fold_simps)
qed

definition failed_mem :: mem where
  "failed_mem = fold mem_command [XAck (streamKey ''critical'') (Group DefaultConsumerConfig) ''i'', XDel (streamKey ''critical'') ''i'',
     ZAdd (retryKey ''critical'') 1 (JsonText (json_task (retried demo_failed)))] checked_mem"

lemma demo_fails: "processMessage mem_env DefaultConsumerConfig (processTask (clock mem_env) 0 demo_server) ''critical'' demo_stream_message held_mem =
    (Ret (Some ErrTaskRetried), failed_mem)"
proof -
  define D where "D = demo_held\<lparr>Metadata := Some (active demo_server 0 ((metadata_or_zero (norm_task demo_task))\<lparr>StreamMsgID := ''i''\<rparr>))\<rparr>"
  have set: "set_metadata (active demo_server 0) demo_held v = (Ret D, v)" for v :: mem
    by (simp add: set_metadata_def D_def go_return_def)
  have now: "go_lift (clock mem_env) checked_mem = (Ret 0, checked_mem)"
    by (simp add: go_lift_def checked_mem_def held_mem_def pending_mem_def empty_mem_def)
  have upd: "update_store demo_server D v = (Ret (), v)" for v
    by (simp add: update_store_def demo_store_def go_bind_Ret go_return_def)
  have ty: "Type D = ''email:send''" by (simp add: D_def demo_task_def norm_task_def with_message_id_def)
  have boom: "run_handler demo_failing D v = (Ret (Some (ErrText ''boom''), D), v)" for v
    by (simp add: run_handler_def go_bind_lift demo_failing_def go_return_def)
  have "processTask (clock mem_env) 0 demo_server demo_held held_mem = (Ret (Some ErrTaskRetried), failed_mem)"
    unfolding processTask_def
    by (simp add: go_bind_Ret demo_check set now upd ty boom demo_handles [folded D_def failed_mem_def] del: mem_env_sel with_message_id_sel)
  then show ?thesis
    by (simp add: processMessage_def demo_stream_message_def demo_task_reads go_bind_Ret go_return_def del: with_message_id_sel)
qed

lemma failed_mem_sel:
  "m_sets failed_mem = (\<lambda>_. [])(queuesKey := [''critical''])" "m_faults failed_mem = []" "m_now failed_mem = 0"
  "m_streams failed_mem = (\<lambda>_. [])" "m_zsets failed_mem = (\<lambda>_. [])(retryKey ''critical'' := [(JsonText (json_task (retried demo_failed)), 1)])"
  by (simp_all add: failed_mem_def checked_mem_def held_mem_def pending_mem_def empty_mem_def fun_eq_iff)

text \<open>A second later the time of the next attempt has come.\<close>

definition second_mem :: mem where
  "second_mem = failed_mem\<lparr>m_now := Second\<rparr>"

lemma second_mem_sel:
  "mem_db second_mem = mem_db failed_mem" "sets (mem_db failed_mem) queuesKey = {''critical''}"
  "steady_mem second_mem \<and> Second \<le> m_now second_mem"
  "zsets (mem_db failed_mem) (scheduledPrefix @ q) = Map.empty"
  "zsets (mem_db failed_mem) (retryPrefix @ q) =
     (if q = ''critical'' then [JsonText (json_task (retried demo_failed)) \<mapsto> 1] else Map.empty)"
  by (simp_all add: second_mem_def mem_db_zsets [symmetric] failed_mem_sel retryKey_def steady_mem_def healthy_def
      time_printable_def unix_def Second_def) (simp_all add: mem_db_def failed_mem_sel)

lemma second_mem_movable: "all_movable mem_env (mem_db second_mem)"
proof -
  obtain j where "lua_set_pending (json_task (retried demo_failed)) = Some j" using lua_set_pending_task by blast
  then show ?thesis
    by (auto simp: all_movable_def movable_def task_sets_def second_mem_sel lua_pending_def)
qed

theorem failed_task_comes_back_witness:
  "\<exists>w2 w4 i t'. processMessage mem_env DefaultConsumerConfig (processTask (clock mem_env) 0 demo_server) ''critical'' demo_stream_message held_mem =
      (Ret (Some ErrTaskRetried), w2) \<and>
    runScheduler (clock mem_env) demo_server [Tick] (w2\<lparr>m_now := Second\<rparr>) = (Ret (), w4) \<and>
    (i, t') \<in> set (ready (view DefaultConsumerConfig (mem_db w4) ''critical'')) \<and>
    ID t' = ''t1'' \<and> RetryCount (metadata_or_zero t') = 1"
proof -
  let ?cfg = DefaultConsumerConfig
  have t: "task_Queue demo_task = ''critical''" "ID demo_task = ''t1''" by (simp, simp add: demo_task_def)
  have steady: "steady_mem held_mem" using pending_mem_steady by (simp add: steady_mem_def healthy_def held_mem_def)
  have id: "xm_ID demo_stream_message = ''i''" by (simp add: demo_stream_message_def)
  have sound: "sound ''critical'' (norm_task demo_task)"
    using demo_good demo_lua_ok t by (intro sound_norm) (simp add: sound_def)
  have "\<not> gives_up (norm_task demo_task)"
    by (simp add: gives_up_def max_retry_def norm_task_def demo_task_def norm_options_def zero_options_def zero_metadata_def metadata_or_zero_def)
  have fails: "\<forall>d at v. fst (fst (demo_failing d ((with_message_id (xm_ID demo_stream_message) (norm_task demo_task))\<lparr>Metadata :=
      Some (active demo_server at ((metadata_or_zero (norm_task demo_task))\<lparr>StreamMsgID := xm_ID demo_stream_message\<rparr>))\<rparr>) v)) =
      Ret (Some (ErrText ''boom''))" by (simp add: demo_failing_def)
  have server: "0 < sint (srv_schedulerInterval demo_server)" "0 < srv_schedulerBatchSize demo_server"
    "mux_Handler (srv_mux demo_server) (Type (norm_task demo_task)) = Some demo_failing"
    by (simp_all add: demo_server_def NewServer_def WithServerStore_def DefaultSchedulerInterval_def DefaultSchedulerBatchSize_def dur_def
        Second_def mux_Handler_def norm_task_def demo_task_def)
  obtain w2 u e s where
    run: "processMessage mem_env ?cfg (processTask (clock mem_env) 0 demo_server) ''critical'' demo_stream_message held_mem = (Ret (Some ErrTaskRetried), w2)"
    and u: "next_attempt TaskStateRetry e (norm_task demo_task) u"
    and s: "retrying (view ?cfg (mem_db w2) ''critical'') (JsonText (json_task u)) = Some s"
    and comes: "\<forall>w3 es. (steady_mem w3 \<and> Second \<le> m_now w3) \<and> mem_db w3 = mem_db w2 \<and> ''critical'' \<in> sets (mem_db w3) queuesKey \<and>
       all_movable mem_env (mem_db w3) \<and> s \<le> unix Second \<and>
       backlog (mem_db w3) (unix Second) retryPrefix ''critical'' \<le> ticks es * nat (srv_schedulerBatchSize demo_server) \<longrightarrow>
       (\<exists>w4 i t'. runScheduler (clock mem_env) demo_server es w3 = (Ret (), w4) \<and> (i, t') \<in> set (ready (view ?cfg (mem_db w4) ''critical'')) \<and>
          canon_task t' = canon_task (norm_task (pending_again u)))"
    using failed_task_comes_back [OF mem_server.steady_server_axioms demo_server_sel(1) mem_scheduler.steady_scheduler_axioms [of Second]
        mem.cjson_codec_axioms steady demo_message_task _ sound \<open>\<not> gives_up _\<close> _ server(3) fails server(1,2), of checked_mem 0]
      demo_check id by auto
  have w2: "w2 = failed_mem" using run demo_fails by simp
  have "s = 1" using s by (simp add: w2 view_def mem_db_zsets [symmetric] failed_mem_sel split: if_splits)
  moreover have "backlog (mem_db failed_mem) 1 retryPrefix ''critical'' \<le> 1"
    by (auto simp: backlog_def due_def second_mem_sel)
  then have "backlog (mem_db failed_mem) 1 retryPrefix ''critical'' \<le> nat (srv_schedulerBatchSize demo_server)"
    using server(2) by linarith
  moreover have "unix Second = 1" by (simp add: unix_def Second_def)
  ultimately obtain w4 i t' where "runScheduler (clock mem_env) demo_server [Tick] second_mem = (Ret (), w4)"
    and "(i, t') \<in> set (ready (view ?cfg (mem_db w4) ''critical''))" and same: "canon_task t' = canon_task (norm_task (pending_again u))"
    using comes [rule_format, of second_mem "[Tick]"] second_mem_movable by (auto simp: w2 second_mem_sel)
  moreover obtain p where "t' = (norm_task (pending_again u))\<lparr>Payload := p\<rparr>" using same canon_task_eq by blast
  then have "ID t' = ''t1'' \<and> RetryCount (metadata_or_zero t') = 1"
    using u t by (simp add: next_attempt_def norm_task_def pending_again_def metadata_or_zero_def demo_task_def zero_metadata_def)
  ultimately show ?thesis using run by (auto simp: w2 second_mem_def)
qed

end
