(* ===== verification/System_Safety.thy ===== *)
theory System_Safety
  imports Task_Flow
begin

text \<open>
  The state machine of the whole program over the flow of tasks in \<open>Task_Flow\<close>: what each operation does
  to the queues, the steps, and the theorem that no task is lost.
\<close>

section \<open>Taking messages\<close>

text \<open>A message of the stream, in the hands of a consumer.\<close>

lemma stream_held:
  assumes "queue_ok q (view cfg d q)" and "(xm_ID msg, xm_Values msg) \<in> set (streams d (streamKey q))"
    and "xm_ID msg \<in> taken v" and "ready v = ready (view cfg d q)"
  shows "held_ok q v msg"
proof -
  have "xm_ID msg \<noteq> '''' \<and> sound q t \<and> (\<forall>u. (xm_ID msg, u) \<in> set (ready v) \<longrightarrow> u = t)" if "message_task msg = Some t" for t
  proof -
    let ?r = "ready (view cfg d q)"
    have "message_task \<lparr>xm_ID = xm_ID msg, xm_Values = xm_Values msg\<rparr> = Some t" using that by (cases msg) simp
    from tasks_of_mem [OF assms(2) this] have t: "(xm_ID msg, t) \<in> set ?r" by (simp add: view_def)
    moreover have "distinct (map fst ?r)" and "\<forall>(i, t) \<in> set ?r. i \<noteq> '''' \<and> sound q t"
      using assms(1) by (simp_all add: queue_ok_def)
    ultimately have "xm_ID msg \<noteq> '''' \<and> sound q t" and "\<forall>u. (xm_ID msg, u) \<in> set ?r \<longrightarrow> u = t"
      by (blast, meson eq_key_imp_eq_value)
    with assms(4) show ?thesis by simp
  qed
  with assms(3) show ?thesis by (simp add: held_ok_def)
qed

lemma unreadable_held: "message_task msg = None \<Longrightarrow> xm_ID msg \<in> taken v \<Longrightarrow> held_ok q v msg"
  by (simp add: held_ok_def)

lemma deliver_only_taken: "only_taken (view cfg d q) (view cfg (deliver g c kms d) q)"
  by (cases kms) (auto simp: only_taken_def view_def deliver_def split: if_splits)

lemma delivers_only_taken: "only_taken (view cfg d q) (view cfg (fold (deliver g c) res d) q)"
proof (induction res arbitrary: d)
  case (Cons kms res)
  from only_taken_trans [OF deliver_only_taken Cons.IH] show ?case by simp
qed simp

lemma delivers_taken:
  "(streamKey q, ms) \<in> set res \<Longrightarrow> xm_ID ` set ms \<subseteq> taken (view cfg (fold (deliver (Group cfg) c) res d) q)"
proof (induction res arbitrary: d)
  case (Cons kms res)
  show ?case
  proof (cases "kms = (streamKey q, ms)")
    case True
    then have "xm_ID ` set ms \<subseteq> taken (view cfg (deliver (Group cfg) c kms d) q)"
      by (auto simp: view_def deliver_def)
    moreover have "taken (view cfg (deliver (Group cfg) c kms d) q) \<subseteq>
        taken (view cfg (fold (deliver (Group cfg) c) res (deliver (Group cfg) c kms d)) q)"
      using delivers_only_taken [of cfg _ q] by (simp add: only_taken_def)
    ultimately show ?thesis by simp
  next
    case False
    with Cons.prems have "(streamKey q, ms) \<in> set res" by simp
    from Cons.IH [OF this] show ?thesis by simp
  qed
qed simp

text \<open>What reading and claiming hand out: pairs of a queue and a message.\<close>

definition handed_out :: "(string \<times> XMessage list) list \<Rightarrow> (string \<times> XMessage) list" where
  "handed_out res = concat (map (\<lambda>(k, ms). map (Pair (drop (length streamPrefix) k)) ms) res)"

lemma handed_out_iff: "(q, msg) \<in> set (handed_out res) \<longleftrightarrow>
    (\<exists>k ms. (k, ms) \<in> set res \<and> q = drop (length streamPrefix) k \<and> msg \<in> set ms)"
  by (force simp: handed_out_def)

lemma drop_streamKey [simp]: "drop (length streamPrefix) (streamKey q) = q"
  by (simp add: streamKey_def)

lemma read_new_held:
  assumes "\<And>q. queue_ok q (view cfg d q)" and "read_new_ok (Group cfg) (map streamKey queues) n d res"
    and "(q, msg) \<in> set (handed_out res)"
  shows "held_ok q (view cfg (fold (deliver (Group cfg) c) res d) q) msg"
proof -
  let ?v = "view cfg (fold (deliver (Group cfg) c) res d) q"
  from assms(3) obtain k ms where k: "(k, ms) \<in> set res" "q = drop (length streamPrefix) k" "msg \<in> set ms"
    unfolding handed_out_iff by blast
  with assms(2) have "k \<in> streamKey ` set queues" and ms: "ms = to_messages (take (nat n) (undelivered d k (Group cfg)))"
    by (auto simp: read_new_ok_def)
  with k have kq: "k = streamKey q" by auto
  from k(3) ms obtain i vs where msg: "msg = \<lparr>xm_ID = i, xm_Values = vs\<rparr>"
    and "(i, vs) \<in> set (take (nat n) (undelivered d k (Group cfg)))" by (auto simp: to_messages_def)
  then have "(i, vs) \<in> set (streams d (streamKey q))"
    using in_set_takeD by (fastforce simp: undelivered_def kq)
  moreover have "i \<in> taken ?v" using delivers_taken [of q ms res cfg c d] k(1,3) kq msg by force
  moreover have "ready ?v = ready (view cfg d q)" using delivers_only_taken [of cfg d q] by (simp add: only_taken_def)
  ultimately show ?thesis using stream_held [OF assms(1)] msg by simp
qed

lemma read_pending_held:
  assumes "queue_ok q (view cfg d q)" and "read_pending_ok (streamKey q) (Group cfg) c d ms" and "msg \<in> set ms"
  shows "held_ok q (view cfg d q) msg"
proof -
  from assms(2,3) have "pel d (streamKey q) (Group cfg) (xm_ID msg) = Some c"
    and vs: "xm_Values msg = (case map_of (streams d (streamKey q)) (xm_ID msg) of None \<Rightarrow> [] | Some vs \<Rightarrow> vs)"
    by (simp_all add: read_pending_ok_def)
  then have taken: "xm_ID msg \<in> taken (view cfg d q)" using assms(1) by (auto simp: queue_ok_def view_def)
  show ?thesis
  proof (cases "map_of (streams d (streamKey q)) (xm_ID msg)")
    case None
    with vs have "message_task msg = None" by (simp add: message_task_def)
    with taken show ?thesis by (rule unreadable_held [rotated])
  next
    case (Some us)
    with vs have "(xm_ID msg, xm_Values msg) \<in> set (streams d (streamKey q))" by (auto dest: map_of_SomeD)
    from stream_held [OF assms(1) this taken refl] show ?thesis by simp
  qed
qed

lemma claim_only_taken:
  assumes "claim_ok k g c d ms d'"
  shows "only_taken (view cfg d q) (view cfg d' q)"
  using assms by (force simp: claim_ok_def only_taken_def view_def split: if_splits)

lemma claim_held:
  assumes "queue_ok q (view cfg d q)" and "claim_ok (streamKey q) (Group cfg) c d ms d'" and "msg \<in> set ms"
  shows "held_ok q (view cfg d' q) msg"
proof -
  from assms(2,3) have "pel d (streamKey q) (Group cfg) (xm_ID msg) \<noteq> None"
    and stream: "(xm_ID msg, xm_Values msg) \<in> set (streams d (streamKey q))" by (auto simp: claim_ok_def)
  then have "xm_ID msg \<in> taken (view cfg d q)" using assms(1) by (auto simp: queue_ok_def view_def)
  with claim_only_taken [OF assms(2), of cfg q] have "xm_ID msg \<in> taken (view cfg d' q)"
    and "ready (view cfg d' q) = ready (view cfg d q)" by (auto simp: only_taken_def)
  from stream_held [OF assms(1) stream this] show ?thesis by simp
qed

section \<open>Tasks on their way\<close>

text \<open>Every queue is in order and keeps what consumers rely on, and no task has left but those in \<open>gone\<close>.\<close>

definition flows :: "string set \<Rightarrow> (string \<Rightarrow> queue_view) \<Rightarrow> (string \<Rightarrow> queue_view) \<Rightarrow> bool" where
  "flows gone v v' \<longleftrightarrow>
     (\<forall>q. queue_ok q (v' q) \<and> still_held (v q) (v' q) \<and> task_ids (v q) \<subseteq> gone \<union> task_ids (v' q))"

lemma flows_refl: "(\<And>q. queue_ok q (v q)) \<Longrightarrow> flows gone v v"
  by (simp add: flows_def)

lemma flows_upd:
  assumes "\<And>q. queue_ok q (v q)" and "queue_ok q x \<and> still_held (v q) x \<and> task_ids (v q) \<subseteq> gone \<union> task_ids x"
  shows "flows gone v (v(q := x))"
  using assms by (simp add: flows_def)

lemma fresh_id_view:
  "fresh_id d (streamKey q) i \<Longrightarrow> i \<noteq> '''' \<and> i \<notin> fst ` set (ready (view cfg d q)) \<and> i \<notin> taken (view cfg d q)"
  using tasks_of_ids [of "streams d (streamKey q)"] by (auto simp: fresh_id_def view_def)

text \<open>A task has arrived, or nothing has happened.\<close>

definition arrived :: "TaskProto \<Rightarrow> (string \<Rightarrow> queue_view) \<Rightarrow> (string \<Rightarrow> queue_view) \<Rightarrow> bool" where
  "arrived t v v' \<longleftrightarrow> flows {} v v' \<and> ID t \<in> task_ids (v' (task_Queue t))"

context redis_server
begin

lemma Schedule_failure:
  assumes "Schedule E t at w = (Ret (Some err), w')"
  shows "view cfg (db w') = view cfg (db w) \<or> view cfg (db w') = (view cfg (db w))(task_Queue t :=
    put_later (JsonText (json_task t)) (unix at) (view cfg (db w) (task_Queue t)))"
proof (cases "marshal_task t")
  case (Inl e)
  with assms show ?thesis by (simp add: Schedule_def)
next
  case (Inr j)
  then have j: "j = json_task t" by (simp add: marshal_Inr)
  let ?books = "[SAdd queuesKey (task_Queue t), HIncrBy (statsPrefix @ task_Queue t) ''scheduled'' 1]"
  let ?add = "ZAdd (scheduledKey (task_Queue t)) (unix at) (JsonText j)"
  from assms Inr obtain e where "pipe_exec E (?add # ?books) w = (Some e, w')"
    by (auto simp: Schedule_def Let_def task_Queue_def run_iff)
  from pipe_fail [OF this] obtain cs where cs: "commands_step cs (db w) (db w')" and "subseq cs (?add # ?books)" by blast
  then consider "subseq cs ?books" | cs' where "cs = ?add # cs'" "subseq cs' ?books"
    by (auto simp: subseq_Cons_iff [of _ "ZAdd k s m" for k s m])
  then show ?thesis
  proof cases
    case 1
    then have "list_all bookkeeping cs" by (rule subseq_list_all) simp
    with cs show ?thesis by (auto dest: bookkeeping_views)
  next
    case 2
    with cs obtain d where d: "d = command_eff '''' ?add (db w)" and cs': "commands_step cs' d (db w')"
      by (auto simp: command_step_simps)
    from 2(2) have "list_all bookkeeping cs'" by (rule subseq_list_all) simp
    with cs' have "view cfg (db w') = view cfg d" by (auto dest: bookkeeping_views)
    moreover have "view cfg d = (view cfg (db w))(task_Queue t :=
        put_later (JsonText (json_task t)) (unix at) (view cfg (db w) (task_Queue t)))"
      by (simp add: d j fun_eq_iff view_commands)
    ultimately show ?thesis by simp
  qed
qed

lemma Publish_arrives:
  assumes ok: "\<And>q. queue_ok q (view cfg (db w) q)" and t: "sound q t" and run: "Publish E q t w = (Ret r, w')"
  shows "(r \<noteq> None \<and> view cfg (db w') = view cfg (db w)) \<or> arrived t (view cfg (db w)) (view cfg (db w'))"
proof -
  have wf: "task_wf t" and q: "task_Queue t = q" using t by (simp_all add: sound_def task_good_def)
  have "(r \<noteq> None \<and> view cfg (db w') = view cfg (db w)) \<or> (\<exists>i. fresh_id (db w) (streamKey q) i \<and>
      view cfg (db w') = (view cfg (db w))(q := put_ready i (norm_task t) (view cfg (db w) q)))"
    using Publish_refines [OF wf, of q w w' cfg] Publish_failure [OF wf, of q w _ w' cfg] run by (cases r) auto
  moreover have "arrived t (view cfg (db w)) (view cfg (db w'))"
    if "fresh_id (db w) (streamKey q) i" and "view cfg (db w') = (view cfg (db w))(q := put_ready i (norm_task t) (view cfg (db w) q))" for i
  proof -
    from ready_flow [OF ok [of q] sound_norm [OF t]] fresh_id_view [OF that(1), of cfg]
    have new: "queue_ok q (put_ready i (norm_task t) (view cfg (db w) q)) \<and>
        still_held (view cfg (db w) q) (put_ready i (norm_task t) (view cfg (db w) q)) \<and>
        task_ids (view cfg (db w) q) \<subseteq> task_ids (put_ready i (norm_task t) (view cfg (db w) q)) \<and>
        ID t \<in> task_ids (put_ready i (norm_task t) (view cfg (db w) q))" by simp
    with flows_upd [of "view cfg (db w)" q _ "{}", OF ok] q that(2) show ?thesis by (simp add: arrived_def)
  qed
  ultimately show ?thesis by blast
qed

lemma Schedule_arrives:
  assumes ok: "\<And>q. queue_ok q (view cfg (db w) q)" and t: "sound q t" and run: "Schedule E t at w = (Ret r, w')"
  shows "(r \<noteq> None \<and> view cfg (db w') = view cfg (db w)) \<or> arrived t (view cfg (db w)) (view cfg (db w'))"
proof -
  let ?new = "put_later (JsonText (json_task t)) (unix at) (view cfg (db w) q)"
  have q: "task_Queue t = q" using t by (simp add: sound_def)
  have "(r \<noteq> None \<and> view cfg (db w') = view cfg (db w)) \<or> view cfg (db w') = (view cfg (db w))(q := ?new)"
  proof (cases r)
    case None
    from Schedule_refines [OF run [unfolded None], of cfg] q show ?thesis by (auto simp: marshal_Inr)
  next
    case (Some e)
    from Schedule_failure [OF run [unfolded Some], of cfg] q Some show ?thesis by simp
  qed
  moreover have "arrived t (view cfg (db w)) (view cfg (db w'))" if "view cfg (db w') = (view cfg (db w))(q := ?new)"
    using later_flow [OF ok [of q] t, of "unix at"] flows_upd [of "view cfg (db w)" q ?new "{}", OF ok] q that
    by (simp add: arrived_def)
  ultimately show ?thesis by blast
qed

end

context deployment
begin

lemma hand_over_arrives:
  assumes ok: "\<And>q. queue_ok q (view cfg (db w) q)" and t: "sound q t"
    and run: "hand_over (deployed_client E cfg D) t sched w = (Ret (failed, u), w')"
  shows "(failed \<noteq> None \<and> view cfg (db w') = view cfg (db w)) \<or> arrived t (view cfg (db w)) (view cfg (db w'))"
proof -
  obtain m where m: "Metadata t = Some m"
    using run by (cases "Metadata t") (auto simp: hand_over_def set_metadata_def split: option.splits)
  have sound: "sound q (t\<lparr>Metadata := Some (m\<lparr>State := st\<rparr>)\<rparr>)" for st
    using t m by (intro sound_metadata) (auto simp: sound_def task_good_iff metadata_good_def)
  have same: "arrived (t\<lparr>Metadata := M\<rparr>) v v' = arrived t v v'" for M v v'
    by (simp add: arrived_def task_Queue_def)
  show ?thesis
  proof (cases sched)
    case None
    then obtain r where "Publish E q (t\<lparr>Metadata := Some (m\<lparr>State := TaskStatePending\<rparr>)\<rparr>) w = (Ret r, w')"
      and "failed = map_option (ErrWrap ''failed to enqueue task: '') r"
      using run m t by (auto simp: hand_over_def set_metadata_def go_bind_Ret_iff sound_def task_Queue_def)
    with Publish_arrives [OF ok sound this(1)] show ?thesis by (simp add: same)
  next
    case (Some at)
    then obtain r where "Schedule E (t\<lparr>Metadata := Some (m\<lparr>State := TaskStateScheduled\<rparr>)\<rparr>) at w = (Ret r, w')"
      and "failed = map_option (ErrWrap ''failed to schedule task: '') r"
      using run m by (auto simp: hand_over_def set_metadata_def go_bind_Ret_iff)
    with Schedule_arrives [OF ok sound this(1)] show ?thesis by (simp add: same)
  qed
qed

lemma Enqueue_arrives:
  assumes ok: "\<And>q. queue_ok q (view cfg (db w) q)" and t: "sound q t"
    and run: "Enqueue (clock E) (deployed_client E cfg D) (Some t) w = (Ret (res, t'), w')"
  shows "((\<exists>e. res = Inl e) \<and> view cfg (db w') = view cfg (db w)) \<or> arrived t (view cfg (db w)) (view cfg (db w'))"
proof -
  let ?C = "deployed_client E cfg D"
  from run obtain refused w1 where 1: "check_unique ?C t w = (Ret refused, w1)"
    by (auto simp: Enqueue_def go_bind_Ret_iff)
  have v1: "view cfg (db w1) = view cfg (db w)" by (rule client.check_unique_view [OF 1])
  show ?thesis
  proof (cases refused)
    case (Some e)
    with run 1 v1 show ?thesis by (auto simp: Enqueue_def go_bind_Ret)
  next
    case None
    with run 1 obtain sched w2 failed u w3 where 2: "scheduled_for (clock E) t w1 = (Ret sched, w2)"
      and 3: "hand_over ?C t sched w2 = (Ret (failed, u), w3)"
      and 4: "(case failed of Some err \<Rightarrow> go_return (Inl err, Some u)
          | None \<Rightarrow> go_bind (save_task ?C u) (\<lambda>_. go_return (Inr \<lparr>ti_ID = ID u, ti_Queue = task_Queue u,
              ti_State = task_State u, ti_ProcessAt = sched\<rparr>, Some u))) w3 = (Ret (res, t'), w')"
      by (auto simp: Enqueue_def go_bind_Ret_iff)
    have v2: "view cfg (db w2) = view cfg (db w)" using client.scheduled_for_view [OF 2] v1 by simp
    have hand: "(failed \<noteq> None \<and> view cfg (db w3) = view cfg (db w)) \<or> arrived t (view cfg (db w)) (view cfg (db w3))"
      using hand_over_arrives [of cfg w2, OF _ t 3] ok v2 by simp
    show ?thesis
    proof (cases failed)
      case (Some e)
      with 4 hand show ?thesis by auto
    next
      case None
      with 4 obtain x where "save_task ?C u w3 = (Ret x, w')" by (auto simp: go_bind_Ret_iff)
      from client.save_task_view [OF this] None hand show ?thesis by simp
    qed
  qed
qed

end

text \<open>The scheduler.\<close>

lemma moved_entries_fresh:
  "moved_entries E ms d (streamKey q) es \<Longrightarrow> fresh_entries (view cfg d q) es"
  unfolding moved_entries_def fresh_entries_def using fresh_id_view by blast

lemma moved_later_flows:
  assumes "cjson_codec E" and ok: "\<And>q. queue_ok q (view cfg d q)" and moved: "moved E scheduledPrefix ms d d'"
    and "\<And>q. set (ms q) \<subseteq> dom (later (view cfg d q))"
  shows "flows {} (view cfg d) (view cfg d')"
  unfolding flows_def
proof
  fix q
  from moved_scheduled_view [OF moved, of q cfg] obtain es where es: "moved_entries E (ms q) d (streamKey q) es"
    and v: "view cfg d' q = (view cfg d q)\<lparr>ready := ready (view cfg d q) @ tasks_of es,
      later := later (view cfg d q) |` (- set (ms q))\<rparr>" by blast
  from move_later_flow [OF assms(1) ok moved_entries_fresh [OF es] assms(4)] es v
  show "queue_ok q (view cfg d' q) \<and> still_held (view cfg d q) (view cfg d' q) \<and>
      task_ids (view cfg d q) \<subseteq> {} \<union> task_ids (view cfg d' q)" by (simp add: moved_entries_def)
qed

lemma moved_retrying_flows:
  assumes "cjson_codec E" and ok: "\<And>q. queue_ok q (view cfg d q)" and moved: "moved E retryPrefix ms d d'"
    and "\<And>q. set (ms q) \<subseteq> dom (retrying (view cfg d q))"
  shows "flows {} (view cfg d) (view cfg d')"
  unfolding flows_def
proof
  fix q
  from moved_retry_view [OF moved, of q cfg] obtain es where es: "moved_entries E (ms q) d (streamKey q) es"
    and v: "view cfg d' q = (view cfg d q)\<lparr>ready := ready (view cfg d q) @ tasks_of es,
      retrying := retrying (view cfg d q) |` (- set (ms q))\<rparr>" by blast
  from move_retrying_flow [OF assms(1) ok moved_entries_fresh [OF es] assms(4)] es v
  show "queue_ok q (view cfg d' q) \<and> still_held (view cfg d q) (view cfg d' q) \<and>
      task_ids (view cfg d q) \<subseteq> {} \<union> task_ids (view cfg d' q)" by (simp add: moved_entries_def)
qed

lemma zrange_dom: "zrange_ok z hi limit ms \<Longrightarrow> set ms \<subseteq> dom z"
  by (auto simp: zrange_ok_def)

context deployment
begin

lemma EnqueueScheduled_flows:
  assumes ok: "\<And>q. queue_ok q (view cfg (db w) q)" and "EnqueueScheduled E until limit w = (Ret (Inr n), w')"
  shows "flows {} (view cfg (db w)) (view cfg (db w'))"
proof -
  from EnqueueScheduled_moved [OF assms(2), of cfg] obtain ms queues where "moved E scheduledPrefix ms (db w) (db w')"
    and "\<forall>q. q \<notin> set queues \<longrightarrow> ms q = []"
    and "\<forall>q \<in> set queues. zrange_ok (later (view cfg (db w) q)) (unix until) limit (ms q)" by blast
  moreover from this have "set (ms q) \<subseteq> dom (later (view cfg (db w) q))" for q
    using zrange_dom by (cases "q \<in> set queues") (blast, simp)
  ultimately show ?thesis using moved_later_flows [OF cjson_codec_axioms ok] by blast
qed

lemma EnqueueRetry_flows:
  assumes ok: "\<And>q. queue_ok q (view cfg (db w) q)" and "EnqueueRetry E until limit w = (Ret (Inr n), w')"
  shows "flows {} (view cfg (db w)) (view cfg (db w'))"
proof -
  from EnqueueRetry_moved [OF assms(2), of cfg] obtain ms queues where "moved E retryPrefix ms (db w) (db w')"
    and "\<forall>q. q \<notin> set queues \<longrightarrow> ms q = []"
    and "\<forall>q \<in> set queues. zrange_ok (retrying (view cfg (db w) q)) (unix until) limit (ms q)" by blast
  moreover from this have "set (ms q) \<subseteq> dom (retrying (view cfg (db w) q))" for q
    using zrange_dom by (cases "q \<in> set queues") (blast, simp)
  ultimately show ?thesis using moved_retrying_flows [OF cjson_codec_axioms ok] by blast
qed

text \<open>Dead tasks.\<close>

lemma dlq_key_apart: "scheduledKey q \<noteq> dlqKey q'" "retryKey q \<noteq> dlqKey q'"
  by (simp_all add: prefix_defs scheduledKey_def retryKey_def dlqKey_def)

lemma RetryFromDLQ_flows:
  assumes ok: "\<And>q. queue_ok q (view cfg (db w) q)" and "I w" and run: "RetryFromDLQ E q tid w = (Ret None, w')"
  shows "flows {} (view cfg (db w)) (view cfg (db w'))"
proof -
  let ?v = "view cfg (db w) q"
  from RetryFromDLQ_revives_fresh [OF run, of cfg] obtain i t m j where
    found: "List.find (\<lambda>(i, t). ID t = tid) (dead ?v) = Some (i, t)" and m: "Metadata t = Some m"
    and j: "fresh_id (db w) (streamKey q) j"
    and v: "view cfg (db w') = (view cfg (db w))(q := put_ready j (norm_task (revived t m)) (drop_dead i ?v))" by blast
  have dist: "distinct (map fst (dead ?v))" using ids_unique [OF assms(2)] tasks_of_distinct by (simp add: view_def)
  from found have "(i, t) \<in> set (dead ?v)" by (rule find_split(1) [OF _ dist])
  from revive_flow [OF ok dist this m] fresh_id_view [OF j, of cfg] show ?thesis
    unfolding v by (intro flows_upd [of "view cfg (db w)", OF ok]) simp
qed

lemma PurgeDLQ_flows:
  assumes ok: "\<And>q. queue_ok q (view cfg (db w) q)" and run: "PurgeDLQ E q w = (Ret None, w')"
  shows "flows (ID ` snd ` set (dead (view cfg (db w) q))) (view cfg (db w)) (view cfg (db w'))"
proof -
  from run have "command_step (Del (dlqKey q)) (db w) (db w')" by (auto simp: PurgeDLQ_def go_lift_iff dest: do_ok)
  then have "view cfg (db w') = (view cfg (db w))(q := (view cfg (db w) q)\<lparr>dead := []\<rparr>)"
    by (simp add: command_step_simps db_simps view_def fun_eq_iff dlq_key_apart)
  with purge_flow [OF ok [of q]] show ?thesis by (simp add: flows_upd [of "view cfg (db w)", OF ok])
qed

end

text \<open>The server.\<close>

context deployed_server
begin

lemma handle_flows:
  assumes ok: "\<And>q. queue_ok q (view cfg (db w) q)" and "I w" and held: "held_ok q (view cfg (db w) q) msg"
    and run: "processMessage E cfg (processTask (clock E) big S) q msg w = (Ret r, w')"
  shows "flows (case message_task msg of Some t \<Rightarrow> if r = None then {ID t} else {} | None \<Rightarrow> {})
    (view cfg (db w)) (view cfg (db w'))"
proof (cases "message_task msg")
  case None
  let ?v = "view cfg (db w) q"
  from unreadable_runs [OF None assms(2), of cfg "processTask (clock E) big S" q] run
  have "view cfg (db w') = (view cfg (db w))(q := ?v\<lparr>unacked := (unacked ?v)(xm_ID msg := None)\<rparr>)" by auto
  moreover have "only_taken ?v (?v\<lparr>unacked := (unacked ?v)(xm_ID msg := None)\<rparr>)" by (auto simp: only_taken_def)
  from only_taken_flow [OF this ok] None show ?thesis
    unfolding calculation by (intro flows_upd [of "view cfg (db w)", OF ok]) simp
next
  case (Some t)
  with held have t: "xm_ID msg \<noteq> ''''" "task_Queue t = q" by (simp_all add: held_ok_def sound_def)
  from server.processMessage_settles [OF server_broker assms(2) Some t(1), of big] t(2) run
  have "message_settled (xm_ID msg) t r (view cfg (db w)) (view cfg (db w'))" by auto
  note settled = settled_flow [of q "view cfg (db w)" msg t r "view cfg (db w')", OF ok held Some this]
  have "flows (if r = None then {ID t} else {}) (view cfg (db w)) ((view cfg (db w))(q := view cfg (db w') q))"
    using settled(2-4) by (intro flows_upd [of "view cfg (db w)", OF ok]) blast
  with settled(1) Some show ?thesis by simp
qed

end

section \<open>The machine\<close>

text \<open>
  The state: the world with Redis and the database, the messages that consumers have in their memory, and
  what has become of the identifiers that were handed in: finished when the message was handled and
  acknowledged, discarded when the dead letter queue was emptied with the task in it.
\<close>

record 'w system =
  world :: 'w
  held :: "(string \<times> XMessage) list"
  handed :: "string set"
  finished :: "string set"
  discarded :: "string set"

text \<open>A task that a client may hand in: it can be printed and is within what cjson keeps.\<close>

definition sendable :: "TaskProto \<Rightarrow> bool" where
  "sendable t \<longleftrightarrow> task_good t \<and> lua_ok (json_task t)"

definition done_with :: "XMessage \<Rightarrow> go_error option \<Rightarrow> string set" where
  "done_with msg r = (case message_task msg of Some t \<Rightarrow> if r = None then {ID t} else {} | None \<Rightarrow> {})"

text \<open>
  One step is one call of an operation of the model that returns. Enqueueing and reading may fail in any
  way; where an operation is more than one command and not a transaction (handling, reviving) the services
  answer (\<open>up\<close>), and the scheduler's script runs to its end. A consumer can forget what it holds at any
  time, messages can be handed out again to any consumer, and any server of the group handles them. What a
  purge discards is what \<open>GetDLQ\<close> lists just before.
\<close>

inductive system_step ::
  "'w env \<Rightarrow> 'w sql \<Rightarrow> ConsumerConfig \<Rightarrow> ('w Server \<Rightarrow> bool) \<Rightarrow> ('w \<Rightarrow> bool) \<Rightarrow> 'w system \<Rightarrow> 'w system \<Rightarrow> bool"
  for E D cfg server up
where
  enqueued: "sendable t \<Longrightarrow> Enqueue (clock E) (deployed_client E cfg D) (Some t) (world s) = (Ret (Inr info, t'), w') \<Longrightarrow>
    system_step E D cfg server up s (s\<lparr>world := w', handed := insert (ID t) (handed s)\<rparr>)"
| refused: "sendable t \<Longrightarrow> Enqueue (clock E) (deployed_client E cfg D) (Some t) (world s) = (Ret (Inl e, t'), w') \<Longrightarrow>
    system_step E D cfg server up s (s\<lparr>world := w'\<rparr>)"
| read: "x_read_group E (Group cfg) c (map (\<lambda>k. (k, ''>'')) (map streamKey queues)) n block (world s) = (Inr res, w') \<Longrightarrow>
    system_step E D cfg server up s (s\<lparr>world := w', held := held s @ handed_out res\<rparr>)"
| read_failed: "x_read_group E (Group cfg) c (map (\<lambda>k. (k, ''>'')) (map streamKey queues)) n block (world s) = (Inl e, w') \<Longrightarrow>
    system_step E D cfg server up s (s\<lparr>world := w'\<rparr>)"
| reread: "x_read_group E (Group cfg) c [(streamKey q, ''0'')] n None (world s) = (Inr res, w') \<Longrightarrow>
    system_step E D cfg server up s (s\<lparr>world := w', held := held s @ handed_out res\<rparr>)"
| claimed: "x_auto_claim E (streamKey q) (Group cfg) c idle start n (world s) = (Inr ms, w') \<Longrightarrow>
    system_step E D cfg server up s (s\<lparr>world := w', held := held s @ map (Pair q) ms\<rparr>)"
| handled: "up (world s) \<Longrightarrow> server S \<Longrightarrow> (q, msg) \<in> set (held s) \<Longrightarrow>
    processMessage E cfg (processTask (clock E) big S) q msg (world s) = (Ret r, w') \<Longrightarrow>
    system_step E D cfg server up s
      (s\<lparr>world := w', held := remove1 (q, msg) (held s), finished := finished s \<union> done_with msg r\<rparr>)"
| crashed: "set kept \<subseteq> set (held s) \<Longrightarrow> system_step E D cfg server up s (s\<lparr>held := kept\<rparr>)"
| scheduled: "EnqueueScheduled E until limit (world s) = (Ret (Inr n), w') \<Longrightarrow>
    system_step E D cfg server up s (s\<lparr>world := w'\<rparr>)"
| retries: "EnqueueRetry E until limit (world s) = (Ret (Inr n), w') \<Longrightarrow>
    system_step E D cfg server up s (s\<lparr>world := w'\<rparr>)"
| revive: "up (world s) \<Longrightarrow> RetryFromDLQ E q tid (world s) = (Ret None, w') \<Longrightarrow>
    system_step E D cfg server up s (s\<lparr>world := w'\<rparr>)"
| purge: "GetDLQ E q 0 (world s) = (Ret (Inr ts), w1) \<Longrightarrow> PurgeDLQ E q w1 = (Ret None, w') \<Longrightarrow>
    system_step E D cfg server up s (s\<lparr>world := w', discarded := discarded s \<union> ID ` set ts\<rparr>)"

text \<open>It starts with nothing in any queue of the group.\<close>

definition no_tasks :: queue_view where
  "no_tasks = \<lparr>ready = [], dead = [], later = Map.empty, retrying = Map.empty, unacked = Map.empty, taken = {}\<rparr>"

inductive system_reachable ::
  "'w env \<Rightarrow> 'w sql \<Rightarrow> ConsumerConfig \<Rightarrow> ('w Server \<Rightarrow> bool) \<Rightarrow> ('w \<Rightarrow> bool) \<Rightarrow> 'w \<Rightarrow> 'w system \<Rightarrow> bool"
  for E D cfg server up w
where
  start: "system_reachable E D cfg server up w \<lparr>world = w, held = [], handed = {}, finished = {}, discarded = {}\<rparr>"
| step: "system_reachable E D cfg server up w s \<Longrightarrow> system_step E D cfg server up s s' \<Longrightarrow>
    system_reachable E D cfg server up w s'"

text \<open>The invariant.\<close>

definition nothing_lost :: "(string \<Rightarrow> queue_view) \<Rightarrow> 'w system \<Rightarrow> bool" where
  "nothing_lost v s \<longleftrightarrow> (\<forall>q. queue_ok q (v q)) \<and> (\<forall>(q, msg) \<in> set (held s). held_ok q (v q) msg) \<and>
     handed s \<subseteq> finished s \<union> discarded s \<union> (\<Union>q. task_ids (v q))"

lemma nothing_lost_start: "nothing_lost (\<lambda>q. no_tasks) \<lparr>world = w, held = [], handed = {}, finished = {}, discarded = {}\<rparr>"
  by (simp add: nothing_lost_def no_tasks_def queue_ok_def)

lemma nothing_lost_flows:
  assumes inv: "nothing_lost v s" and "flows gone v v'" and "gone \<subseteq> finished s' \<union> discarded s'"
    and "finished s \<subseteq> finished s'" and "discarded s \<subseteq> discarded s'"
    and "handed s' \<subseteq> handed s \<union> (\<Union>q. task_ids (v' q))"
    and "\<And>q msg. (q, msg) \<in> set (held s') \<Longrightarrow> (q, msg) \<in> set (held s) \<or> held_ok q (v' q) msg"
  shows "nothing_lost v' s'"
  unfolding nothing_lost_def
proof (intro conjI)
  show "\<forall>q. queue_ok q (v' q)" using assms(2) by (simp add: flows_def)
  have "held_ok q (v' q) msg" if "(q, msg) \<in> set (held s')" for q msg
    using assms(7) [OF that] inv assms(2) held_still unfolding nothing_lost_def flows_def by blast
  then show "\<forall>(q, msg) \<in> set (held s'). held_ok q (v' q) msg" by blast
  define there where "there = (\<Union>q. task_ids (v q))"
  define there' where "there' = (\<Union>q. task_ids (v' q))"
  have "task_ids (v q) \<subseteq> gone \<union> task_ids (v' q)" for q using assms(2) by (simp add: flows_def)
  then have "there \<subseteq> gone \<union> there'" unfolding there_def there'_def by blast
  moreover have "handed s \<subseteq> finished s \<union> discarded s \<union> there" using inv by (simp add: nothing_lost_def there_def)
  moreover have "handed s' \<subseteq> handed s \<union> there'" using assms(6) by (simp add: there'_def)
  ultimately have "handed s' \<subseteq> finished s' \<union> discarded s' \<union> there'" using assms(3-5) by blast
  then show "handed s' \<subseteq> finished s' \<union> discarded s' \<union> (\<Union>q. task_ids (v' q))" by (simp add: there'_def)
qed

lemma only_taken_flows: "(\<And>q. queue_ok q (v q)) \<Longrightarrow> (\<And>q. only_taken (v q) (v' q)) \<Longrightarrow> flows {} v v'"
  by (simp add: flows_def) (meson only_taken_flow)

context deployment
begin

lemma step_loses_nothing:
  assumes servers: "\<And>S. server S \<Longrightarrow> deployed_server E db clk I D tbl ts jsonb S cfg"
    and "system_step E D cfg server I s s'" and "nothing_lost (view cfg (db (world s))) s"
  shows "nothing_lost (view cfg (db (world s'))) s'"
  using assms(2,3)
proof cases
  case (enqueued t info t' w')
  have ok: "queue_ok q (view cfg (db (world s)) q)" for q using assms(3) by (simp add: nothing_lost_def)
  from enqueued(2) have "sound (task_Queue t) t" by (simp add: sendable_def sound_def)
  from Enqueue_arrives [OF ok this enqueued(3)] have "arrived t (view cfg (db (world s))) (view cfg (db w'))" by blast
  then show ?thesis unfolding enqueued(1)
    by (intro nothing_lost_flows [OF assms(3), of "{}"]) (auto simp: arrived_def)
next
  case (refused t e t' w')
  have ok: "queue_ok q (view cfg (db (world s)) q)" for q using assms(3) by (simp add: nothing_lost_def)
  from refused(2) have "sound (task_Queue t) t" by (simp add: sendable_def sound_def)
  from Enqueue_arrives [OF ok this refused(3)] have "flows {} (view cfg (db (world s))) (view cfg (db w'))"
    using flows_refl [of "view cfg (db (world s))", OF ok] by (auto simp: arrived_def)
  then show ?thesis unfolding refused(1) by (intro nothing_lost_flows [OF assms(3), of "{}"]) auto
next
  case (read c queues n block res w')
  have ok: "queue_ok q (view cfg (db (world s)) q)" for q using assms(3) by (simp add: nothing_lost_def)
  from read_new_ok [OF read(2)] have res: "read_new_ok (Group cfg) (map streamKey queues) n (db (world s)) res"
    and w': "db w' = fold (deliver (Group cfg) c) res (db (world s))" by blast+
  have "flows {} (view cfg (db (world s))) (view cfg (db w'))"
    unfolding w' by (rule only_taken_flows [OF ok delivers_only_taken])
  then show ?thesis unfolding read(1)
    using read_new_held [of cfg "db (world s)", OF ok res, of _ _ c]
    by (intro nothing_lost_flows [OF assms(3), of "{}"]) (auto simp: w')
next
  case (read_failed c queues n block e w')
  have ok: "queue_ok q (view cfg (db (world s)) q)" for q using assms(3) by (simp add: nothing_lost_def)
  from read_new_fail [OF read_failed(2)] have "only_taken (view cfg (db (world s)) q) (view cfg (db w') q)" for q
    using delivers_only_taken by fastforce
  from only_taken_flows [OF ok this] show ?thesis unfolding read_failed(1)
    by (intro nothing_lost_flows [OF assms(3), of "{}"]) auto
next
  case (reread c q n res w')
  have ok: "queue_ok q (view cfg (db (world s)) q)" for q using assms(3) by (simp add: nothing_lost_def)
  from read_pending_ok [OF reread(2)] obtain ms where w': "db w' = db (world s)" and res: "res = [(streamKey q, ms)]"
    and ms: "read_pending_ok (streamKey q) (Group cfg) c (db (world s)) ms" by blast
  have "flows {} (view cfg (db (world s))) (view cfg (db w'))" unfolding w' by (rule flows_refl) (rule ok)
  then show ?thesis unfolding reread(1)
    using read_pending_held [OF ok ms] by (intro nothing_lost_flows [OF assms(3), of "{}"]) (auto simp: w' res handed_out_def)
next
  case (claimed q c idle start n ms w')
  have ok: "queue_ok q (view cfg (db (world s)) q)" for q using assms(3) by (simp add: nothing_lost_def)
  from claim_ok [OF claimed(2)] have ms: "claim_ok (streamKey q) (Group cfg) c (db (world s)) ms (db w')" by blast
  from only_taken_flows [OF ok claim_only_taken [OF ms]] show ?thesis unfolding claimed(1)
    using claim_held [OF ok ms] by (intro nothing_lost_flows [OF assms(3), of "{}"]) auto
next
  case (handled S q msg big r w')
  have ok: "queue_ok q (view cfg (db (world s)) q)" for q using assms(3) by (simp add: nothing_lost_def)
  have held: "held_ok q (view cfg (db (world s)) q) msg" using handled(4) assms(3) by (auto simp: nothing_lost_def)
  from deployed_server.handle_flows [OF servers [OF handled(3)] ok handled(2) held handled(5)]
  show ?thesis unfolding handled(1)
    by (intro nothing_lost_flows [OF assms(3), of "done_with msg r"]) (use set_remove1_subset [of "(q, msg)" "held s"] in \<open>auto simp: done_with_def\<close>)
next
  case (crashed kept)
  then show ?thesis using assms(3) by (auto simp: nothing_lost_def)
next
  case (scheduled until limit n w')
  have ok: "queue_ok q (view cfg (db (world s)) q)" for q using assms(3) by (simp add: nothing_lost_def)
  from EnqueueScheduled_flows [OF ok scheduled(2)] show ?thesis unfolding scheduled(1)
    by (intro nothing_lost_flows [OF assms(3), of "{}"]) auto
next
  case (retries until limit n w')
  have ok: "queue_ok q (view cfg (db (world s)) q)" for q using assms(3) by (simp add: nothing_lost_def)
  from EnqueueRetry_flows [OF ok retries(2)] show ?thesis unfolding retries(1)
    by (intro nothing_lost_flows [OF assms(3), of "{}"]) auto
next
  case (revive q tid w')
  have ok: "queue_ok q (view cfg (db (world s)) q)" for q using assms(3) by (simp add: nothing_lost_def)
  from RetryFromDLQ_flows [OF ok revive(2,3)] show ?thesis unfolding revive(1)
    by (intro nothing_lost_flows [OF assms(3), of "{}"]) auto
next
  case (purge q dts w1 w')
  from GetDLQ_result [OF purge(2), of cfg] have w1: "db w1 = db (world s)"
    and dts: "dts = map snd (dead (view cfg (db (world s)) q))" by simp_all
  have ok: "queue_ok q (view cfg (db w1) q)" for q using assms(3) by (simp add: nothing_lost_def w1)
  from PurgeDLQ_flows [OF ok purge(3)] have "flows (ID ` set dts) (view cfg (db (world s))) (view cfg (db w'))"
    by (simp add: w1 dts image_image)
  then show ?thesis unfolding purge(1) by (intro nothing_lost_flows [OF assms(3)]) auto
qed

lemma reachable_loses_nothing:
  assumes "\<And>S. server S \<Longrightarrow> deployed_server E db clk I D tbl ts jsonb S cfg"
    and "system_reachable E D cfg server I w s" and "\<And>q. view cfg (db w) q = no_tasks"
  shows "nothing_lost (view cfg (db (world s))) s"
  using assms(2)
proof induction
  case start
  have "view cfg (db w) = (\<lambda>q. no_tasks)" using assms(3) by blast
  with nothing_lost_start show ?case by simp
next
  case (step s s')
  then show ?case using step_loses_nothing [OF assms(1)] by blast
qed

end


lemma demo_sendable: "sendable demo_stored"
proof -
  have "task_good demo_stored"
    using demo_good by (simp add: task_good_iff demo_stored_def payload_valid_def)
  moreover have "lua_ok (json_task demo_stored)"
    by (simp add: lua_ok_def json_task_def demo_stored_def demo_task_def json_options_def json_metadata_def str_field_def
        int_field_def time_field_def labels_field_def payload_field_def zero_options_def zero_metadata_def lua_exact_JObj
        json_depth_JObj [where n = 999, simplified] json_depth.simps dur_def TaskStatePending_def)
  ultimately show ?thesis by (simp add: sendable_def)
qed

lemma pair_empty_views: "view DefaultConsumerConfig (mem_db (fst pair_empty)) q = no_tasks"
  by (simp add: pair_empty_def view_def no_tasks_def empty_mem_def mem_db_def)

definition is_pair_server :: "mem_world Server \<Rightarrow> bool" where
  "is_pair_server S \<longleftrightarrow> S = pair_server"

lemma pair_servers: "is_pair_server S \<Longrightarrow> deployed_server pair_env (\<lambda>w. mem_db (fst w)) (\<lambda>w. m_now (fst w))
    (\<lambda>w. steady_mem (fst w)) pair_sql (\<lambda>w. map_of (snd w)) id id S DefaultConsumerConfig"
  unfolding is_pair_server_def using pair_server.deployed_server_axioms by simp

text \<open>One task handed in.\<close>

lemma demo_reachable:
  "\<exists>w. system_reachable pair_env pair_sql DefaultConsumerConfig is_pair_server (\<lambda>w. steady_mem (fst w)) pair_empty
     \<lparr>world = w, held = [], handed = {demo_id}, finished = {}, discarded = {}\<rparr>"
proof -
  let ?s = "\<lparr>world = pair_empty, held = [], handed = {}, finished = {}, discarded = {}\<rparr>"
  obtain w v where run: "Enqueue (clock pair_env) pair_client (Some demo_stored) pair_empty = (Ret (Inr
     \<lparr>ti_ID = demo_id, ti_Queue = ''critical'', ti_State = TaskStateScheduled, ti_ProcessAt = Some 1700000000000000000\<rparr>,
     Some saved_task), w)" using demo_saved by blast
  have "ID demo_stored = demo_id" by (simp add: demo_stored_def)
  with enqueued [OF demo_sendable, where s = ?s and w' = w] run
  have "system_step pair_env pair_sql DefaultConsumerConfig is_pair_server (\<lambda>w. steady_mem (fst w)) ?s
     \<lparr>world = w, held = [], handed = {demo_id}, finished = {}, discarded = {}\<rparr>"
    by (simp add: pair_client_def)
  from step [OF start this] show ?thesis by blast
qed


text \<open>
  C2. In every reachable state each queue is in order: the ids of ready messages differ and are not empty,
  unacknowledged messages were taken, every task in it, ready, dead or waiting, is one of this queue, and what
  waits for its time can be read by the broker and decoded by the scheduler's script, so that the script is
  never stopped by it. This is what recovery and scheduling need of the queues.
\<close>

theorem reachable_queues_in_order:
  assumes "deployment E db clk I D tbl ts jsonb"
    and "\<And>S. server S \<Longrightarrow> deployed_server E db clk I D tbl ts jsonb S cfg"
    and "\<And>q. view cfg (db w) q = no_tasks" and "system_reachable E D cfg server I w s"
  shows "let v = view cfg (db (world s)) q in
    distinct (map fst (ready v)) \<and> dom (unacked v) \<subseteq> taken v \<and>
    (\<forall>(i, t) \<in> set (ready v). i \<noteq> '''' \<and> task_Queue t = q) \<and> (\<forall>(i, t) \<in> set (dead v). task_Queue t = q) \<and>
    (\<forall>b \<in> dom (later v) \<union> dom (retrying v). (\<exists>t. unmarshal_task b = Inr t \<and> task_Queue t = q) \<and>
       Option.bind (cjson_decode E b) lua_set_pending \<noteq> None)"
proof -
  have codec: "cjson_codec E" using assms(1) by (simp add: deployment_def)
  have waiting: "(\<exists>t. unmarshal_task b = Inr t \<and> task_Queue t = q) \<and> Option.bind (cjson_decode E b) lua_set_pending \<noteq> None"
    if "waiting_ok q b" for b
  proof -
    from that obtain t where b: "b = JsonText (json_task t)" and t: "sound q t" unfolding waiting_ok_def by blast
    then have reads: "unmarshal_task b = Inr (norm_task t)" and q: "task_Queue t = q"
      using decode_json_task [of t] by (simp_all add: sound_def task_good_def)
    have "lua_pending E b \<noteq> None" using cjson_codec.lua_pending_task [OF codec, of t] t b by (auto simp: sound_def)
    then have "Option.bind (cjson_decode E b) lua_set_pending \<noteq> None"
      by (cases "cjson_decode E b") (simp_all add: lua_pending_def)
    with reads q show ?thesis by simp
  qed
  have "queue_ok q (view cfg (db (world s)) q)"
    using deployment.reachable_loses_nothing [OF assms(1,2,4,3)] by (simp add: nothing_lost_def)
  with waiting show ?thesis unfolding Let_def queue_ok_def sound_def by blast
qed

theorem reachable_queues_in_order_witness:
  "\<exists>s. system_reachable pair_env pair_sql DefaultConsumerConfig is_pair_server (\<lambda>w. steady_mem (fst w)) pair_empty s \<and>
     handed s = {demo_id} \<and> distinct (map fst (ready (view DefaultConsumerConfig (mem_db (fst (world s))) ''critical'')))"
proof -
  obtain w where s: "system_reachable pair_env pair_sql DefaultConsumerConfig is_pair_server (\<lambda>w. steady_mem (fst w))
     pair_empty \<lparr>world = w, held = [], handed = {demo_id}, finished = {}, discarded = {}\<rparr>"
    using demo_reachable by blast
  from reachable_queues_in_order [OF pair.deployment_axioms pair_servers pair_empty_views s, of "''critical''"] s show ?thesis
    by (intro exI [of _ "\<lparr>world = w, held = [], handed = {demo_id}, finished = {}, discarded = {}\<rparr>"]) (simp add: Let_def)
qed

end
