(* ===== verification/Ui_Helpers.thy ===== *)
theory Ui_Helpers
  imports Store_Postgres
begin

text \<open>
  The template functions of \<^verbatim>\<open>ui/server.go\<close>: what the pages show of states, times and pages. Texts are
  bytes, so the symbols are written as their UTF-8 codes. The functions that print times and durations are in
  \<open>Ui_Format\<close>; \<open>toJSON\<close>, which prints arbitrary values, is left out.
\<close>

section \<open>Arithmetic of the templates\<close>

definition tmpl_add :: "i64 \<Rightarrow> i64 \<Rightarrow> i64" where "tmpl_add a b = a + b"
definition tmpl_sub :: "i64 \<Rightarrow> i64 \<Rightarrow> i64" where "tmpl_sub a b = a - b"
definition tmpl_mul :: "i64 \<Rightarrow> i64 \<Rightarrow> i64" where "tmpl_mul a b = a * b"

text \<open>\<open>div\<close> answers 0 for a divisor 0, \<open>mod\<close> panics.\<close>

definition tmpl_mod :: "int \<Rightarrow> int \<Rightarrow> int outcome" where
  "tmpl_mod a b = (if b = 0 then Panic ''runtime error: integer divide by zero'' else Ret (a - b * go_div a b))"

definition tmpl_div :: "int \<Rightarrow> int \<Rightarrow> int" where
  "tmpl_div a b = (if b = 0 then 0 else go_div a b)"

definition tmpl_min :: "int \<Rightarrow> int \<Rightarrow> int" where
  "tmpl_min a b = (if a < b then a else b)"

section \<open>Texts\<close>

text \<open>Slicing with a negative bound panics.\<close>

definition ui_truncate :: "string \<Rightarrow> int \<Rightarrow> string outcome" where
  "ui_truncate s n =
     (if int (length s) \<le> n then Ret s
      else if n < 0 then Panic ''slice bounds out of range''
      else Ret (take (nat n) s @ ''...''))"

definition stateClass :: "string \<Rightarrow> string" where
  "stateClass st =
     (if st = ''pending'' then ''bg-yellow-100 text-yellow-800''
      else if st = ''scheduled'' then ''bg-blue-100 text-blue-800''
      else if st = ''active'' then ''bg-cyan-100 text-cyan-800''
      else if st = ''completed'' then ''bg-green-100 text-green-800''
      else if st = ''failed'' \<or> st = ''dead'' then ''bg-red-100 text-red-800''
      else if st = ''retry'' then ''bg-orange-100 text-orange-800''
      else if st = ''cancelled'' then ''bg-gray-100 text-gray-800''
      else ''bg-gray-100 text-gray-800'')"

definition stateIcon :: "string \<Rightarrow> string" where
  "stateIcon st =
     (if st = ''pending'' then [CHR 0xE2, CHR 0x8F, CHR 0xB3]
      else if st = ''scheduled'' then [CHR 0xF0, CHR 0x9F, CHR 0x93, CHR 0x85]
      else if st = ''active'' then [CHR 0xE2, CHR 0x9A, CHR 0xA1]
      else if st = ''completed'' then [CHR 0xE2, CHR 0x9C, CHR 0x85]
      else if st = ''failed'' then [CHR 0xE2, CHR 0x9D, CHR 0x8C]
      else if st = ''dead'' then [CHR 0xF0, CHR 0x9F, CHR 0x92, CHR 0x80]
      else if st = ''retry'' then [CHR 0xF0, CHR 0x9F, CHR 0x94, CHR 0x84]
      else if st = ''cancelled'' then [CHR 0xF0, CHR 0x9F, CHR 0x9A, CHR 0xAB]
      else [CHR 0xE2, CHR 0x9D, CHR 0x93])"

text \<open>The time is nil or zero, or in the past.\<close>

definition isOverdue :: "time \<Rightarrow> time option \<Rightarrow> bool" where
  "isOverdue now t = (case t of None \<Rightarrow> False | Some at \<Rightarrow> at \<noteq> zero_time \<and> at < now)"

definition formatIdleTime :: "int \<Rightarrow> string" where
  "formatIdleTime idleMs =
     (if idleMs < 1000 then show_int idleMs @ ''ms''
      else if idleMs < 60000 then show_int (go_div idleMs 1000) @ ''s''
      else if idleMs < 3600000 then show_int (go_div idleMs 60000) @ ''m''
      else show_int (go_div idleMs 3600000) @ ''h'')"

section \<open>The states of the filter\<close>

record StateInfo =
  Value :: string
  Label :: string
  Icon :: string
  IconClass :: string
  CheckedClass :: string
  UncheckedClass :: string

definition stateList :: "StateInfo list" where
  "stateList =
     [\<lparr>Value = ''scheduled'', Label = ''Scheduled'', Icon = [CHR 0xE2, CHR 0x97, CHR 0xB7], IconClass = ''text-blue-400'',
        CheckedClass = ''bg-blue-500/20 text-blue-300'', UncheckedClass = ''bg-gray-800/50 text-gray-400''\<rparr>,
      \<lparr>Value = ''pending'', Label = ''Pending'', Icon = [CHR 0xE2, CHR 0x97, CHR 0x8F], IconClass = ''text-amber-400'',
        CheckedClass = ''bg-amber-500/20 text-amber-300'', UncheckedClass = ''bg-gray-800/50 text-gray-400''\<rparr>,
      \<lparr>Value = ''active'', Label = ''Active'', Icon = [CHR 0xE2, CHR 0x97, CHR 0x8F], IconClass = ''text-cyan-400 animate-pulse'',
        CheckedClass = ''bg-cyan-500/20 text-cyan-300'', UncheckedClass = ''bg-gray-800/50 text-gray-400''\<rparr>,
      \<lparr>Value = ''completed'', Label = ''Completed'', Icon = [CHR 0xE2, CHR 0x9C, CHR 0x93], IconClass = ''text-emerald-400'',
        CheckedClass = ''bg-emerald-500/20 text-emerald-300'', UncheckedClass = ''bg-gray-800/50 text-gray-400''\<rparr>,
      \<lparr>Value = ''retry'', Label = ''Retry'', Icon = [CHR 0xE2, CHR 0x86, CHR 0xBB], IconClass = ''text-orange-400'',
        CheckedClass = ''bg-orange-500/20 text-orange-300'', UncheckedClass = ''bg-gray-800/50 text-gray-400''\<rparr>,
      \<lparr>Value = ''failed'', Label = ''Failed'', Icon = [CHR 0xE2, CHR 0x9C, CHR 0x95], IconClass = ''text-red-400'',
        CheckedClass = ''bg-red-500/20 text-red-300'', UncheckedClass = ''bg-gray-800/50 text-gray-400''\<rparr>,
      \<lparr>Value = ''dead'', Label = ''Dead'', Icon = [CHR 0xE2, CHR 0x9A, CHR 0xA0], IconClass = ''text-rose-400'',
        CheckedClass = ''bg-rose-500/20 text-rose-300'', UncheckedClass = ''bg-gray-800/50 text-gray-400''\<rparr>]"

fun hasState :: "string list \<Rightarrow> string \<Rightarrow> bool" where
  "hasState [] state = False"
| "hasState (s # states) state = (if s = state then True else hasState states state)"

lemma hasState_iff [simp]: "hasState states state \<longleftrightarrow> state \<in> set states"
  by (induction states) auto

text \<open>Type, order and times of the filter are not among the parameters, and nothing is escaped.\<close>

definition buildQueryParams :: "TaskFilter \<Rightarrow> string" where
  "buildQueryParams f =
     (if f_Queue f \<noteq> '''' then ''&queue='' @ f_Queue f else '''') @
     (if f_Search f \<noteq> '''' then ''&search='' @ f_Search f else '''') @
     concat (map (\<lambda>s. ''&states='' @ s) (f_States f)) @
     (if f_Limit f > 0 \<and> f_Limit f \<noteq> 20 then ''&limit='' @ show_int (f_Limit f) else '''')"

section \<open>Pages\<close>

definition seq :: "int \<Rightarrow> int \<Rightarrow> int list" where
  "seq start ends = (if ends < start then [] else map (\<lambda>i. start + int i) [0..<nat (ends - start + 1)])"

definition pageRange :: "int \<Rightarrow> int \<Rightarrow> int \<Rightarrow> int list" where
  "pageRange current pages maxVisible =
     (if pages \<le> maxVisible then seq 1 pages
      else
        (let half = go_div maxVisible 2; start = current - half; ends = current + half;
             (start, ends) = (if start < 1 then (1, maxVisible) else (start, ends));
             (start, ends) = (if ends > pages then (pages - maxVisible + 1, pages) else (start, ends))
         in seq start ends))"

lemma seq_upto: "seq a b = [a..b]"
  by (rule nth_equalityI) (auto simp: seq_def)

lemma seq_set [simp]: "set (seq a b) = {a..b}"
  by (simp add: seq_upto)

lemma seq_length [simp]: "length (seq a b) = nat (b - a + 1)"
  by (simp add: seq_upto)

text \<open>
  The page numbers shown are consecutive pages that exist, with the current one among them: all of them
  when they fit, otherwise as many as may be visible, and one more in the middle of an even number.
\<close>

lemma pageRange_window:
  assumes "1 \<le> current" and "current \<le> pages" and "1 \<le> maxVisible"
  shows "\<exists>a b. pageRange current pages maxVisible = [a..b] \<and> 1 \<le> a \<and> a \<le> current \<and> current \<le> b \<and> b \<le> pages \<and>
    (if pages \<le> maxVisible then b - a + 1 = pages
     else b - a + 1 = maxVisible \<or> even maxVisible \<and> b - a + 1 = maxVisible + 1)"
proof -
  have half: "go_div maxVisible 2 = maxVisible div 2" using assms(3) by simp
  show ?thesis
  proof (cases "pages \<le> maxVisible")
    case True
    with assms show ?thesis by (intro exI [of _ 1] exI [of _ pages]) (simp add: pageRange_def seq_upto)
  next
    case False
    define h where "h = maxVisible div 2"
    have h: "0 \<le> h" "2 * h \<le> maxVisible" "maxVisible \<le> 2 * h + 1" "odd maxVisible \<longrightarrow> maxVisible = 2 * h + 1"
      using assms(3) by (auto simp: h_def elim!: oddE)
    consider "current - h < 1" | "1 \<le> current - h" "pages < current + h" | "1 \<le> current - h" "current + h \<le> pages" by linarith
    then show ?thesis
    proof cases
      case 1
      with False h assms have "pageRange current pages maxVisible = [1..maxVisible]"
        by (simp add: pageRange_def half seq_upto flip: h_def)
      with 1 False h assms show ?thesis by (intro exI [of _ 1] exI [of _ maxVisible]) auto
    next
      case 2
      with False h assms have "pageRange current pages maxVisible = [pages - maxVisible + 1..pages]"
        by (simp add: pageRange_def half seq_upto flip: h_def)
      with 2 False h assms show ?thesis by (intro exI [of _ "pages - maxVisible + 1"] exI [of _ pages]) auto
    next
      case 3
      with False h assms have "pageRange current pages maxVisible = [current - h..current + h]"
        by (simp add: pageRange_def half seq_upto flip: h_def)
      with 3 False h assms show ?thesis by (intro exI [of _ "current - h"] exI [of _ "current + h"]) auto
    qed
  qed
qed

end
