(* ===== verification/Ui_Server.thy ===== *)
theory Ui_Server
  imports Ui_Helpers Store_Api
begin

text \<open>
  The handlers of \<^verbatim>\<open>ui/server.go\<close>: which operations of broker and store a request leads to, and what data the
  page or the answer gets. Routing, reading the request and rendering templates belong to the libraries:
  a request is what the handlers read of it, and a response is the status with its text, or the template
  with its data. Log output is not modelled.
\<close>

section \<open>Requests and responses\<close>

text \<open>\<open>query k\<close> holds the values of \<open>k\<close> in the URL, \<open>form_value\<close> is \<open>r.FormValue\<close>.\<close>

record request =
  path_value :: "string \<Rightarrow> string"
  query :: "string \<Rightarrow> string list"
  form_value :: "string \<Rightarrow> string"
  header :: "string \<Rightarrow> string"

definition query_get :: "request \<Rightarrow> string \<Rightarrow> string" where
  "query_get r k = (case query r k of [] \<Rightarrow> '''' | v # vs \<Rightarrow> v)"

record ConsumerDisplay =
  cd_Name :: string
  cd_Pending :: int
  cd_IdleTime :: string
  cd_Status :: string
  cd_StatusClass :: string

text \<open>The values of a \<open>map[string]interface{}\<close>.\<close>

datatype page_value =
    VText string
  | VNum int
  | VTexts "string list"
  | VTask TaskProto
  | VTasks "TaskProto list"
  | VFilter TaskFilter
  | VStats Stats
  | VQueue QueueInfo
  | VGroups "(string \<times> int) list"
  | VConsumers "ConsumerDisplay list"
  | VDead "TaskProto list gomap"
  | VRows "(string \<times> page_value) list list"
  | VMap "(string \<times> page_value) list"

type_synonym page_row = "(string \<times> page_value) list"

text \<open>
  \<open>http.Error\<close>, the JSON error, a page inside or outside the layout, a JSON answer, a piece of HTML with
  the event it triggers, and the rows of consumers, whose markup is left out.
\<close>

datatype response =
    HttpError string int
  | JsonError string int
  | Render string page_value
  | Execute string page_value
  | JsonBody page_value
  | Fragment "string option" string
  | ConsumerRows "ConsumerDisplay list"

record 'w Ui =
  ui_broker :: "'w broker_ops"
  ui_store :: "'w task_store option"

section \<open>Queues\<close>

definition info_row :: "string \<Rightarrow> QueueInfo \<Rightarrow> page_row" where
  "info_row name info = [(''Name'', VText name), (''Pending'', VNum (qi_Pending info)), (''Active'', VNum (qi_Active info)),
     (''Scheduled'', VNum (qi_Scheduled info)), (''Retry'', VNum (qi_Retry info)), (''Dead'', VNum (qi_Dead info)),
     (''Processed'', VNum (qi_Processed info))]"

text \<open>The row of a queue that has the group; the numbers are those of the broker's own group.\<close>

definition getQueueInfoForGroup :: "'w Ui \<Rightarrow> string \<Rightarrow> string \<Rightarrow> ('w, page_row option) go" where
  "getQueueInfoForGroup u queue grp =
     go_bind (op_GetConsumerGroups (ui_broker u) queue) (\<lambda>r. case r of
         Inl err \<Rightarrow> go_return None
       | Inr groups \<Rightarrow>
           if List.find (\<lambda>g. cg_Name g = grp) groups = None then go_return None
           else go_bind (op_GetQueueInfo (ui_broker u) queue) (\<lambda>r. go_return (case r of
               Inl err \<Rightarrow> None
             | Inr info \<Rightarrow> Some (info_row queue info))))"

definition group_rows :: "'w Ui \<Rightarrow> string \<Rightarrow> string list \<Rightarrow> ('w, page_row list) go" where
  "group_rows u grp queues = go_fold (\<lambda>queue rows. go_bind (getQueueInfoForGroup u queue grp) (\<lambda>row. go_return
     (case row of None \<Rightarrow> rows | Some r \<Rightarrow> rows @ [r]))) queues []"

definition failed_queues :: response where
  "failed_queues = HttpError ''Failed to get queues'' 500"

text \<open>One turn of the loop of \<open>handleQueues\<close>; errors of the two counts are dropped, the counts are then 0.\<close>

definition queue_row :: "'w Ui \<Rightarrow> string \<Rightarrow> page_row list \<Rightarrow> ('w, page_row list) go" where
  "queue_row u q rows = go_bind (op_GetQueueInfo (ui_broker u) q) (\<lambda>r. case r of
       Inl err \<Rightarrow> go_return rows
     | Inr info \<Rightarrow>
         go_bind (op_GetScheduledCount (ui_broker u) q) (\<lambda>sc.
         go_bind (op_GetRetryCount (ui_broker u) q) (\<lambda>rc. go_return (rows @
           [[(''Name'', VText (qi_Name info)), (''Pending'', VNum (qi_Pending info)),
             (''Scheduled'', VNum (case sc of Inl err \<Rightarrow> 0 | Inr n \<Rightarrow> n)), (''Active'', VNum (qi_Active info)),
             (''Retry'', VNum (case rc of Inl err \<Rightarrow> 0 | Inr n \<Rightarrow> n)), (''Dead'', VNum (qi_Dead info)),
             (''Processed'', VNum (qi_Processed info)), (''Failed'', VNum (qi_Failed info))]]))))"

definition handleQueues :: "'w Ui \<Rightarrow> request \<Rightarrow> ('w, response) go" where
  "handleQueues u r = go_bind (op_GetQueues (ui_broker u)) (\<lambda>res. case res of
       Inl err \<Rightarrow> go_return failed_queues
     | Inr queues \<Rightarrow> go_bind (go_fold (queue_row u) queues []) (\<lambda>rows. go_return (Render ''layout.html'' (VMap
         [(''Title'', VText ''Queues''), (''Page'', VText ''queues''), (''Queues'', VRows rows)]))))"

text \<open>A filter with some fields set, the others at their zero values.\<close>

definition empty_filter :: TaskFilter where
  "empty_filter = \<lparr>f_Queue = '''', f_State = '''', f_States = [], f_Type = '''', f_Search = '''', f_Labels = None,
     f_CreatedAfter = zero_time, f_CreatedBefore = zero_time, f_Limit = 0, f_Offset = 0, f_SortBy = '''', f_SortOrder = ''''\<rparr>"

definition handleQueueDetail :: "'w Ui \<Rightarrow> request \<Rightarrow> ('w, response) go" where
  "handleQueueDetail u r =
     (let queue = path_value r ''queue''
      in go_bind (op_GetQueueInfo (ui_broker u) queue) (\<lambda>res. case res of
          Inl err \<Rightarrow> go_return (HttpError ''Failed to get queue info'' 500)
        | Inr info \<Rightarrow>
            go_bind (case ui_store u of
                None \<Rightarrow> go_return []
              | Some st \<Rightarrow> go_bind (st_ListTasks st (empty_filter\<lparr>f_Queue := queue, f_Limit := 50\<rparr>)) (\<lambda>res. go_return (case res of
                    Inl err \<Rightarrow> []
                  | Inr (tasks, n) \<Rightarrow> [(''Tasks'', VTasks tasks)])))
              (\<lambda>tasks. go_return (Render ''layout.html'' (VMap
                ([(''Title'', VText (''Queue: '' @ queue)), (''Page'', VText ''queue-detail''), (''Queue'', VQueue info)] @ tasks))))))"

definition api_row :: "QueueInfo \<Rightarrow> page_row" where
  "api_row info = [(''name'', VText (qi_Name info)), (''pending'', VNum (qi_Pending info)), (''active'', VNum (qi_Active info)),
     (''dead'', VNum (qi_Dead info)), (''processed'', VNum (qi_Processed info))]"

text \<open>The rows of all queues whose numbers can be had.\<close>

definition all_rows :: "'w Ui \<Rightarrow> (QueueInfo \<Rightarrow> page_row) \<Rightarrow> string list \<Rightarrow> ('w, page_row list) go" where
  "all_rows u row queues = go_fold (\<lambda>q rows. go_bind (op_GetQueueInfo (ui_broker u) q) (\<lambda>r. go_return (case r of
       Inl err \<Rightarrow> rows
     | Inr info \<Rightarrow> rows @ [row info]))) queues []"

definition handleAPIQueues :: "'w Ui \<Rightarrow> request \<Rightarrow> ('w, response) go" where
  "handleAPIQueues u r = go_bind (op_GetQueues (ui_broker u)) (\<lambda>res. case res of
       Inl err \<Rightarrow> go_return (JsonError (error_text err) 500)
     | Inr queues \<Rightarrow> go_bind (all_rows u api_row queues) (\<lambda>rows. go_return (JsonBody (VRows rows))))"

text \<open>The text that stands for an error, and the note that there is nothing to show (without its markup).\<close>

definition error_html :: "go_error \<Rightarrow> string" where
  "error_html err = ''<div class=\"text-red-500\">Error: '' @ error_text err @ ''</div>''"

definition no_queues_html :: string where
  "no_queues_html = ''No queues found for this consumer group''"

definition handlePartialQueues :: "'w Ui \<Rightarrow> request \<Rightarrow> ('w, response) go" where
  "handlePartialQueues u r =
     (let selectedGroup = query_get r ''group''
      in go_bind (op_GetQueues (ui_broker u)) (\<lambda>res. case res of
          Inl err \<Rightarrow> go_return (Fragment None (error_html err))
        | Inr queues \<Rightarrow>
            go_bind (if selectedGroup \<noteq> '''' then group_rows u selectedGroup queues else all_rows u (\<lambda>info. info_row (qi_Name info) info) queues)
              (\<lambda>rows. go_return (if rows = [] then Fragment None no_queues_html
                 else Execute ''partial_queues.html'' (VRows rows)))))"


text \<open>The text that stands for success, with a check mark.\<close>

definition done_html :: "string \<Rightarrow> string" where
  "done_html s = ''<span class=\"text-green-600\">'' @ [CHR 0xE2, CHR 0x9C, CHR 0x85] @ '' '' @ s @ ''</span>''"

section \<open>Tasks\<close>

text \<open>\<open>strconv.Atoi\<close>: an optional sign and digits, in the range of \<open>int\<close>.\<close>

definition go_atoi :: "string \<Rightarrow> int option" where
  "go_atoi s =
     (let (neg, ds) = (case s of
          [] \<Rightarrow> (False, [])
        | c # cs \<Rightarrow> if c = CHR ''-'' then (True, cs) else if c = CHR ''+'' then (False, cs) else (False, s));
          n = (if neg then - int (read_digits 0 ds) else int (read_digits 0 ds))
      in if ds \<noteq> [] \<and> list_all is_digit ds \<and> - (2 ^ 63) \<le> n \<and> n < 2 ^ 63 then Some n else None)"

text \<open>The value of an \<open>int\<close> after wrapping around.\<close>

definition go_int :: "int \<Rightarrow> int" where
  "go_int n = sint (word_of_int n :: i64)"

definition limit_param :: "string \<Rightarrow> int" where
  "limit_param s = (case go_atoi s of
      None \<Rightarrow> 20
    | Some n \<Rightarrow> if n > 0 then (if n > 100 then 100 else n) else 20)"

definition offset_param :: "string \<Rightarrow> int \<Rightarrow> int" where
  "offset_param s limit = (case go_atoi s of
      None \<Rightarrow> 0
    | Some p \<Rightarrow> if p > 1 then go_int ((p - 1) * limit) else 0)"

definition tasks_filter :: "request \<Rightarrow> TaskFilter" where
  "tasks_filter r =
     (let f = empty_filter\<lparr>f_Queue := query_get r ''queue'', f_States := query r ''states'', f_Type := query_get r ''type'',
            f_Search := query_get r ''search'', f_SortBy := query_get r ''sort'', f_SortOrder := query_get r ''order'',
            f_Limit := limit_param (query_get r ''limit'')\<rparr>;
          state = query_get r ''state'';
          f = (if state \<noteq> '''' \<and> f_States f = [] then f\<lparr>f_States := [state]\<rparr> else f)
      in f\<lparr>f_Offset := offset_param (query_get r ''page'') (f_Limit f)\<rparr>)"

definition current_page :: "TaskFilter \<Rightarrow> int" where
  "current_page f = go_int (go_div (f_Offset f) (f_Limit f) + 1)"

definition total_pages :: "int \<Rightarrow> TaskFilter \<Rightarrow> int" where
  "total_pages cnt f = go_div (go_int (cnt + f_Limit f - 1)) (f_Limit f)"

definition handleTasks :: "'w Ui \<Rightarrow> request \<Rightarrow> ('w, response) go" where
  "handleTasks u r = (case ui_store u of
      None \<Rightarrow> go_return (HttpError ''Task history requires PostgreSQL store'' 503)
    | Some st \<Rightarrow>
        (let f = tasks_filter r
         in go_bind (st_ListTasks st f) (\<lambda>res. case res of
             Inl err \<Rightarrow> go_return (HttpError ''Failed to list tasks'' 500)
           | Inr (tasks, cnt) \<Rightarrow>
               go_bind (op_GetQueues (ui_broker u)) (\<lambda>queues.
               let data = VMap [(''Title'', VText ''Tasks''), (''Page'', VText ''tasks''), (''Tasks'', VTasks tasks), (''Total'', VNum cnt),
                     (''CurrentPage'', VNum (current_page f)), (''TotalPages'', VNum (total_pages cnt f)), (''Filter'', VFilter f),
                     (''Queues'', VTexts (case queues of Inl err \<Rightarrow> [] | Inr qs \<Rightarrow> qs))]
               in go_return (if header r ''HX-Request'' = ''true'' then Render ''tasks_table.html'' data
                    else Render ''layout.html'' data)))))"

text \<open>The identifier is at most cut, as eight is no negative bound.\<close>

definition handleTaskDetail :: "'w Ui \<Rightarrow> request \<Rightarrow> ('w, response) go" where
  "handleTaskDetail u r = (case ui_store u of
      None \<Rightarrow> go_return (HttpError ''Task detail requires PostgreSQL store'' 503)
    | Some st \<Rightarrow> go_bind (st_GetTask st (path_value r ''id'')) (\<lambda>res. case res of
          Inl err \<Rightarrow> go_return (HttpError ''Task not found'' 404)
        | Inr task \<Rightarrow> (case ui_truncate (path_value r ''id'') 8 of
              Panic msg \<Rightarrow> go_panic msg
            | Ret short \<Rightarrow> go_return (Render ''layout.html'' (VMap
                [(''Title'', VText (''Task: '' @ short)), (''Page'', VText ''task-detail''), (''Task'', VTask task)])))))"

definition handleAPITasks :: "'w Ui \<Rightarrow> request \<Rightarrow> ('w, response) go" where
  "handleAPITasks u r = (case ui_store u of
      None \<Rightarrow> go_return (JsonError ''Task listing requires PostgreSQL store'' 503)
    | Some st \<Rightarrow> go_bind (st_ListTasks st
          (empty_filter\<lparr>f_Queue := query_get r ''queue'', f_State := query_get r ''state'', f_Limit := 50\<rparr>)) (\<lambda>res. go_return (case res of
          Inl err \<Rightarrow> JsonError (error_text err) 500
        | Inr (tasks, cnt) \<Rightarrow> JsonBody (VMap [(''tasks'', VTasks tasks), (''total'', VNum cnt)]))))"

definition handlePartialTasks :: "'w Ui \<Rightarrow> request \<Rightarrow> ('w, response) go" where
  "handlePartialTasks u r = (case ui_store u of
      None \<Rightarrow> go_return (Fragment None ''<div class=\"text-gray-500\">Tasks require PostgreSQL</div>'')
    | Some st \<Rightarrow> go_bind (st_ListTasks st
          (empty_filter\<lparr>f_Queue := query_get r ''queue'', f_State := query_get r ''state'', f_Limit := 20\<rparr>)) (\<lambda>res. go_return (case res of
          Inl err \<Rightarrow> Fragment None (error_html err)
        | Inr (tasks, cnt) \<Rightarrow> Execute ''partial_tasks.html'' (VTasks tasks))))"

definition handleAPIStats :: "'w Ui \<Rightarrow> request \<Rightarrow> ('w, response) go" where
  "handleAPIStats u r = (case ui_store u of
      None \<Rightarrow> go_return (JsonError ''Stats require PostgreSQL store'' 503)
    | Some st \<Rightarrow> go_bind (st_GetStats st) (\<lambda>res. go_return (case res of
          Inl err \<Rightarrow> JsonError (error_text err) 500
        | Inr stats \<Rightarrow> JsonBody (VStats stats))))"

definition handlePartialStats :: "'w Ui \<Rightarrow> request \<Rightarrow> ('w, response) go" where
  "handlePartialStats u r = (case ui_store u of
      None \<Rightarrow> go_return (Fragment None ''<div class=\"text-gray-500\">Stats require PostgreSQL</div>'')
    | Some st \<Rightarrow> go_bind (st_GetStats st) (\<lambda>res. go_return (case res of
          Inl err \<Rightarrow> Fragment None (error_html err)
        | Inr stats \<Rightarrow> Execute ''partial_stats.html'' (VStats stats))))"

definition handleDeleteTask :: "'w Ui \<Rightarrow> request \<Rightarrow> ('w, response) go" where
  "handleDeleteTask u r = (case ui_store u of
      None \<Rightarrow> go_return (HttpError ''Delete requires PostgreSQL store'' 503)
    | Some st \<Rightarrow> go_bind (st_DeleteTask st (path_value r ''id'')) (\<lambda>res. go_return (case res of
          Some err \<Rightarrow> HttpError ''Failed to delete task'' 500
        | None \<Rightarrow> Fragment (Some ''taskDeleted'') (done_html ''Task deleted''))))"


section \<open>The dead letter queue\<close>

definition dead_tasks :: "'w Ui \<Rightarrow> string \<Rightarrow> TaskProto list gomap \<Rightarrow> ('w, TaskProto list gomap) go" where
  "dead_tasks u q m = go_bind (op_GetDLQ (ui_broker u) q 100) (\<lambda>res. go_return (case res of
       Inl err \<Rightarrow> m
     | Inr tasks \<Rightarrow> if tasks = [] then m else map_put q tasks m))"

definition handleDeadLetterQueue :: "'w Ui \<Rightarrow> request \<Rightarrow> ('w, response) go" where
  "handleDeadLetterQueue u r = go_bind (op_GetQueues (ui_broker u)) (\<lambda>res. case res of
       Inl err \<Rightarrow> go_return failed_queues
     | Inr queues \<Rightarrow> go_bind (go_fold (dead_tasks u) queues []) (\<lambda>m. go_return
         (if header r ''HX-Request'' = ''true'' then Execute ''partial_dead_content.html'' (VDead m)
          else Render ''layout.html'' (VMap
            [(''Title'', VText ''Dead Letter Queue''), (''Page'', VText ''dead''), (''DeadTasks'', VDead m)]))))"

text \<open>A failed update of the store is logged only.\<close>

definition handleRetryTask :: "'w Ui \<Rightarrow> request \<Rightarrow> ('w, response) go" where
  "handleRetryTask u r =
     (let taskID = path_value r ''id''; q = query_get r ''queue''; queue = (if q = '''' then ''default'' else q)
      in go_bind (op_RetryFromDLQ (ui_broker u) queue taskID) (\<lambda>res. case res of
          Some err \<Rightarrow> go_return (if contains (error_text err) ''not found'' then HttpError ''Task not found in DLQ'' 404
            else HttpError ''Failed to retry task'' 500)
        | None \<Rightarrow>
            go_bind (case ui_store u of
                None \<Rightarrow> go_return None
              | Some st \<Rightarrow> st_UpdateTaskState st taskID ''pending'' '''')
              (\<lambda>_. go_return (Fragment (Some ''taskRetried'') (done_html ''Task queued for retry'')))))"

definition retry_dead :: "'w Ui \<Rightarrow> string \<Rightarrow> TaskProto \<Rightarrow> int \<Rightarrow> ('w, int) go" where
  "retry_dead u queue task cnt = go_bind (op_RetryFromDLQ (ui_broker u) queue (ID task)) (\<lambda>res. go_return (case res of
       None \<Rightarrow> cnt + 1
     | Some err \<Rightarrow> cnt))"

definition handleRetryAllDead :: "'w Ui \<Rightarrow> request \<Rightarrow> ('w, response) go" where
  "handleRetryAllDead u r =
     (let queue = path_value r ''queue''
      in go_bind (op_GetDLQ (ui_broker u) queue 1000) (\<lambda>res. case res of
          Inl err \<Rightarrow> go_return (HttpError ''Failed to get DLQ'' 500)
        | Inr tasks \<Rightarrow> go_bind (go_fold (retry_dead u queue) tasks 0) (\<lambda>cnt.
            go_return (Fragment (Some ''dlqCleared'') (done_html (show_int cnt @ '' tasks queued for retry''))))))"

definition handlePurgeDead :: "'w Ui \<Rightarrow> request \<Rightarrow> ('w, response) go" where
  "handlePurgeDead u r = go_bind (op_PurgeDLQ (ui_broker u) (path_value r ''queue'')) (\<lambda>res. go_return (case res of
       Some err \<Rightarrow> HttpError ''Failed to purge DLQ'' 500
     | None \<Rightarrow> Fragment (Some ''dlqPurged'') (done_html ''DLQ purged'')))"


section \<open>Consumers\<close>

definition selected_group :: "request \<Rightarrow> string" where
  "selected_group r = (let g = query_get r ''group'' in if g = '''' then form_value r ''group'' else g)"

text \<open>The groups of all queues, but for those that are not selected.\<close>

definition over_groups :: "'w Ui \<Rightarrow> string \<Rightarrow> string list \<Rightarrow> (string \<Rightarrow> string \<Rightarrow> 's \<Rightarrow> ('w, 's) go) \<Rightarrow> 's \<Rightarrow> ('w, 's) go" where
  "over_groups u sel queues f s = go_fold (\<lambda>queue s. go_bind (op_GetConsumerGroups (ui_broker u) queue) (\<lambda>r. case r of
       Inl err \<Rightarrow> go_return s
     | Inr groups \<Rightarrow> go_fold (\<lambda>g s. if sel \<noteq> '''' \<and> cg_Name g \<noteq> sel then go_return s else f queue (cg_Name g) s) groups s))
     queues s"

definition ui_should_cleanup :: "ConsumerInfo \<Rightarrow> bool" where
  "ui_should_cleanup c \<longleftrightarrow> ci_Pending c = 0 \<and> ci_Idle c > go_div (10 * Minute) Millisecond"

definition ui_cleanup_consumer :: "'w Ui \<Rightarrow> string \<Rightarrow> string \<Rightarrow> ConsumerInfo \<Rightarrow> int \<Rightarrow> ('w, int) go" where
  "ui_cleanup_consumer u queue grp c removed =
     (if ui_should_cleanup c then
        go_bind (op_RemoveConsumer (ui_broker u) queue grp (ci_Name c)) (\<lambda>err. go_return (case err of
            Some e \<Rightarrow> removed
          | None \<Rightarrow> removed + 1))
      else go_return removed)"

definition ui_cleanup_group :: "'w Ui \<Rightarrow> string \<Rightarrow> string \<Rightarrow> int \<Rightarrow> ('w, int) go" where
  "ui_cleanup_group u queue grp removed = go_bind (op_GetGroupConsumers (ui_broker u) queue grp) (\<lambda>r. case r of
       Inl err \<Rightarrow> go_return removed
     | Inr consumers \<Rightarrow> go_fold (ui_cleanup_consumer u queue grp) consumers removed)"

text \<open>The quotient of floats is above 10 exactly when the idle time is above 600000.\<close>

definition count_skipped :: "'w Ui \<Rightarrow> string \<Rightarrow> string \<Rightarrow> int \<Rightarrow> ('w, int) go" where
  "count_skipped u queue grp n = go_bind (op_GetGroupConsumers (ui_broker u) queue grp) (\<lambda>r. go_return (case r of
       Inl err \<Rightarrow> n
     | Inr consumers \<Rightarrow> n + int (length (filter (\<lambda>c. ci_Pending c > 0 \<and> ci_Idle c > 10 * 60000) consumers))))"

definition bullet :: string where "bullet = [CHR 0xE2, CHR 0x80, CHR 0xA2]"

definition cleanup_text :: "int \<Rightarrow> int \<Rightarrow> string" where
  "cleanup_text totalRemoved skipped =
     (if totalRemoved > 0 then
        ''Cleaned up '' @ show_int totalRemoved @ '' dead consumer(s) from Redis'' @
        (if skipped > 0 then '' '' @ bullet @ '' Skipped '' @ show_int skipped @ '' with pending tasks in PEL'' else '''')
      else if skipped > 0 then
        ''Found '' @ show_int skipped @ '' dead consumer(s) with pending tasks '' @ bullet @
        '' Auto-recovery via XAUTOCLAIM will handle these''
      else ''No dead consumers found in consumer group'')"

definition handleCleanupConsumers :: "'w Ui \<Rightarrow> request \<Rightarrow> ('w, response) go" where
  "handleCleanupConsumers u r =
     (let sel = selected_group r
      in go_bind (op_GetQueues (ui_broker u)) (\<lambda>res. case res of
          Inl err \<Rightarrow> go_return failed_queues
        | Inr queues \<Rightarrow>
            go_bind (over_groups u sel queues (ui_cleanup_group u) 0) (\<lambda>totalRemoved.
            go_bind (over_groups u sel queues (count_skipped u) 0) (\<lambda>skipped.
            go_return (Fragment (Some ''refresh'') (cleanup_text totalRemoved skipped))))))"

section \<open>The dashboard\<close>

text \<open>The consumers of a group over all queues: the least idle time and the sum of what is pending.\<close>

definition merge_consumer :: "ConsumerInfo \<Rightarrow> ConsumerInfo gomap \<Rightarrow> ConsumerInfo gomap" where
  "merge_consumer c m = (case map_of m (ci_Name c) of
      None \<Rightarrow> map_put (ci_Name c) c m
    | Some old \<Rightarrow>
        (let old = (if ci_Idle c < ci_Idle old then old\<lparr>ci_Idle := ci_Idle c\<rparr> else old)
         in map_put (ci_Name c) (old\<lparr>ci_Pending := ci_Pending old + ci_Pending c\<rparr>) m))"

definition consumers_of_group :: "'w Ui \<Rightarrow> string \<Rightarrow> string list \<Rightarrow> ('w, ConsumerInfo gomap) go" where
  "consumers_of_group u grp queues = go_fold (\<lambda>queue m. go_bind (op_GetGroupConsumers (ui_broker u) queue grp) (\<lambda>r. go_return (case r of
       Inl err \<Rightarrow> m
     | Inr consumers \<Rightarrow> fold merge_consumer consumers m))) queues []"

text \<open>The status shown: dead, idle or active, each with a coloured dot.\<close>

definition dot :: "char list \<Rightarrow> string \<Rightarrow> string" where
  "dot tail_bytes s = [CHR 0xF0, CHR 0x9F] @ tail_bytes @ '' '' @ s"

definition consumer_status :: "int \<Rightarrow> string \<times> string" where
  "consumer_status idle =
     (let idleSeconds = go_div idle 1000
      in if idleSeconds > 600 then (dot [CHR 0x94, CHR 0xB4] ''Dead'', ''bg-red-900/30 text-red-400'')
         else if idleSeconds > 60 then (dot [CHR 0x9F, CHR 0xA1] ''Idle'', ''bg-yellow-900/30 text-yellow-400'')
         else (dot [CHR 0x9F, CHR 0xA2] ''Active'', ''bg-green-900/30 text-green-400''))"

definition display_consumer :: "ConsumerInfo \<Rightarrow> ConsumerDisplay" where
  "display_consumer c = (case consumer_status (ci_Idle c) of (status, cls) \<Rightarrow>
     \<lparr>cd_Name = ci_Name c, cd_Pending = ci_Pending c, cd_IdleTime = formatIdleTime (ci_Idle c),
      cd_Status = status, cd_StatusClass = cls\<rparr>)"

text \<open>Go iterates over a map in any order, so the order of the rows is a parameter \<open>ord\<close>.\<close>

definition display_consumers :: "(ConsumerInfo list \<Rightarrow> ConsumerInfo list) \<Rightarrow> ConsumerInfo gomap \<Rightarrow> ConsumerDisplay list" where
  "display_consumers ord m = map display_consumer (ord (map snd m))"

definition handlePartialConsumers :: "(ConsumerInfo list \<Rightarrow> ConsumerInfo list) \<Rightarrow> 'w Ui \<Rightarrow> request \<Rightarrow> ('w, response) go" where
  "handlePartialConsumers ord u r =
     (let sel = query_get r ''group''
      in if sel = '''' then go_return (Fragment None ''<div class=\"text-gray-500 text-sm\">No consumer group selected</div>'')
         else go_bind (op_GetQueues (ui_broker u)) (\<lambda>res. case res of
             Inl err \<Rightarrow> go_return (Fragment None (error_html err))
           | Inr queues \<Rightarrow> go_bind (consumers_of_group u sel queues) (\<lambda>m. go_return (ConsumerRows (display_consumers ord m)))))"

text \<open>The consumer groups of all queues with the names of their consumers, in the order of the names.\<close>

definition group_of_queue :: "'w Ui \<Rightarrow> string \<Rightarrow> ConsumerGroupInfo \<Rightarrow> string list gomap \<Rightarrow> ('w, string list gomap) go" where
  "group_of_queue u queue g m =
     (let names = (case map_of m (cg_Name g) of None \<Rightarrow> [] | Some ns \<Rightarrow> ns)
      in go_bind (op_GetGroupConsumers (ui_broker u) queue (cg_Name g)) (\<lambda>r. go_return
        (map_put (cg_Name g) (fold (\<lambda>c. List.insert (ci_Name c)) (case r of Inl err \<Rightarrow> [] | Inr cs \<Rightarrow> cs) names) m)))"

definition groups_of_queues :: "'w Ui \<Rightarrow> string list \<Rightarrow> ('w, string list gomap) go" where
  "groups_of_queues u queues = go_fold (\<lambda>queue m. go_bind (op_GetConsumerGroups (ui_broker u) queue) (\<lambda>r. case r of
       Inl err \<Rightarrow> go_return m
     | Inr groups \<Rightarrow> go_fold (group_of_queue u queue) groups m)) queues []"

definition handleDashboard :: "(ConsumerInfo list \<Rightarrow> ConsumerInfo list) \<Rightarrow> 'w Ui \<Rightarrow> request \<Rightarrow> ('w, response) go" where
  "handleDashboard ord u r = go_bind (op_GetQueues (ui_broker u)) (\<lambda>res. case res of
       Inl err \<Rightarrow> go_return failed_queues
     | Inr queues \<Rightarrow>
         go_bind (groups_of_queues u queues) (\<lambda>groups.
         let consumerGroups = map (\<lambda>(name, names). (name, int (length names))) groups;
             asked = query_get r ''group'';
             sel = (if asked = '''' \<and> consumerGroups \<noteq> [] then fst (hd consumerGroups) else asked)
         in go_bind (if sel \<noteq> '''' then group_rows u sel queues else go_return []) (\<lambda>rows.
            go_bind (if sel \<noteq> '''' then consumers_of_group u sel queues else go_return []) (\<lambda>m.
            go_bind (case ui_store u of
                None \<Rightarrow> go_return []
              | Some st \<Rightarrow> go_bind (st_GetStats st) (\<lambda>res. go_return (case res of
                    Inl err \<Rightarrow> []
                  | Inr stats \<Rightarrow> [(''Stats'', VStats stats)])))
              (\<lambda>stats. go_return (Render ''layout.html'' (VMap
                ([(''Title'', VText ''Dashboard''), (''Page'', VText ''dashboard''), (''ConsumerGroups'', VGroups consumerGroups),
                  (''SelectedGroup'', VText sel), (''Queues'', VRows rows),
                  (''Consumers'', VConsumers (display_consumers ord m))] @ stats))))))))"

end
