(* ===== verification/Ui_Properties.thy ===== *)
theory Ui_Properties
  imports Ui_Server Server_Recovery
begin

text \<open>
  What the pages and actions of the user interface promise: the window of tasks a page asks the store for,
  the revival of a whole dead letter queue, the cleanup of consumers, and the figures shown for them.
\<close>

section \<open>Pages of tasks\<close>

lemma tasks_filter_limit: "f_Limit (tasks_filter r) = limit_param (query_get r ''limit'')"
  and tasks_filter_offset: "f_Offset (tasks_filter r) = offset_param (query_get r ''page'') (limit_param (query_get r ''limit''))"
  by (simp_all add: tasks_filter_def Let_def)

lemma limit_param_range: "1 \<le> limit_param s \<and> limit_param s \<le> 100"
  by (simp add: limit_param_def split: option.split)

lemma go_int_small: "- (2 ^ 63) \<le> n \<Longrightarrow> n < 2 ^ 63 \<Longrightarrow> go_int n = n"
  by (simp add: go_int_def sint_word_of_int_range64)

lemma total_pages_least:
  assumes "0 \<le> cnt" and "cnt < 2 ^ 62" and "1 \<le> f_Limit f" and "f_Limit f \<le> 100"
  shows "cnt \<le> total_pages cnt f * f_Limit f \<and> (total_pages cnt f - 1) * f_Limit f < cnt"
proof -
  let ?l = "f_Limit f"
  have "total_pages cnt f = (cnt + ?l - 1) div ?l"
    using assms by (simp add: total_pages_def go_int_small)
  moreover have "(cnt + ?l - 1) div ?l * ?l \<le> cnt + ?l - 1" and "cnt + ?l - 1 < (cnt + ?l - 1) div ?l * ?l + ?l"
    using assms(3) div_mult_mod_eq [of "cnt + ?l - 1" ?l] pos_mod_bound [of ?l "cnt + ?l - 1"]
      pos_mod_sign [of ?l "cnt + ?l - 1"] by linarith+
  ultimately show ?thesis by (simp add: left_diff_distrib)
qed

text \<open>
  C36. Whatever the request, the page of tasks has between 1 and 100 entries, which is a limit the store
  accepts as it is. For a page number that does not overflow, the query starts after the entries of the
  pages before it, the page shown as current is the one asked for, and the number of pages is the least
  that holds all entries.
\<close>

theorem tasks_page:
  assumes "go_atoi (query_get r ''page'') = Some p" and "1 \<le> p" and "p \<le> 2 ^ 63 div 100" and "0 \<le> cnt" and "cnt < 2 ^ 62"
  shows "let f = tasks_filter r; l = f_Limit f in
    1 \<le> l \<and> l \<le> 100 \<and> list_limit f = l \<and> f_Offset f = (p - 1) * l \<and> current_page f = p \<and>
    cnt \<le> total_pages cnt f * l \<and> (\<forall>n. cnt \<le> n * l \<longrightarrow> total_pages cnt f \<le> n)"
proof -
  let ?f = "tasks_filter r" and ?l = "f_Limit (tasks_filter r)"
  have l: "1 \<le> ?l" "?l \<le> 100" unfolding tasks_filter_limit using limit_param_range by auto
  have "(p - 1) * ?l \<le> (p - 1) * 100" by (rule mult_left_mono) (use assms(2) l in simp_all)
  also have "\<dots> < 2 ^ 63" using assms(3) by simp
  finally have small: "(p - 1) * ?l < 2 ^ 63" .
  have pos: "0 \<le> (p - 1) * ?l" using assms(2) l by simp
  have off: "f_Offset ?f = (p - 1) * ?l"
    using assms(1,2) small pos go_int_small [of "(p - 1) * ?l"]
    by (simp add: tasks_filter_offset tasks_filter_limit [symmetric] offset_param_def)
  have "go_div ((p - 1) * ?l) ?l + 1 = p" using pos l by simp
  then have "current_page ?f = p" using assms(2,3) by (simp add: current_page_def off go_int_small)
  moreover note least = total_pages_least [OF assms(4,5) l]
  moreover have "total_pages cnt ?f \<le> n" if "cnt \<le> n * ?l" for n
  proof (rule ccontr)
    assume "\<not> ?thesis"
    then have "n * ?l \<le> (total_pages cnt ?f - 1) * ?l" using l by (intro mult_right_mono) auto
    with least that show False by simp
  qed
  moreover have "list_limit ?f = ?l" using l by (simp add: list_limit_def)
  ultimately show ?thesis using l off by (simp add: Let_def)
qed

definition page_request :: "string \<Rightarrow> request" where
  "page_request p = \<lparr>path_value = (\<lambda>k. ''''), query = (\<lambda>k. if k = ''page'' then [p] else []), form_value = (\<lambda>k. ''''),
     header = (\<lambda>k. '''')\<rparr>"

lemma page_request_sel [simp]: "query_get (page_request p) k = (if k = ''page'' then p else '''')"
  by (simp add: query_get_def page_request_def)

theorem tasks_page_witness:
  "f_Offset (tasks_filter (page_request ''3'')) = 40 \<and> current_page (tasks_filter (page_request ''3'')) = 3 \<and>
   total_pages 41 (tasks_filter (page_request ''3'')) = 3"
proof -
  have p: "go_atoi (query_get (page_request ''3'') ''page'') = Some 3" by simp code_simp
  have l: "f_Limit (tasks_filter (page_request ''3'')) = 20" by (simp add: tasks_filter_limit) code_simp
  from tasks_page [OF p, of 41] l have "f_Offset (tasks_filter (page_request ''3'')) = 40"
    and "current_page (tasks_filter (page_request ''3'')) = 3" by (simp_all add: Let_def)
  moreover have "total_pages 41 (tasks_filter (page_request ''3'')) = 3"
    by (simp add: total_pages_def l go_int_small)
  ultimately show ?thesis by simp
qed

text \<open>A page number beyond that asks for a negative offset, which PostgreSQL refuses.\<close>

lemma tasks_page_overflow: "f_Offset (tasks_filter (page_request ''461168601842738792'')) < 0"
proof -
  have "limit_param '''' = 20" by code_simp
  then have "f_Offset (tasks_filter (page_request ''461168601842738792'')) = offset_param ''461168601842738792'' 20"
    by (simp add: tasks_filter_offset)
  also have "\<dots> < 0"
  proof -
    have "go_atoi ''461168601842738792'' = Some 461168601842738792" by (simp add: go_atoi_def is_digit_def)
    then show ?thesis by (simp add: offset_param_def go_int_def)
  qed
  finally show ?thesis .
qed


section \<open>Reviving a dead letter queue\<close>

text \<open>The task as it comes back: pending, with no retry used and no error.\<close>

definition as_new :: "TaskProto \<Rightarrow> TaskProto" where
  "as_new t = norm_task (revived t (metadata_or_zero t))"

context steady_consumer
begin

lemma RetryFromDLQ_answers:
  assumes "I w" and "List.find (\<lambda>(i, t). ID t = tid) (dead (view cfg (db w) q)) = Some (i, t)" and "Metadata t = Some m"
  shows "\<exists>w'. RetryFromDLQ E q tid w = (Ret None, w') \<and> I w'"
proof -
  obtain rm w1 where range: "x_range E (dlqKey q) w = (rm, w1)" by (cases "x_range E (dlqKey q) w")
  from range_steady [OF assms(1) range] obtain ms where ms: "rm = Inr ms" and I1: "I w1" by blast
  from x_range_ok [OF range] ms have "ms = to_messages (streams (db w) (dlqKey q))" by simp
  with assms(2) obtain msg where found: "find_in_dlq tid ms = Some (msg, t)"
    using find_in_dlq_tasks [of tid "streams (db w) (dlqKey q)"] by (auto simp: view_def to_messages_def)
  from pipe_answers [OF I1] obtain w2 where "pipe_exec E [XDel (dlqKey q) (xm_ID msg),
      XAdd (streamKey q) [(''data'', remarshal (t\<lparr>Metadata := Some (m\<lparr>State := TaskStatePending, RetryCount := 0, LastError := ''''\<rparr>)\<rparr>))],
      Del (processedPrefix @ tid)] w1 = (None, w2)" and "I w2" by blast
  then show ?thesis using range ms found assms(3) by (auto simp: RetryFromDLQ_def go_bind_lift go_lift_iff Let_def)
qed

text \<open>The first dead task, by its identifier.\<close>

lemma revive_first:
  assumes "I w" and D: "dead (view cfg (db w) q) = (i, t) # ds" and "distinct (map fst ((i, t) # ds))" and "Metadata t = Some m"
  shows "\<exists>w' j. RetryFromDLQ E q (ID t) w = (Ret None, w') \<and> I w' \<and> view cfg (db w') = (view cfg (db w))
    (q := (view cfg (db w) q)\<lparr>dead := ds, ready := ready (view cfg (db w) q) @ [(j, as_new t)]\<rparr>)"
proof -
  have found: "List.find (\<lambda>(i, u). ID u = ID t) (dead (view cfg (db w) q)) = Some (i, t)" by (simp add: D)
  from RetryFromDLQ_answers [OF assms(1) found assms(4)] obtain w' where run: "RetryFromDLQ E q (ID t) w = (Ret None, w')"
    and "I w'" by blast
  from RetryFromDLQ_refines [OF run, of cfg] found assms(4) obtain j where "view cfg (db w') = (view cfg (db w))
      (q := put_ready j (norm_task (revived t m)) (drop_dead i (view cfg (db w) q)))" by auto
  moreover have "filter (\<lambda>e. fst e \<noteq> i) ds = ds" using assms(3) by (force simp: filter_id_conv)
  then have "put_ready j (norm_task (revived t m)) (drop_dead i (view cfg (db w) q)) =
      (view cfg (db w) q)\<lparr>dead := ds, ready := ready (view cfg (db w) q) @ [(j, as_new t)]\<rparr>"
    using assms(4) by (simp add: put_ready_def drop_dead_def D as_new_def metadata_or_zero_def)
  ultimately show ?thesis using run \<open>I w'\<close> by auto
qed

lemma revive_all:
  assumes B: "ui_broker u = redis_broker E cfg"
  shows "I w \<Longrightarrow> dead (view cfg (db w) q) = ds @ rest \<Longrightarrow> distinct (map fst (ds @ rest)) \<Longrightarrow>
    \<forall>e \<in> set ds. Metadata (snd e) \<noteq> None \<Longrightarrow>
    \<exists>w' new. go_fold (retry_dead u q) (map snd ds) n w = (Ret (n + int (length ds)), w') \<and> I w' \<and>
      map snd new = map (\<lambda>e. as_new (snd e)) ds \<and> view cfg (db w') = (view cfg (db w))
        (q := (view cfg (db w) q)\<lparr>dead := rest, ready := ready (view cfg (db w) q) @ new\<rparr>)"
proof (induction ds arbitrary: w n)
  case Nil
  have "(v :: queue_view)\<lparr>dead := dead v, ready := ready v @ []\<rparr> = v" for v by simp
  with Nil have "(view cfg (db w) q)\<lparr>dead := rest, ready := ready (view cfg (db w) q) @ []\<rparr> = view cfg (db w) q"
    by (metis append_Nil)
  with Nil(1) show ?case by (auto intro: exI [of _ w] simp: fun_eq_iff simp del: append_Nil2)
next
  case (Cons e ds)
  obtain i t where e: "e = (i, t)" by (cases e)
  with Cons.prems(4) obtain m where m: "Metadata t = Some m" by auto
  from revive_first [OF Cons.prems(1), of cfg q i t "ds @ rest" m] Cons.prems e m obtain w1 j where
    run: "RetryFromDLQ E q (ID t) w = (Ret None, w1)" and I1: "I w1" and v1: "view cfg (db w1) = (view cfg (db w))
      (q := (view cfg (db w) q)\<lparr>dead := ds @ rest, ready := ready (view cfg (db w) q) @ [(j, as_new t)]\<rparr>)" by auto
  have "dead (view cfg (db w1) q) = ds @ rest" and "distinct (map fst (ds @ rest))" and "\<forall>e \<in> set ds. Metadata (snd e) \<noteq> None"
    using v1 Cons.prems(3,4) by simp_all
  from Cons.IH [OF I1 this, of "n + 1"] obtain w' new where
    rest: "go_fold (retry_dead u q) (map snd ds) (n + 1) w1 = (Ret (n + 1 + int (length ds)), w')" and "I w'"
    and new: "map snd new = map (\<lambda>e. as_new (snd e)) ds" and v': "view cfg (db w') = (view cfg (db w1))
        (q := (view cfg (db w1) q)\<lparr>dead := rest, ready := ready (view cfg (db w1) q) @ new\<rparr>)" by blast
  have "go_fold (retry_dead u q) (map snd (e # ds)) n w = (Ret (n + int (length (e # ds))), w')"
    using run rest B by (simp add: e retry_dead_def go_bind_Ret)
  moreover have "view cfg (db w') = (view cfg (db w))
      (q := (view cfg (db w) q)\<lparr>dead := rest, ready := ready (view cfg (db w) q) @ (j, as_new t) # new\<rparr>)"
    unfolding v' v1 by simp
  ultimately show ?case using \<open>I w'\<close> new e
    by (intro exI [of _ w'] exI [of _ "(j, as_new t) # new"]) simp
qed

end

text \<open>
  C33. When Redis answers and the dead tasks have metadata, retrying all dead tasks of a queue moves its oldest
  1000 to the end of the queue's stream, in their order, each pending with no retry used and no error,
  leaves the others dead, changes nothing else in any queue, and reports the number moved.
\<close>

theorem handleRetryAllDead_revives:
  assumes "steady_consumer E db clk I" and "ui_broker u = redis_broker E cfg" and "I w"
    and "\<forall>e \<in> set (dead (view cfg (db w) (path_value r ''queue''))). Metadata (snd e) \<noteq> None"
  shows "let q = path_value r ''queue''; v = view cfg (db w) q; ds = take 1000 (dead v) in
    \<exists>w' new. handleRetryAllDead u r w =
        (Ret (Fragment (Some ''dlqCleared'') (done_html (show_int (int (length ds)) @ '' tasks queued for retry''))), w') \<and>
      map snd new = map (\<lambda>e. as_new (snd e)) ds \<and>
      view cfg (db w') = (view cfg (db w))(q := v\<lparr>dead := drop 1000 (dead v), ready := ready v @ new\<rparr>)"
proof -
  let ?q = "path_value r ''queue''"
  let ?d = "dead (view cfg (db w) ?q)"
  obtain rm w1 where range: "x_range E (dlqKey ?q) w = (rm, w1)" by (cases "x_range E (dlqKey ?q) w")
  from steady_consumer.range_steady [OF assms(1,3) range] obtain ms where ms: "rm = Inr ms" and I1: "I w1" by blast
  then have get: "GetDLQ E ?q 1000 w = (Ret (Inr (get_dlq_loop 1000 0 ms)), w1)"
    using range by (simp add: GetDLQ_def go_bind_lift)
  have redis: "redis_server E db clk"
    using assms(1) by (simp add: steady_consumer_def redis_consumer_def)
  from redis_server.GetDLQ_result [OF redis get, of cfg] have tasks: "get_dlq_loop 1000 0 ms = map snd (take 1000 ?d)"
    and db1: "db w1 = db w" by simp_all
  have "distinct (map fst ?d)"
    using steady_consumer.ids_unique [OF assms(1,3)] tasks_of_distinct by (simp add: view_def)
  moreover have "\<forall>e \<in> set (take 1000 ?d). Metadata (snd e) \<noteq> None" using assms(4) in_set_takeD by fast
  ultimately obtain w' new where
    run: "go_fold (retry_dead u ?q) (map snd (take 1000 ?d)) 0 w1 = (Ret (0 + int (length (take 1000 ?d))), w')"
    and new: "map snd new = map (\<lambda>e. as_new (snd e)) (take 1000 ?d)"
    and v: "view cfg (db w') = (view cfg (db w1))
        (?q := (view cfg (db w1) ?q)\<lparr>dead := drop 1000 ?d, ready := ready (view cfg (db w1) ?q) @ new\<rparr>)"
    using steady_consumer.revive_all [OF assms(1,2) I1, of ?q "take 1000 ?d" "drop 1000 ?d" 0] db1 by auto
  have "handleRetryAllDead u r w =
      (Ret (Fragment (Some ''dlqCleared'') (done_html (show_int (int (length (take 1000 ?d))) @ '' tasks queued for retry''))), w')"
    using get run assms(2) by (simp add: handleRetryAllDead_def Let_def tasks go_bind_Ret)
  with new v db1 show ?thesis unfolding Let_def by (intro exI [of _ w'] exI [of _ new]) simp
qed


definition demo_ui :: "mem Ui" where
  "demo_ui = \<lparr>ui_broker = redis_broker mem_env DefaultConsumerConfig, ui_store = None\<rparr>"

definition queue_request :: "string \<Rightarrow> request" where
  "queue_request q = \<lparr>path_value = (\<lambda>k. if k = ''queue'' then q else ''''), query = (\<lambda>k. []), form_value = (\<lambda>k. ''''),
     header = (\<lambda>k. '''')\<rparr>"

lemma demo_ui_sel [simp]: "ui_broker demo_ui = redis_broker mem_env DefaultConsumerConfig"
  "path_value (queue_request q) ''queue'' = q"
  by (simp_all add: demo_ui_def queue_request_def)

lemma dead_mem_facts: "steady_mem dead_mem"
  "dead (view DefaultConsumerConfig (mem_db dead_mem) ''critical'') = [(''d1'', norm_task demo_message)]"
  "ready (view DefaultConsumerConfig (mem_db dead_mem) ''critical'') = []"
  by (simp_all add: dead_mem_def steady_mem_def healthy_def empty_mem_def time_printable_def unix_def Second_def view_def
      mem_db_def message_task_def demo_message_reads)

theorem handleRetryAllDead_revives_witness:
  "\<exists>w' i. handleRetryAllDead demo_ui (queue_request ''critical'') dead_mem =
      (Ret (Fragment (Some ''dlqCleared'') (done_html ''1 tasks queued for retry'')), w') \<and>
    ready (view DefaultConsumerConfig (mem_db w') ''critical'') = [(i, as_new (norm_task demo_message))] \<and>
    dead (view DefaultConsumerConfig (mem_db w') ''critical'') = []"
proof -
  have one: "show_int 1 = ''1''" by code_simp
  have "\<forall>e \<in> set (dead (view DefaultConsumerConfig (mem_db dead_mem) (path_value (queue_request ''critical'') ''queue''))).
      Metadata (snd e) \<noteq> None"
    by (simp add: dead_mem_facts)
  from handleRetryAllDead_revives [OF mem_steady_consumer.steady_consumer_axioms demo_ui_sel(1) dead_mem_facts(1) this]
  have "\<exists>w' new. handleRetryAllDead demo_ui (queue_request ''critical'') dead_mem =
        (Ret (Fragment (Some ''dlqCleared'') (done_html ''1 tasks queued for retry'')), w') \<and>
      map snd new = [as_new (norm_task demo_message)] \<and>
      view DefaultConsumerConfig (mem_db w') = (view DefaultConsumerConfig (mem_db dead_mem))
        (''critical'' := (view DefaultConsumerConfig (mem_db dead_mem) ''critical'')\<lparr>dead := [], ready := new\<rparr>)"
    by (simp add: Let_def dead_mem_facts one)
  then show ?thesis by fastforce
qed

section \<open>Cleaning up consumers\<close>

context redis_consumer
begin

lemma over_groups_keeps:
  assumes B: "ui_broker u = redis_broker E cfg"
    and step: "\<And>q g s w s' w'. f q g s w = (Ret s', w') \<Longrightarrow> db w' = db w"
    and run: "over_groups u sel queues f s w = (Ret s', w')"
  shows "db w' = db w"
proof (rule go_fold_invariant [where I = "\<lambda>xs s v. db v = db w", OF _ run [unfolded over_groups_def]])
  fix q qs s v s' v'
  assume inv: "db v = db w" and run: "go_bind (op_GetConsumerGroups (ui_broker u) q) (\<lambda>r. case r of
       Inl err \<Rightarrow> go_return s
     | Inr groups \<Rightarrow> go_fold (\<lambda>g s. if sel \<noteq> '''' \<and> cg_Name g \<noteq> sel then go_return s else f q (cg_Name g) s) groups s) v = (Ret s', v')"
  from run B obtain r v1 where get: "GetConsumerGroups E q v = (Ret r, v1)"
    and rest: "(case r of Inl err \<Rightarrow> go_return s
     | Inr groups \<Rightarrow> go_fold (\<lambda>g s. if sel \<noteq> '''' \<and> cg_Name g \<noteq> sel then go_return s else f q (cg_Name g) s) groups s) v1 = (Ret s', v')"
    by (auto simp: go_bind_Ret_iff)
  have db1: "db v1 = db v"
    using get info_groups_ok [of "streamKey q" v _ v1] by (auto simp: GetConsumerGroups_def run_iff)
  show "db v' = db w"
  proof (cases r)
    case (Inl err)
    with rest db1 inv show ?thesis by simp
  next
    case (Inr groups)
    have "db v' = db v1"
      by (rule go_fold_invariant [where I = "\<lambda>xs k x. db x = db v1", OF _ rest [unfolded Inr sum.case]])
        (auto dest: step split: if_splits)
    with db1 inv show ?thesis by simp
  qed
qed simp

lemma ui_cleanup_group_keeps:
  assumes B: "ui_broker u = redis_broker E cfg" and run: "ui_cleanup_group u q g n w = (Ret n', w')"
  shows "db w' = db w"
proof -
  from run B obtain r w1 where get: "GetGroupConsumers E q g w = (Ret r, w1)"
    and rest: "(case r of Inl err \<Rightarrow> go_return n
      | Inr consumers \<Rightarrow> go_fold (ui_cleanup_consumer u q g) consumers n) w1 = (Ret n', w')"
    by (auto simp: ui_cleanup_group_def go_bind_Ret_iff)
  show ?thesis
  proof (cases r)
    case (Inl err)
    with rest get info_consumers_ok [of "streamKey q" g w _ w1] show ?thesis
      by (auto simp: GetGroupConsumers_def run_iff)
  next
    case (Inr cs)
    show ?thesis
      by (rule remove_idle_keeps [OF get [unfolded Inr] _ rest [unfolded Inr sum.case]])
        (auto simp: B ui_cleanup_consumer_def ui_should_cleanup_def RemoveConsumer_def run_iff split: if_splits option.splits)
  qed
qed

lemma count_skipped_keeps:
  assumes B: "ui_broker u = redis_broker E cfg" and "count_skipped u q g n w = (Ret n', w')"
  shows "db w' = db w"
  using assms info_consumers_ok [of "streamKey q" g w _ w']
  by (auto simp: count_skipped_def GetGroupConsumers_def run_iff)

text \<open>The cleanup that a user asks for loses nothing either.\<close>

lemma handleCleanupConsumers_keeps:
  assumes B: "ui_broker u = redis_broker E cfg" and run: "handleCleanupConsumers u r w = (Ret res, w')"
  shows "db w' = db w"
proof -
  from run B obtain qs w1 where get: "GetQueues E w = (Ret qs, w1)"
    and rest: "(case qs of
          Inl err \<Rightarrow> go_return failed_queues
        | Inr queues \<Rightarrow>
            go_bind (over_groups u (selected_group r) queues (ui_cleanup_group u) 0) (\<lambda>totalRemoved.
            go_bind (over_groups u (selected_group r) queues (count_skipped u) 0) (\<lambda>skipped.
            go_return (Fragment (Some ''refresh'') (cleanup_text totalRemoved skipped))))) w1 = (Ret res, w')"
    by (auto simp: handleCleanupConsumers_def Let_def go_bind_Ret_iff)
  have db1: "db w1 = db w" using get s_members_ok [of queuesKey w] by (auto simp: GetQueues_def run_iff)
  show ?thesis
  proof (cases qs)
    case (Inl err)
    with rest db1 show ?thesis by simp
  next
    case (Inr queues)
    with rest obtain n m w2 where "over_groups u (selected_group r) queues (ui_cleanup_group u) 0 w1 = (Ret n, w2)"
      and "over_groups u (selected_group r) queues (count_skipped u) 0 w2 = (Ret m, w')"
      by (auto simp: go_bind_Ret_iff)
    from over_groups_keeps [OF B ui_cleanup_group_keeps [OF B] this(1)]
      over_groups_keeps [OF B count_skipped_keeps [OF B] this(2)] db1
    show ?thesis by simp
  qed
qed

end

text \<open>A consumer that has been idle for just over ten minutes is removed while it is still shown as idle.\<close>

lemma cleanup_before_dead:
  "ui_should_cleanup \<lparr>ci_Name = c, ci_Pending = 0, ci_Idle = 600500, ci_Inactive = 0\<rparr> \<and>
   fst (consumer_status 600500) = dot [CHR 0x9F, CHR 0xA1] ''Idle''"
  by (simp add: ui_should_cleanup_def consumer_status_def Minute_def Second_def Millisecond_def)

section \<open>The figures of the consumers\<close>

definition named :: "string \<Rightarrow> ConsumerInfo list \<Rightarrow> ConsumerInfo list" where
  "named n cs = filter (\<lambda>c. ci_Name c = n) cs"

lemma map_of_merge: "map_of (merge_consumer x m) n = (if ci_Name x = n then Some (case map_of m n of
     None \<Rightarrow> x
   | Some c \<Rightarrow> c\<lparr>ci_Pending := ci_Pending c + ci_Pending x, ci_Idle := min (ci_Idle x) (ci_Idle c)\<rparr>) else map_of m n)"
  by (auto simp: merge_consumer_def Let_def min_def split: option.split)

text \<open>Each name is shown once, with all that is pending for it in any queue and its least idle time.\<close>

lemma merge_consumers_totals:
  "case map_of (fold merge_consumer cs []) n of
     None \<Rightarrow> named n cs = []
   | Some c \<Rightarrow> named n cs \<noteq> [] \<and> ci_Name c = n \<and> ci_Pending c = sum_list (map ci_Pending (named n cs)) \<and>
       ci_Idle c = Min (ci_Idle ` set (named n cs))"
proof (induction cs rule: rev_induct)
  case Nil
  then show ?case by (simp add: named_def)
next
  case (snoc x xs)
  define m where "m = fold merge_consumer xs []"
  have step: "fold merge_consumer (xs @ [x]) [] = merge_consumer x m" by (simp add: m_def)
  have named: "named n (xs @ [x]) = (if ci_Name x = n then named n xs @ [x] else named n xs)" by (simp add: named_def)
  show ?case
  proof (cases "map_of m n")
    case None
    with snoc show ?thesis unfolding m_def [symmetric] step named by (auto simp: map_of_merge)
  next
    case (Some c)
    with snoc have ne: "named n xs \<noteq> []" and c: "ci_Name c = n" "ci_Pending c = sum_list (map ci_Pending (named n xs))"
      "ci_Idle c = Min (ci_Idle ` set (named n xs))" by (simp_all add: m_def)
    have "Min (ci_Idle ` set (named n xs @ [x])) = min (ci_Idle x) (ci_Idle c)" using ne c(3) by (simp add: Min_insert)
    with Some c ne show ?thesis unfolding step named by (auto simp: map_of_merge min_def)
  qed
qed

lemma merge_consumers_once: "gomap_ok (fold merge_consumer cs m)" if "gomap_ok m"
  using that by (induction cs arbitrary: m) (auto simp: merge_consumer_def Let_def split: option.split)

end
