(* ===== verification/Ui_Routes.thy ===== *)
theory Ui_Routes
  imports Ui_Server
begin

text \<open>
  The routes that \<open>NewServer\<close> of \<^verbatim>\<open>ui/server.go\<close> registers, and what a request leads to. \<open>http.ServeMux\<close> is
  the one of Go 1.22: a pattern has a method and segments, a wildcard segment matches one segment that is not
  empty, a pattern that ends in a slash matches everything below it, GET patterns also serve HEAD, and of
  the patterns that match the most specific one is taken. A path is the list of what is between its slashes,
  already clean and not empty: \<^verbatim>\<open>/\<close> is \<open>['''']\<close>.
\<close>

section \<open>Patterns\<close>

datatype segment = Lit string | Wild string | Below

type_synonym pattern = "segment list"

fun match_path :: "pattern \<Rightarrow> string list \<Rightarrow> (string \<times> string) list option" where
  "match_path [] [] = Some []"
| "match_path [Below] (x # xs) = Some []"
| "match_path (Lit s # p) (x # xs) = (if x = s then match_path p xs else None)"
| "match_path (Wild k # p) (x # xs) = (if x = '''' then None else map_option (Cons (k, x)) (match_path p xs))"
| "match_path _ _ = None"

text \<open>Every path of the first pattern is one of the second.\<close>

fun finer :: "pattern \<Rightarrow> pattern \<Rightarrow> bool" where
  "finer [] [] = True"
| "finer (s # p) [Below] = True"
| "finer (Lit a # p) (Lit b # q) = (a = b \<and> finer p q)"
| "finer (Lit a # p) (Wild k # q) = (a \<noteq> '''' \<and> finer p q)"
| "finer (Wild k # p) (Wild l # q) = finer p q"
| "finer _ _ = False"

section \<open>The routes\<close>

datatype endpoint = StaticFiles | Dashboard | Queues | QueueDetail | Tasks | TaskDetail | DeadLetterQueue | APIStats | APIQueues
  | APITasks | RetryTask | DeleteTask | RetryAllDead | PurgeDead | CleanupConsumers | PartialStats | PartialQueues
  | PartialConsumers | PartialTasks

definition ui_routes :: "(string \<times> pattern \<times> endpoint) list" where
  "ui_routes =
    [(''GET'', [Lit ''static'', Below], StaticFiles),
     (''GET'', [Below], Dashboard),
     (''GET'', [Lit ''queues''], Queues),
     (''GET'', [Lit ''queues'', Wild ''queue''], QueueDetail),
     (''GET'', [Lit ''tasks''], Tasks),
     (''GET'', [Lit ''tasks'', Wild ''id''], TaskDetail),
     (''GET'', [Lit ''dead''], DeadLetterQueue),
     (''GET'', [Lit ''api'', Lit ''stats''], APIStats),
     (''GET'', [Lit ''api'', Lit ''queues''], APIQueues),
     (''GET'', [Lit ''api'', Lit ''tasks''], APITasks),
     (''POST'', [Lit ''tasks'', Wild ''id'', Lit ''retry''], RetryTask),
     (''POST'', [Lit ''tasks'', Wild ''id'', Lit ''delete''], DeleteTask),
     (''POST'', [Lit ''dead'', Wild ''queue'', Lit ''retry-all''], RetryAllDead),
     (''POST'', [Lit ''dead'', Wild ''queue'', Lit ''purge''], PurgeDead),
     (''POST'', [Lit ''admin'', Lit ''cleanup-consumers''], CleanupConsumers),
     (''GET'', [Lit ''partials'', Lit ''stats''], PartialStats),
     (''GET'', [Lit ''partials'', Lit ''queues''], PartialQueues),
     (''GET'', [Lit ''partials'', Lit ''consumers''], PartialConsumers),
     (''GET'', [Lit ''partials'', Lit ''tasks''], PartialTasks)]"

definition serves :: "string \<Rightarrow> string \<Rightarrow> bool" where
  "serves pm m \<longleftrightarrow> pm = m \<or> (pm = ''GET'' \<and> m = ''HEAD'')"

text \<open>Two patterns conflict, which makes the registration panic, when they overlap for some method and neither
  is finer than the other; \<open>overlap\<close> says whether a path matches both.\<close>

fun overlap :: "pattern \<Rightarrow> pattern \<Rightarrow> bool" where
  "overlap [] [] = True"
| "overlap [Below] (s # q) = True"
| "overlap (s # p) [Below] = True"
| "overlap (Lit a # p) (Lit b # q) = (a = b \<and> overlap p q)"
| "overlap (Lit a # p) (Wild k # q) = (a \<noteq> '''' \<and> overlap p q)"
| "overlap (Wild k # p) (Lit b # q) = (b \<noteq> '''' \<and> overlap p q)"
| "overlap (Wild k # p) (Wild l # q) = overlap p q"
| "overlap _ _ = False"

definition conflict :: "string \<times> pattern \<times> endpoint \<Rightarrow> string \<times> pattern \<times> endpoint \<Rightarrow> bool" where
  "conflict r r' = (case r of (m, p, _) \<Rightarrow> case r' of (m', p', _) \<Rightarrow>
     m = m' \<and> overlap p p' \<and> (finer p p' \<longleftrightarrow> finer p' p))"

text \<open>The routes that match, and the most specific of them.\<close>

definition candidates :: "string \<Rightarrow> string list \<Rightarrow> (string \<times> pattern \<times> endpoint) list" where
  "candidates m path = filter (\<lambda>(pm, p, e). serves pm m \<and> match_path p path \<noteq> None) ui_routes"

definition most_specific :: "(string \<times> pattern \<times> endpoint) list \<Rightarrow> (string \<times> pattern \<times> endpoint) option" where
  "most_specific rs = List.find (\<lambda>(m, p, e). list_all (\<lambda>(m', p', e'). finer p p') rs) rs"

text \<open>A match by everything below, where the path with a slash at its end would match exactly, redirects.\<close>

definition inexact :: "pattern \<Rightarrow> string list \<Rightarrow> bool" where
  "inexact p path \<longleftrightarrow> last p = Below \<and> (last path \<noteq> '''' \<or> length p \<noteq> length path)"

definition to_slash :: "string \<Rightarrow> string list \<Rightarrow> bool" where
  "to_slash m path \<longleftrightarrow> last path \<noteq> '''' \<and> (case most_specific (candidates m (path @ [''''])) of
      None \<Rightarrow> False
    | Some (pm, p, e) \<Rightarrow> \<not> inexact p (path @ ['''']))"

datatype routed = Endpoint endpoint "(string \<times> string) list" | Redirect | NotAllowed | NotFound

definition ui_route :: "string \<Rightarrow> string list \<Rightarrow> routed" where
  "ui_route m path = (case most_specific (candidates m path) of
      Some (pm, p, e) \<Rightarrow> if inexact p path \<and> to_slash m path then Redirect else Endpoint e (the (match_path p path))
    | None \<Rightarrow>
        if to_slash m path then Redirect
        else if list_ex (\<lambda>(pm, p, e). match_path p path \<noteq> None) ui_routes then NotAllowed else NotFound)"

section \<open>Serving a request\<close>

text \<open>\<open>static\<close> is the file server, \<open>ord\<close> the order in which Go goes through the consumers of the dashboard.\<close>

fun ui_handle ::
  "('w, response) go \<Rightarrow> (ConsumerInfo list \<Rightarrow> ConsumerInfo list) \<Rightarrow> 'w Ui \<Rightarrow> endpoint \<Rightarrow> request \<Rightarrow> ('w, response) go" where
  "ui_handle static ord u StaticFiles r = static"
| "ui_handle static ord u Dashboard r = handleDashboard ord u r"
| "ui_handle static ord u Queues r = handleQueues u r"
| "ui_handle static ord u QueueDetail r = handleQueueDetail u r"
| "ui_handle static ord u Tasks r = handleTasks u r"
| "ui_handle static ord u TaskDetail r = handleTaskDetail u r"
| "ui_handle static ord u DeadLetterQueue r = handleDeadLetterQueue u r"
| "ui_handle static ord u APIStats r = handleAPIStats u r"
| "ui_handle static ord u APIQueues r = handleAPIQueues u r"
| "ui_handle static ord u APITasks r = handleAPITasks u r"
| "ui_handle static ord u RetryTask r = handleRetryTask u r"
| "ui_handle static ord u DeleteTask r = handleDeleteTask u r"
| "ui_handle static ord u RetryAllDead r = handleRetryAllDead u r"
| "ui_handle static ord u PurgeDead r = handlePurgeDead u r"
| "ui_handle static ord u CleanupConsumers r = handleCleanupConsumers u r"
| "ui_handle static ord u PartialStats r = handlePartialStats u r"
| "ui_handle static ord u PartialQueues r = handlePartialQueues u r"
| "ui_handle static ord u PartialConsumers r = handlePartialConsumers ord u r"
| "ui_handle static ord u PartialTasks r = handlePartialTasks u r"

definition path_var :: "(string \<times> string) list \<Rightarrow> string \<Rightarrow> string" where
  "path_var vars k = (case map_of vars k of None \<Rightarrow> '''' | Some v \<Rightarrow> v)"

definition ui_serve ::
  "('w, response) go \<Rightarrow> (ConsumerInfo list \<Rightarrow> ConsumerInfo list) \<Rightarrow> 'w Ui \<Rightarrow> string \<Rightarrow> string list \<Rightarrow> request \<Rightarrow> ('w, response) go" where
  "ui_serve static ord u m path r = (case ui_route m path of
      Endpoint e vars \<Rightarrow> ui_handle static ord u e (r\<lparr>path_value := path_var vars\<rparr>)
    | Redirect \<Rightarrow> go_return (HttpError ''Moved Permanently'' 301)
    | NotAllowed \<Rightarrow> go_return (HttpError ''Method Not Allowed'' 405)
    | NotFound \<Rightarrow> go_return (HttpError ''404 page not found'' 404))"

section \<open>The mux\<close>

lemma match_path_Below: "match_path [Below] path = (if path = [] then None else Some [])"
  by (cases path) simp_all

lemma finer_matches: "finer p q \<Longrightarrow> match_path p path = Some vs \<Longrightarrow> \<exists>us. match_path q path = Some us"
proof (induction p q arbitrary: path vs rule: finer.induct)
  case (2 s p)
  then show ?case by (cases path) (auto elim: match_path.elims)
next
  case (3 a p b q)
  then show ?case by (cases path) (auto split: if_splits)
next
  case (4 a p k q)
  then obtain xs where xs: "path = a # xs" "match_path p xs = Some vs" by (cases path) (auto split: if_splits)
  with 4 show ?case by fastforce
next
  case (5 k p l q)
  then obtain x xs us where "path = x # xs" "x \<noteq> ''''" "match_path p xs = Some us"
    by (cases path) (auto split: if_splits)
  with 5 show ?case by fastforce
qed auto

lemma no_conflicts: "list_all (\<lambda>(r, r'). r = r' \<or> \<not> conflict r r') (List.product ui_routes ui_routes)"
  by (simp add: ui_routes_def conflict_def)

section \<open>A new server\<close>

text \<open>The logger of the configuration is not modelled.\<close>

record 'w UiConfig =
  uc_Addr :: string
  uc_Broker :: "'w broker_ops"
  uc_Store :: "'w task_store option"

record 'w UiServer =
  us_ui :: "'w Ui"
  us_Addr :: string
  us_routes :: "(string \<times> pattern \<times> endpoint) list"
  us_ReadTimeout :: duration
  us_WriteTimeout :: duration
  us_IdleTimeout :: duration

text \<open>\<open>HandleFunc\<close> panics for a pattern that conflicts with one that is registered.\<close>

fun register_routes ::
  "(string \<times> pattern \<times> endpoint) list \<Rightarrow> (string \<times> pattern \<times> endpoint) list \<Rightarrow> (string \<times> pattern \<times> endpoint) list outcome" where
  "register_routes known [] = Ret known"
| "register_routes known (r # rs) =
     (if list_ex (conflict r) known then Panic ''pattern conflicts with pattern'' else register_routes (known @ [r]) rs)"

text \<open>\<open>parse\<close> is the error of parsing the embedded templates, if there is one.\<close>

definition ui_NewServer :: "go_error option \<Rightarrow> 'w UiConfig \<Rightarrow> (go_error + 'w UiServer) outcome" where
  "ui_NewServer parse cfg = (case parse of
      Some err \<Rightarrow> Ret (Inl (ErrWrap ''failed to parse templates: '' err))
    | None \<Rightarrow> (case register_routes [] ui_routes of
        Panic msg \<Rightarrow> Panic msg
      | Ret routes \<Rightarrow> Ret (Inr \<lparr>us_ui = \<lparr>ui_broker = uc_Broker cfg, ui_store = uc_Store cfg\<rparr>, us_Addr = uc_Addr cfg,
          us_routes = routes, us_ReadTimeout = dur (10 * Second), us_WriteTimeout = dur (30 * Second),
          us_IdleTimeout = dur (60 * Second)\<rparr>)))"

lemma register_routes_all:
  assumes "\<forall>r \<in> set known \<union> set rs. \<forall>r' \<in> set known \<union> set rs. r = r' \<or> \<not> conflict r r'" and "distinct (known @ rs)"
  shows "register_routes known rs = Ret (known @ rs)"
  using assms
proof (induction rs arbitrary: known)
  case (Cons r rs)
  have "\<not> conflict r r'" if "r' \<in> set known" for r'
    using Cons.prems that by (metis (no_types, lifting) UnI1 UnI2 disjoint_iff distinct_append list.set_intros(1))
  then have "\<not> list_ex (conflict r) known" unfolding list_ex_iff by blast
  moreover have "register_routes (known @ [r]) rs = Ret ((known @ [r]) @ rs)" by (rule Cons.IH) (use Cons.prems in auto)
  ultimately show ?case by simp
qed simp

text \<open>The registration does not panic: without an error in the templates the server has every route.\<close>

lemma ui_NewServer_registers: "ui_NewServer None cfg = Ret (Inr s) \<Longrightarrow> us_routes s = ui_routes"
  and ui_NewServer_returns: "\<exists>s. ui_NewServer None cfg = Ret (Inr s)"
proof -
  have "distinct ui_routes" by (simp add: ui_routes_def)
  then have "register_routes [] ui_routes = Ret ui_routes"
    using register_routes_all [of "[]" ui_routes] no_conflicts by (simp add: list_all_iff)
  then show "ui_NewServer None cfg = Ret (Inr s) \<Longrightarrow> us_routes s = ui_routes" and "\<exists>s. ui_NewServer None cfg = Ret (Inr s)"
    by (auto simp: ui_NewServer_def)
qed

section \<open>What a request can lead to\<close>

lemma find_in: "List.find P xs = Some x \<Longrightarrow> x \<in> set xs"
  by (auto simp: find_Some_iff)

lemma routed_by:
  assumes "ui_route m path = Endpoint e vars"
  shows "\<exists>pm p. (pm, p, e) \<in> set ui_routes \<and> serves pm m \<and> match_path p path = Some vars"
proof -
  from assms obtain pm p e' where best: "most_specific (candidates m path) = Some (pm, p, e')"
    by (auto simp: ui_route_def split: option.splits if_splits)
  with assms have e: "e' = e" "the (match_path p path) = vars" by (auto simp: ui_route_def split: if_splits)
  from best have "(pm, p, e') \<in> set (candidates m path)" unfolding most_specific_def by (rule find_in)
  with e have "(pm, p, e) \<in> set ui_routes \<and> serves pm m \<and> match_path p path = Some vars" by (auto simp: candidates_def)
  then show ?thesis by blast
qed

definition action :: "endpoint \<Rightarrow> bool" where
  "action e \<longleftrightarrow> e \<in> {RetryTask, DeleteTask, RetryAllDead, PurgeDead, CleanupConsumers}"

lemma route_methods: "(pm, p, e) \<in> set ui_routes \<Longrightarrow> pm = (if action e then ''POST'' else ''GET'')"
  by (auto simp: ui_routes_def action_def)

lemma get_is_no_action: "ui_route m path = Endpoint e vars \<Longrightarrow> m \<noteq> ''POST'' \<Longrightarrow> \<not> action e"
  using routed_by [of m path e vars] route_methods by (fastforce simp: serves_def)

section \<open>Paths that nobody registered\<close>

definition page_roots :: "string list" where
  "page_roots = [''static'', ''queues'', ''tasks'', ''dead'', ''api'', ''partials'']"

lemma get_candidates:
  assumes "s \<notin> set page_roots" and "m = ''GET'' \<or> m = ''HEAD''"
  shows "candidates m (s # path) = [(''GET'', [Below], Dashboard)]"
  using assms by (auto simp: candidates_def ui_routes_def serves_def page_roots_def)

text \<open>
  A GET request below a first segment that no page has is answered with the dashboard and status 200,
  never with 404: \<open>GET /\<close> is a pattern for every path.
\<close>

theorem unknown_pages_show_dashboard:
  assumes "s \<notin> set page_roots" and "m = ''GET'' \<or> m = ''HEAD''"
  shows "ui_serve static ord u m (s # path) r = handleDashboard ord u (r\<lparr>path_value := \<lambda>k. ''''\<rparr>)"
proof -
  have "most_specific [(''GET'', [Below], Dashboard)] = Some (''GET'', [Below], Dashboard)"
    by (simp add: most_specific_def)
  moreover have "\<not> to_slash m (s # path)"
    using get_candidates [OF assms, of "path @ ['''']"] calculation by (simp add: to_slash_def inexact_def)
  ultimately have "ui_route m (s # path) = Endpoint Dashboard []"
    using get_candidates [OF assms, of path] by (simp add: ui_route_def)
  then show ?thesis by (simp add: ui_serve_def path_var_def [abs_def])
qed

theorem unknown_pages_show_dashboard_witness:
  "\<forall>(u :: mem Ui) r. ui_serve (go_return (HttpError '''' 404)) id u ''GET'' [''no'', ''such'', ''page''] r =
    handleDashboard id u (r\<lparr>path_value := \<lambda>k. ''''\<rparr>)"
  by (intro allI unknown_pages_show_dashboard) (simp_all add: page_roots_def)

end
