(* ===== verification/Ui_Safety.thy ===== *)
theory Ui_Safety
  imports Ui_Routes Deployment
begin

text \<open>
  Requests that only look: whatever a GET request asks for, Redis and the database are as they were. The
  locale \<open>quiet_reads\<close> is what the pages need of broker and store; a deployment gives it.
\<close>

section \<open>Programs that change nothing\<close>

definition quiet :: "('w \<Rightarrow> 'o) \<Rightarrow> ('w, 'a) go \<Rightarrow> bool" where
  "quiet obs m \<longleftrightarrow> (\<forall>w r w'. m w = (r, w') \<longrightarrow> obs w' = obs w)"

lemma quiet_return [intro]: "quiet obs (go_return x)" and quiet_panic [intro]: "quiet obs (go_panic msg)"
  by (simp_all add: quiet_def go_return_def go_panic_def)

lemma quiet_lift: "(\<And>w x w'. f w = (x, w') \<Longrightarrow> obs w' = obs w) \<Longrightarrow> quiet obs (go_lift f)"
  by (auto simp: quiet_def go_lift_def split: prod.splits)

lemma quiet_bind [intro]: "quiet obs m \<Longrightarrow> (\<And>x. quiet obs (f x)) \<Longrightarrow> quiet obs (go_bind m f)"
  unfolding quiet_def go_bind_def by (auto split: prod.splits outcome.splits)

lemma quiet_fold [intro]: "(\<And>x s. quiet obs (f x s)) \<Longrightarrow> quiet obs (go_fold f xs s)"
  by (induction xs arbitrary: s) (auto intro: quiet_return quiet_bind)

lemma quiet_if [intro]: "quiet obs m \<Longrightarrow> quiet obs n \<Longrightarrow> quiet obs (if b then m else n)"
  by simp

lemma quiet_option [intro]: "quiet obs n \<Longrightarrow> (\<And>x. quiet obs (f x)) \<Longrightarrow> quiet obs (case y of None \<Rightarrow> n | Some x \<Rightarrow> f x)"
  by (cases y) simp_all

lemma quiet_sum [intro]: "(\<And>x. quiet obs (f x)) \<Longrightarrow> (\<And>x. quiet obs (g x)) \<Longrightarrow> quiet obs (case y of Inl x \<Rightarrow> f x | Inr x \<Rightarrow> g x)"
  by (cases y) simp_all

lemma quiet_prod [intro]: "(\<And>x y. quiet obs (f x y)) \<Longrightarrow> quiet obs (case p of (x, y) \<Rightarrow> f x y)"
  by (cases p) simp

lemma quiet_outcome [intro]: "(\<And>x. quiet obs (f x)) \<Longrightarrow> (\<And>x. quiet obs (g x)) \<Longrightarrow> quiet obs (case y of Ret x \<Rightarrow> f x | Panic x \<Rightarrow> g x)"
  by (cases y) simp_all

lemmas quiet_intros = quiet_bind quiet_fold quiet_return quiet_panic quiet_sum quiet_option quiet_if quiet_prod quiet_outcome

section \<open>The pages\<close>

locale quiet_reads =
  fixes u :: "'w Ui" and obs :: "'w \<Rightarrow> 'o"
  assumes broker_reads: "quiet obs (op_GetQueues (ui_broker u))" "quiet obs (op_GetConsumerGroups (ui_broker u) q)"
      "quiet obs (op_GetGroupConsumers (ui_broker u) q g)" "quiet obs (op_GetQueueInfo (ui_broker u) q)"
      "quiet obs (op_GetDLQ (ui_broker u) q n)" "quiet obs (op_GetScheduledCount (ui_broker u) q)"
      "quiet obs (op_GetRetryCount (ui_broker u) q)"
    and store_reads: "ui_store u = Some st \<Longrightarrow> quiet obs (st_ListTasks st f) \<and> quiet obs (st_GetTask st i) \<and> quiet obs (st_GetStats st)"
begin

lemma quiet_rows: "quiet obs (group_rows u g qs)" "quiet obs (queue_row u q rows)" "quiet obs (all_rows u row qs)"
  "quiet obs (dead_tasks u q m)"
  unfolding group_rows_def getQueueInfoForGroup_def queue_row_def all_rows_def dead_tasks_def
  by (intro quiet_fold quiet_bind quiet_sum quiet_if quiet_return broker_reads)+

lemma quiet_groups: "quiet obs (consumers_of_group u g qs)" "quiet obs (groups_of_queues u qs)"
  unfolding consumers_of_group_def groups_of_queues_def group_of_queue_def Let_def
  by (intro quiet_fold quiet_bind quiet_sum quiet_if quiet_return broker_reads)+

lemma quiet_store: "quiet obs m \<Longrightarrow> (\<And>st. ui_store u = Some st \<Longrightarrow> quiet obs (f st)) \<Longrightarrow>
    quiet obs (case ui_store u of None \<Rightarrow> m | Some st \<Rightarrow> f st)"
  by (cases "ui_store u") simp_all

lemmas page_defs = handleDashboard_def handleQueues_def handleQueueDetail_def handleTasks_def handleTaskDetail_def
  handleDeadLetterQueue_def handleAPIStats_def handleAPIQueues_def handleAPITasks_def handlePartialStats_def
  handlePartialQueues_def handlePartialConsumers_def handlePartialTasks_def

lemma quiet_pages:
  assumes "\<not> action e" and "quiet obs static"
  shows "quiet obs (ui_handle static ord u e r)"
proof -
  have pages: "quiet obs (handleDashboard ord u r)" "quiet obs (handleQueues u r)" "quiet obs (handleQueueDetail u r)"
    "quiet obs (handleTasks u r)" "quiet obs (handleTaskDetail u r)" "quiet obs (handleDeadLetterQueue u r)"
    "quiet obs (handleAPIStats u r)" "quiet obs (handleAPIQueues u r)" "quiet obs (handleAPITasks u r)"
    "quiet obs (handlePartialStats u r)" "quiet obs (handlePartialQueues u r)"
    "quiet obs (handlePartialConsumers ord u r)" "quiet obs (handlePartialTasks u r)"
    unfolding page_defs Let_def
    by (intro quiet_bind quiet_sum quiet_store quiet_if quiet_return quiet_prod quiet_outcome quiet_panic quiet_fold
        broker_reads quiet_rows quiet_groups store_reads [THEN conjunct1] store_reads [THEN conjunct2, THEN conjunct1]
        store_reads [THEN conjunct2, THEN conjunct2]; assumption?)+
  from assms pages show ?thesis by (cases e) (simp_all add: action_def)
qed

end

section \<open>In a deployment\<close>

text \<open>The user interface of a deployment.\<close>

definition deployed_ui :: "'w env \<Rightarrow> ConsumerConfig \<Rightarrow> 'w sql \<Rightarrow> 'w Ui" where
  "deployed_ui E cfg D = \<lparr>ui_broker = redis_broker E cfg, ui_store = Some (postgres_store D (clock E))\<rparr>"

lemma ui_broker_sel [simp]:
  "op_GetQueues (redis_broker E cfg) = GetQueues E" "op_GetConsumerGroups (redis_broker E cfg) q = GetConsumerGroups E q"
  "op_GetGroupConsumers (redis_broker E cfg) q g = GetGroupConsumers E q g"
  "op_GetQueueInfo (redis_broker E cfg) q = GetQueueInfo E cfg q" "op_GetDLQ (redis_broker E cfg) q n = GetDLQ E q n"
  "op_GetScheduledCount (redis_broker E cfg) q = GetScheduledCount E q"
  "op_GetRetryCount (redis_broker E cfg) q = GetRetryCount E q"
  by (simp_all add: redis_broker_def)

lemma ui_store_sel [simp]: "st_ListTasks (postgres_store D now) f = ListTasks D f"
  "st_GetTask (postgres_store D now) i = GetTask D i" "st_GetStats (postgres_store D now) = GetStats D"
  by (simp_all add: postgres_store_def)

text \<open>What a request may have changed: the keys of Redis and the table of tasks.\<close>

definition stored :: "('w \<Rightarrow> redis_db) \<Rightarrow> ('w \<Rightarrow> string \<rightharpoonup> task_row) \<Rightarrow> 'w \<Rightarrow> redis_db \<times> (string \<rightharpoonup> task_row)" where
  "stored db tbl w = (db w, tbl w)"

context deployment
begin

lemma quiet_commands:
  "quiet (stored db tbl) (go_lift (s_members E k))" "quiet (stored db tbl) (go_lift (x_info_groups E k))"
  "quiet (stored db tbl) (go_lift (x_info_consumers E k g))" "quiet (stored db tbl) (go_lift (x_len E k))"
  "quiet (stored db tbl) (go_lift (x_pending E k g))" "quiet (stored db tbl) (go_lift (z_card E k))"
  "quiet (stored db tbl) (go_lift (h_get_all E k))" "quiet (stored db tbl) (go_lift (x_range E k))"
  by (rule quiet_lift, frule redis_apart, (drule s_members_ok | drule info_groups_ok | drule info_consumers_ok | drule x_len_ok |
      drule x_pending_ok | drule z_card_ok | drule h_get_all_ok | drule x_range_ok), simp add: stored_def)+

lemma quiet_redis:
  "quiet (stored db tbl) (GetQueues E)" "quiet (stored db tbl) (GetConsumerGroups E q)"
  "quiet (stored db tbl) (GetGroupConsumers E q g)" "quiet (stored db tbl) (GetQueueInfo E cfg q)"
  "quiet (stored db tbl) (GetDLQ E q n)" "quiet (stored db tbl) (GetScheduledCount E q)" "quiet (stored db tbl) (GetRetryCount E q)"
  unfolding GetQueues_def GetConsumerGroups_def GetGroupConsumers_def GetQueueInfo_def GetDLQ_def GetScheduledCount_def
    GetRetryCount_def completed_count_def Let_def
  by (intro quiet_intros quiet_commands; assumption?)+

lemma quiet_sql: "quiet (stored db tbl) (go_lift (sql_tasks D select_sql as))"
  "quiet (stored db tbl) (go_lift (sql_tasks D (list_sql f) as))"
  "quiet (stored db tbl) (go_lift (sql_numbers D (count_sql p) as))" "quiet (stored db tbl) (go_lift (sql_numbers D stats_sql as))"
  by (rule quiet_lift, frule queries_read, drule sql_apart(2,3), simp add: stored_def)+

lemma quiet_store_reads: "quiet (stored db tbl) (ListTasks D f)" "quiet (stored db tbl) (GetTask D i)"
  "quiet (stored db tbl) (GetStats D)"
  unfolding ListTasks_def count_rows_def GetTask_def GetStats_def
  by (intro quiet_bind quiet_sum quiet_return quiet_sql)+

end

sublocale deployment \<subseteq> ui: quiet_reads "deployed_ui E cfg D" "stored db tbl" for cfg
  by unfold_locales (auto simp: deployed_ui_def quiet_redis quiet_store_reads)

context deployment
begin

lemma quiet_ui_serve:
  assumes "m \<noteq> ''POST''" and "quiet (stored db tbl) static"
  shows "quiet (stored db tbl) (ui_serve static ord (deployed_ui E cfg D) m path r)"
  unfolding ui_serve_def using ui.quiet_pages [OF get_is_no_action assms(2)] assms(1)
  by (auto split: routed.split intro: quiet_return)

end

text \<open>
  C34. In a deployment a request of the user interface whose method is not POST only looks: whatever the
  path, the query and the answer, even when a handler panics, the keys of Redis and the history of tasks are
  as they were.
\<close>

theorem get_requests_read_only:
  assumes "deployment E db clk I D tbl ts jsonb" and "m \<noteq> ''POST''" and "quiet (stored db tbl) static"
    and "ui_serve static ord (deployed_ui E cfg D) m path r w = (res, w')"
  shows "db w' = db w \<and> tbl w' = tbl w"
  using deployment.quiet_ui_serve [OF assms(1-3)] assms(4) unfolding quiet_def stored_def by (metis Pair_inject)

text \<open>The overview of queues, asked for in memory.\<close>

definition plain_request :: request where
  "plain_request = \<lparr>path_value = (\<lambda>k. ''''), query = (\<lambda>k. []), form_value = (\<lambda>k. ''''), header = (\<lambda>k. '''')\<rparr>"

definition no_files :: "('w, response) go" where
  "no_files = go_return (HttpError ''404 page not found'' 404)"

theorem get_requests_read_only_witness:
  "\<exists>res w'. ui_serve no_files id (deployed_ui pair_env DefaultConsumerConfig pair_sql) ''GET'' [''queues''] plain_request
      pair_empty = (res, w') \<and> mem_db (fst w') = mem_db (fst pair_empty) \<and> map_of (snd w') = map_of (snd pair_empty) \<and>
    ui_route ''GET'' [''queues''] = Endpoint Queues []"
proof -
  have "quiet (stored (\<lambda>w. mem_db (fst w)) (\<lambda>w. map_of (snd w))) no_files" unfolding no_files_def by (rule quiet_return)
  note ro = get_requests_read_only [OF pair.deployment_axioms _ this, where m = "''GET''"]
  obtain res w' where "ui_serve no_files id (deployed_ui pair_env DefaultConsumerConfig pair_sql) ''GET'' [''queues''] plain_request
      pair_empty = (res, w')" by (rule prod.exhaust)
  with ro have "mem_db (fst w') = mem_db (fst pair_empty) \<and> map_of (snd w') = map_of (snd pair_empty)" by simp
  moreover have "ui_route ''GET'' [''queues''] = Endpoint Queues []"
    by (simp add: ui_route_def candidates_def ui_routes_def serves_def most_specific_def to_slash_def inexact_def)
  ultimately show ?thesis using \<open>_ = (res, w')\<close> by blast
qed

end
