(* ===== verification/Go_Float.thy ===== *)
theory Go_Float
  imports Go_Prelude Complex_Main "HOL-Library.Log_Nat"
begin

text \<open>
  Go's \<open>float64\<close>, as far as durations need it: finite numbers that are neither too large nor too small for a
  normal one are kept as rationals, and every operation is the exact one followed by rounding to the nearest
  number with 53 significant bits, of two equally near ones to the one whose last bit is 0.
\<close>

section \<open>Rounding\<close>

definition half_even :: "rat \<Rightarrow> int" where
  "half_even x = (let n = \<lfloor>x\<rfloor>; r = x - of_int n in
     if r < 1 / 2 then n else if 1 / 2 < r then n + 1 else if even n then n else n + 1)"

text \<open>The exponent of the last bit of a positive number: the quotient by its power of 2 has 53 bits.\<close>

definition last_bit :: "rat \<Rightarrow> int" where
  "last_bit x = (let (p, q) = quotient_of x; e = int (floorlog 2 (nat p)) - int (floorlog 2 (nat q)) - 53
     in if x < 2 ^ 53 * 2 powi e then e else e + 1)"

definition fl_pos :: "rat \<Rightarrow> rat" where
  "fl_pos x = of_int (half_even (x / 2 powi last_bit x)) * 2 powi last_bit x"

definition fl :: "rat \<Rightarrow> rat" where
  "fl x = (if x = 0 then 0 else if x < 0 then - fl_pos (- x) else fl_pos x)"

text \<open>\<open>float64(n)\<close>, \<open>/\<close>, \<open>+\<close>, and \<open>int(x)\<close>, which truncates.\<close>

definition float64 :: "int \<Rightarrow> rat" where
  "float64 n = fl (of_int n)"

definition f_add :: "rat \<Rightarrow> rat \<Rightarrow> rat" where
  "f_add x y = fl (x + y)"

definition f_div :: "rat \<Rightarrow> rat \<Rightarrow> rat" where
  "f_div x y = fl (x / y)"

definition f_int :: "rat \<Rightarrow> int" where
  "f_int x = (if x < 0 then - \<lfloor>- x\<rfloor> else \<lfloor>x\<rfloor>)"

section \<open>How far rounding goes\<close>

lemma half_even_near: "\<bar>of_int (half_even x) - x\<bar> \<le> 1 / 2"
proof -
  have "of_int \<lfloor>x\<rfloor> \<le> x" and "x < of_int \<lfloor>x\<rfloor> + 1" by linarith+
  then show ?thesis by (simp add: half_even_def Let_def abs_le_iff)
qed

lemma half_even_int [simp]: "half_even (of_int n) = n"
  by (simp add: half_even_def)

lemma powi_pos: "0 < (2 :: rat) powi e"
  by (simp add: zero_less_power_int)

lemma last_bit_bounds:
  assumes "0 < x"
  shows "2 ^ 52 \<le> x / 2 powi last_bit x" and "x / 2 powi last_bit x < 2 ^ 53"
proof -
  obtain p q where pq: "quotient_of x = (p, q)" by (cases "quotient_of x")
  have q: "0 < q" by (rule quotient_of_denom_pos [OF pq])
  have x: "x = of_int p / of_int q" by (rule quotient_of_div [OF pq])
  with assms q have p: "0 < p" by (simp add: zero_less_divide_iff)
  let ?a = "floorlog 2 (nat p)" and ?b = "floorlog 2 (nat q)"
  let ?e = "int ?a - int ?b - 53"
  have a: "2 ^ (?a - 1) \<le> nat p" "nat p < 2 ^ ?a" using floorlog_bounds [of "nat p" 2] p by simp_all
  have b: "2 ^ (?b - 1) \<le> nat q" "nat q < 2 ^ ?b" using floorlog_bounds [of "nat q" 2] q by simp_all
  have "?a \<noteq> 0" "?b \<noteq> 0" using p q by (simp_all add: floorlog_eq_zero_iff)
  then obtain i j where ij: "?a = Suc i" "?b = Suc j" by (meson not0_implies_Suc)
  have ra: "2 ^ i \<le> (of_int p :: rat)" "(of_int p :: rat) < 2 ^ Suc i"
  proof -
    from a ij p have "2 ^ i \<le> p" "p < 2 ^ Suc i" by (simp_all add: le_nat_iff nat_less_iff)
    then show "2 ^ i \<le> (of_int p :: rat)" "(of_int p :: rat) < 2 ^ Suc i"
      by (metis of_int_le_iff of_int_numeral of_int_power, metis of_int_less_iff of_int_numeral of_int_power)
  qed
  have rb: "2 ^ j \<le> (of_int q :: rat)" "(of_int q :: rat) < 2 ^ Suc j"
  proof -
    from b ij q have "2 ^ j \<le> q" "q < 2 ^ Suc j" by (simp_all add: le_nat_iff nat_less_iff)
    then show "2 ^ j \<le> (of_int q :: rat)" "(of_int q :: rat) < 2 ^ Suc j"
      by (metis of_int_le_iff of_int_numeral of_int_power, metis of_int_less_iff of_int_numeral of_int_power)
  qed
  have e: "(2 :: rat) powi ?e = 2 ^ Suc i / (2 ^ Suc j * 2 ^ 53)"
    by (simp add: ij power_int_diff)
  have low: "2 ^ 52 * 2 powi ?e \<le> x"
  proof -
    have "2 ^ 52 * 2 powi ?e = (2 ^ i / (2 ^ Suc j) :: rat)" unfolding e by (simp add: field_simps)
    also have "\<dots> \<le> of_int p / of_int q" by (rule frac_le) (use ra rb p q in simp_all)
    finally show ?thesis using x by simp
  qed
  have high: "x < 2 ^ 54 * 2 powi ?e"
  proof -
    have "of_int p / of_int q < 2 ^ Suc i / (2 ^ j :: rat)" by (rule frac_less) (use ra rb p in simp_all)
    also have "\<dots> = 2 ^ 54 * 2 powi ?e" unfolding e by (simp add: field_simps)
    finally show ?thesis using x by simp
  qed
  have "last_bit x = (if x < 2 ^ 53 * 2 powi ?e then ?e else ?e + 1)" by (simp add: last_bit_def pq Let_def)
  with low high obtain e where l: "last_bit x = (if x < 2 ^ 53 * 2 powi e then e else e + 1)"
    and low: "2 ^ 52 * 2 powi e \<le> x" and high: "x < 2 ^ 54 * 2 powi e" by blast
  have next1: "(2 :: rat) powi (e + 1) = 2 powi e * 2" by (simp add: power_int_add)
  show "2 ^ 52 \<le> x / 2 powi last_bit x"
    using low powi_pos [of e] by (simp add: l next1 pos_le_divide_eq)
  show "x / 2 powi last_bit x < 2 ^ 53"
    using high powi_pos [of e] by (simp add: l next1 pos_divide_less_eq)
qed

lemma scaled_distance: "0 < (u :: rat) \<Longrightarrow> \<bar>a - x / u\<bar> * u = \<bar>a * u - x\<bar>"
  by (subst abs_mult_pos) (simp_all add: left_diff_distrib)

text \<open>The relative error is at most the last of 53 bits.\<close>

lemma fl_near:
  assumes "0 \<le> x"
  shows "\<bar>fl x - x\<bar> \<le> x / 2 ^ 53"
proof (cases "x = 0")
  case False
  with assms have x: "0 < x" by simp
  let ?u = "2 powi last_bit x" and ?y = "x / 2 powi last_bit x"
  have "\<bar>of_int (half_even ?y) - ?y\<bar> \<le> ?y / 2 ^ 53"
    using half_even_near [of ?y] last_bit_bounds(1) [OF x] by simp
  then have "\<bar>of_int (half_even ?y) - ?y\<bar> * ?u \<le> ?y / 2 ^ 53 * ?u"
    using powi_pos [of "last_bit x"] by (intro mult_right_mono) simp_all
  moreover have "\<bar>of_int (half_even ?y) - ?y\<bar> * ?u = \<bar>of_int (half_even ?y) * ?u - x\<bar>"
    by (rule scaled_distance [OF powi_pos])
  moreover have "?y / 2 ^ 53 * ?u = x / 2 ^ 53" using powi_pos [of "last_bit x"] by simp
  ultimately show ?thesis using x by (simp add: fl_def fl_pos_def)
qed (simp add: fl_def)

lemma fl_bounds: "0 \<le> x \<Longrightarrow> x * (1 - 1 / 2 ^ 53) \<le> fl x \<and> fl x \<le> x * (1 + 1 / 2 ^ 53)"
  using fl_near [of x] unfolding abs_le_iff right_diff_distrib distrib_left by simp

text \<open>Small integers are floats.\<close>

lemma fl_int:
  assumes "0 \<le> n" and "n < 2 ^ 53"
  shows "fl (of_int n) = of_int n"
proof (cases "n = 0")
  case False
  with assms have x: "0 < (of_int n :: rat)" by simp
  let ?e = "last_bit (of_int n)"
  have "?e \<le> 0"
  proof (rule ccontr)
    assume "\<not> ?e \<le> 0"
    then have "(2 :: rat) powi 1 \<le> 2 powi ?e" by (intro power_int_increasing) simp_all
    then have "(2 :: rat) ^ 53 \<le> 2 ^ 52 * 2 powi ?e" by simp
    also have "\<dots> \<le> of_int n" using last_bit_bounds(1) [OF x] powi_pos [of ?e] by (simp add: pos_le_divide_eq)
    finally have "2 ^ 53 \<le> n" by simp
    with assms(2) show False by simp
  qed
  then obtain k where k: "?e = - int k" by (metis nat_0_le neg_0_le_iff_le minus_minus)
  have "half_even (of_int n / 2 powi ?e) = n * 2 ^ k"
    using half_even_int [of "n * 2 ^ k"] by (simp add: k power_int_minus divide_inverse)
  then show ?thesis using x by (simp add: fl_def fl_pos_def k power_int_minus divide_inverse)
qed (simp add: fl_def)

lemma fl_nonneg: "0 \<le> x \<Longrightarrow> 0 \<le> fl x"
  using fl_bounds [of x] by (auto intro: order_trans [of _ "x * (1 - 1 / 2 ^ 53)"])

end
