(* ===== verification/Ui_Format.thy ===== *)
theory Ui_Format
  imports Ui_Helpers Go_Float
begin

text \<open>
  The template functions of \<^verbatim>\<open>ui/server.go\<close> that print times and durations. \<open>Duration.Seconds\<close>, \<open>Minutes\<close> and
  \<open>Hours\<close> are floats, which \<open>formatRelativeDuration\<close> cuts to integers and \<open>formatDuration\<close> prints with one
  decimal. How \<open>Time.Format\<close> prints an instant depends on the location of the value, which the instants of the
  model do not have: it is a parameter.
\<close>

section \<open>Durations as floats\<close>

text \<open>\<open>%\<close> has the sign of the dividend.\<close>

definition go_mod :: "int \<Rightarrow> int \<Rightarrow> int" where
  "go_mod a b = a - b * go_div a b"

definition in_units :: "int \<Rightarrow> duration \<Rightarrow> rat" where
  "in_units unit d = f_add (float64 (go_div (sint d) unit)) (f_div (float64 (go_mod (sint d) unit)) (of_int unit))"

definition dur_Seconds :: "duration \<Rightarrow> rat" where "dur_Seconds = in_units Second"
definition dur_Minutes :: "duration \<Rightarrow> rat" where "dur_Minutes = in_units Minute"
definition dur_Hours :: "duration \<Rightarrow> rat" where "dur_Hours = in_units Hour"

text \<open>\<^verbatim>\<open>%.1f\<close> of a number that is not negative.\<close>

definition fixed1 :: "rat \<Rightarrow> string" where
  "fixed1 x = (let n = half_even (x * 10) in show_int (n div 10) @ ''.'' @ show_int (n mod 10))"

section \<open>The template functions\<close>

definition formatTime :: "(time \<Rightarrow> string) \<Rightarrow> time option \<Rightarrow> string" where
  "formatTime fmt t = (case t of None \<Rightarrow> ''-'' | Some v \<Rightarrow> if v = zero_time then ''-'' else fmt v)"

definition formatDuration :: "duration \<Rightarrow> string" where
  "formatDuration d =
     (if sint d < Second then show_int (go_div (sint d) Millisecond) @ ''ms''
      else if sint d < Minute then fixed1 (dur_Seconds d) @ ''s''
      else if sint d < Hour then fixed1 (dur_Minutes d) @ ''m''
      else fixed1 (dur_Hours d) @ ''h'')"

definition formatRelativeDuration :: "duration \<Rightarrow> string" where
  "formatRelativeDuration d =
     (if sint d < Minute then show_int (f_int (dur_Seconds d)) @ ''s''
      else if sint d < Hour then show_int (f_int (dur_Minutes d)) @ ''m''
      else if sint d < 24 * Hour then
        (let hours = f_int (dur_Hours d); mins = go_mod (f_int (dur_Minutes d)) 60
         in if mins > 0 then show_int hours @ ''h '' @ show_int mins @ ''m'' else show_int hours @ ''h'')
      else show_int (f_int (f_div (dur_Hours d) 24)) @ ''d'')"

text \<open>\<open>Time.Sub\<close> keeps to the range of \<open>int64\<close>; the negation of the smallest duration is itself.\<close>

definition time_Sub :: "time \<Rightarrow> time \<Rightarrow> duration" where
  "time_Sub t u = dur (max (- (2 ^ 63)) (min (2 ^ 63 - 1) (t - u)))"

definition formatScheduledTime :: "time \<Rightarrow> time option \<Rightarrow> string" where
  "formatScheduledTime now t = (case t of
      None \<Rightarrow> ''''
    | Some v \<Rightarrow>
        if v = zero_time then ''''
        else (let diff = time_Sub v now
              in if sint diff > 0 then ''in '' @ formatRelativeDuration diff
                 else ''overdue '' @ formatRelativeDuration (- diff)))"

section \<open>Cutting the floats to integers\<close>

text \<open>
  The sum of a quotient below 1 and a whole number, each operation rounded: it is the whole number, or above
  it and below the next by more than what one more rounding can add.
\<close>

lemma sum_with_error:
  fixes A M u y y1 z :: rat
  assumes "0 \<le> A" and "1 \<le> M" and u: "0 < u" "u \<le> 1 / 1000" and small: "(2 * A + 60) * u \<le> 1 / M"
    and y: "1 / M \<le> y" "y \<le> 1 - 1 / M" and y1: "y * (1 - u) \<le> y1" "y1 \<le> y * (1 + u)"
    and z: "(A + y1) * (1 - u) \<le> z" "z \<le> (A + y1) * (1 + u)"
  shows "A + (A + 50) * u \<le> z" and "z \<le> A + 1 - (A + 50) * u"
proof -
  have "0 \<le> 1 / M" using assms(2) by simp
  with y have "0 \<le> y" "y \<le> 1" by linarith+
  then have uy: "0 \<le> u * y" "u * y \<le> u" using u by (simp_all add: mult_left_le)
  then have "u * y \<le> 1" using u by linarith
  with uy u have uuy: "0 \<le> u * (u * y)" "u * (u * y) \<le> u" by (simp_all add: mult_left_le)
  have s: "2 * (A * u) + 60 * u \<le> 1 / M" using small by (simp add: algebra_simps)
  have "(A + y * (1 - u)) * (1 - u) \<le> (A + y1) * (1 - u)" using y1(1) u by (intro mult_right_mono) simp_all
  moreover have "(A + y * (1 - u)) * (1 - u) = A + y - A * u - 2 * (u * y) + u * (u * y)" by (simp add: algebra_simps)
  ultimately have "A + y - A * u - 2 * u \<le> z" using z(1) uy uuy by linarith
  then show "A + (A + 50) * u \<le> z" using s y(1) u(1) by (simp add: distrib_right)
  have "(A + y1) * (1 + u) \<le> (A + y * (1 + u)) * (1 + u)" using y1(2) u by (intro mult_right_mono) simp_all
  moreover have "(A + y * (1 + u)) * (1 + u) = A + y + A * u + 2 * (u * y) + u * (u * y)" by (simp add: algebra_simps)
  ultimately have "z \<le> A + y + A * u + 3 * u" using z(2) uy uuy by linarith
  then show "z \<le> A + 1 - (A + 50) * u" using s y(2) u(1) by (simp add: distrib_right)
qed

lemma two_roundings:
  assumes "0 \<le> a" and "0 \<le> b" and "b < m" and small: "(2 * a + 60) * m < 2 ^ 53"
  defines "z \<equiv> f_add (float64 a) (f_div (float64 b) (of_int m))" and "u \<equiv> 1 / 2 ^ 53 :: rat"
  shows "z = of_int a \<or> of_int a + (of_int a + 50) * u \<le> z" and "z \<le> of_int a + 1 - (of_int a + 50) * u"
proof -
  have "60 * m \<le> (2 * a + 60) * m" "2 * a + 60 \<le> (2 * a + 60) * m" using assms(1-3) by (simp_all add: mult_le_cancel_left1)
  with small have "b < 2 ^ 53" and a: "2 * a + 60 < 2 ^ 53" using assms(2,3) by linarith+
  with assms(1,2) have ints: "float64 b = of_int b" "float64 a = of_int a" by (simp_all add: float64_def fl_int)
  have "of_int (2 * a + 60) \<le> (2 ^ 53 :: rat)" using a by (simp del: of_int_add add: of_int_le_iff [symmetric])
  then have au: "(2 * of_int a + 60) * u \<le> 1" by (simp add: u_def)
  have "(z = of_int a \<or> of_int a + (of_int a + 50) * u \<le> z) \<and> z \<le> of_int a + 1 - (of_int a + 50) * u"
  proof (cases "b = 0")
    case True
    have "f_div (float64 0) (of_int m) = 0" by (simp add: f_div_def float64_def fl_def)
    with True ints have "z = fl (of_int a)" by (simp add: z_def f_add_def)
    also have "\<dots> = of_int a" using assms(1) a by (simp add: fl_int)
    finally show ?thesis using au assms(1) by (simp add: u_def algebra_simps)
  next
    case False
    let ?A = "rat_of_int a" and ?M = "rat_of_int m"
    let ?y = "of_int b / ?M"
    have M: "1 \<le> ?M" using assms(2,3) by simp
    have y: "1 / ?M \<le> ?y" "?y \<le> 1 - 1 / ?M"
    proof -
      have "1 \<le> rat_of_int b" using False assms(2) by simp
      then show "1 / ?M \<le> ?y" using M by (simp add: divide_right_mono)
      have "rat_of_int b \<le> ?M - 1" using assms(3) by (metis of_int_1 of_int_diff of_int_le_iff zle_diff1_eq)
      then show "?y \<le> 1 - 1 / ?M" using M by (simp add: field_simps)
    qed
    have "of_int ((2 * a + 60) * m) \<le> (2 ^ 53 :: rat)"
      using small by (metis of_int_le_iff of_int_numeral of_int_power order_less_imp_le)
    then have "(2 * ?A + 60) * u \<le> 1 / ?M" using M by (simp add: u_def field_simps)
    moreover have "0 \<le> ?y" using assms(2) M by simp
    from fl_bounds [OF this] have y1: "?y * (1 - u) \<le> fl ?y" "fl ?y \<le> ?y * (1 + u)" by (simp_all add: u_def)
    have "0 \<le> ?A + fl ?y" using assms(1) fl_nonneg [OF \<open>0 \<le> ?y\<close>] by simp
    from fl_bounds [OF this] have "(?A + fl ?y) * (1 - u) \<le> z" "z \<le> (?A + fl ?y) * (1 + u)"
      by (simp_all add: z_def f_add_def f_div_def ints u_def)
    moreover have "0 < u" "u \<le> 1 / 1000" by (simp_all add: u_def)
    ultimately show ?thesis using sum_with_error [of ?A ?M u ?y "fl ?y" z] y y1 M assms(1) by simp
  qed
  then show "z = of_int a \<or> of_int a + (of_int a + 50) * u \<le> z" and "z \<le> of_int a + 1 - (of_int a + 50) * u" by simp_all
qed

lemma f_int_between: "of_int n \<le> x \<Longrightarrow> x < of_int n + 1 \<Longrightarrow> 0 \<le> n \<Longrightarrow> f_int x = n"
  by (simp add: f_int_def floor_unique)

lemma in_units_near:
  assumes "0 \<le> sint d" and "0 < unit" and "(2 * (sint d div unit) + 60) * unit < 2 ^ 53"
  defines "a \<equiv> sint d div unit" and "x \<equiv> in_units unit d" and "u \<equiv> 1 / 2 ^ 53 :: rat"
  shows "x = of_int a \<or> of_int a + (of_int a + 50) * u \<le> x" and "x \<le> of_int a + 1 - (of_int a + 50) * u"
proof -
  have "0 \<le> a" using assms(1,2) by (simp add: a_def pos_imp_zdiv_nonneg_iff)
  moreover have "x = f_add (float64 a) (f_div (float64 (sint d mod unit)) (of_int unit))"
    using assms(1,2) by (simp add: x_def a_def in_units_def go_mod_def minus_mult_div_eq_mod)
  moreover have "0 \<le> sint d mod unit" "sint d mod unit < unit" using assms(2) by simp_all
  ultimately show "x = of_int a \<or> of_int a + (of_int a + 50) * u \<le> x" and "x \<le> of_int a + 1 - (of_int a + 50) * u"
    using two_roundings [of a "sint d mod unit" unit] assms(3) by (simp_all add: a_def u_def)
qed

text \<open>What is cut off is exactly the rest of the division.\<close>

lemma f_int_in_units:
  assumes "0 \<le> sint d" and "0 < unit" and "(2 * (sint d div unit) + 60) * unit < 2 ^ 53"
  shows "f_int (in_units unit d) = sint d div unit"
proof -
  have a: "0 \<le> sint d div unit" using assms(1,2) by (simp add: pos_imp_zdiv_nonneg_iff)
  then have "0 < (rat_of_int (sint d div unit) + 50) * (1 / 2 ^ 53)" by simp
  with in_units_near [OF assms] have "of_int (sint d div unit) \<le> in_units unit d" "in_units unit d < of_int (sint d div unit) + 1"
    by linarith+
  then show ?thesis using a by (rule f_int_between)
qed

lemma days_below:
  fixes A k h y :: rat
  assumes "24 * k \<le> A" and "A \<le> 1000" and "A + (A + 50) * (1 / 2 ^ 53) \<le> h" and "h / 24 * (1 - 1 / 2 ^ 53) \<le> y"
  shows "k \<le> y"
proof -
  have "(A + (A + 50) * (1 / 2 ^ 53)) * (1 - 1 / 2 ^ 53) \<le> h * (1 - 1 / 2 ^ 53)"
    using assms(3) by (intro mult_right_mono) simp_all
  moreover have "A \<le> (A + (A + 50) * (1 / 2 ^ 53)) * (1 - 1 / 2 ^ 53)" using assms(2) by (simp add: field_simps)
  ultimately show ?thesis using assms(1,4) by (simp add: field_simps)
qed

lemma days_above:
  fixes A k h y :: rat
  assumes "0 \<le> A" and "A \<le> 24 * k + 23" and "A \<le> 1000" and "h \<le> A + 1 - (A + 50) * (1 / 2 ^ 53)"
    and "y \<le> h / 24 * (1 + 1 / 2 ^ 53)"
  shows "y < k + 1"
proof -
  have "h * (1 + 1 / 2 ^ 53) \<le> (A + 1 - (A + 50) * (1 / 2 ^ 53)) * (1 + 1 / 2 ^ 53)"
    using assms(4) by (intro mult_right_mono) simp_all
  moreover have "(A + 1 - (A + 50) * (1 / 2 ^ 53)) * (1 + 1 / 2 ^ 53) < A + 1" using assms(1) by (simp add: field_simps)
  ultimately show ?thesis using assms(2,5) by (simp add: field_simps)
qed

lemma f_int_days:
  assumes "0 \<le> sint d" and "sint d < 1000 * Hour"
  shows "f_int (f_div (dur_Hours d) 24) = sint d div (24 * Hour)"
proof -
  let ?a = "sint d div Hour" and ?u = "1 / 2 ^ 53 :: rat" and ?h = "in_units Hour d"
  let ?k = "?a div 24" and ?x = "in_units Hour d / 24"
  have H: "Hour = 3600000000000" by (simp add: Hour_def Minute_def Second_def)
  have a: "0 \<le> ?a" "?a < 1000" using assms by (simp_all add: H pos_imp_zdiv_nonneg_iff)
  have near: "?h = of_int ?a \<or> of_int ?a + (of_int ?a + 50) * ?u \<le> ?h" "?h \<le> of_int ?a + 1 - (of_int ?a + 50) * ?u"
    using in_units_near [of d Hour] assms(1) a by (simp_all add: H)
  have k: "24 * ?k \<le> ?a" "?a \<le> 24 * ?k + 23" "0 \<le> ?k" using a by linarith+
  have kr: "24 * rat_of_int ?k \<le> of_int ?a" "rat_of_int ?a \<le> 24 * of_int ?k + 23" "0 \<le> rat_of_int ?k" "rat_of_int ?a \<le> 1000"
    using k a by linarith+
  have "0 \<le> rat_of_int ?a" "0 \<le> (rat_of_int ?a + 50) * ?u" using a by simp_all
  with near(1) have "0 \<le> ?h" by linarith
  then have "0 \<le> ?x" by simp
  from fl_bounds [OF this] have fl: "?x * (1 - ?u) \<le> fl ?x" "fl ?x \<le> ?x * (1 + ?u)" by simp_all
  have "of_int ?k \<le> fl ?x"
  proof (cases "?h = of_int ?a")
    case False
    with near(1) have "of_int ?a + (of_int ?a + 50) * ?u \<le> ?h" by blast
    then show ?thesis by (rule days_below [OF kr(1,4) _ fl(1)])
  next
    case whole: True
    show ?thesis
    proof (cases "?a = 24 * ?k")
      case True
      then have "?x = of_int ?k" using whole by simp
      then show ?thesis using k a fl_int [of ?k] by simp
    next
      case False
      with k(1) have "24 * rat_of_int ?k + 1 \<le> of_int ?a" by linarith
      with whole fl(1) kr show ?thesis by simp
    qed
  qed
  moreover have "fl ?x < of_int ?k + 1" by (rule days_above [OF \<open>0 \<le> rat_of_int ?a\<close> kr(2,4) near(2) fl(2)])
  ultimately have "f_int (fl ?x) = ?k" using k(3) by (rule f_int_between)
  moreover have "?k = sint d div (24 * Hour)" by (simp add: zdiv_zmult2_eq H mult.commute)
  ultimately show ?thesis by (simp add: dur_Hours_def f_div_def)
qed

section \<open>What the pages show\<close>

text \<open>The same text, from the integers.\<close>

definition whole_duration :: "int \<Rightarrow> string" where
  "whole_duration n =
     (if n < Minute then show_int (n div Second) @ ''s''
      else if n < Hour then show_int (n div Minute) @ ''m''
      else if n < 24 * Hour then
        (if n mod Hour div Minute > 0 then show_int (n div Hour) @ ''h '' @ show_int (n mod Hour div Minute) @ ''m''
         else show_int (n div Hour) @ ''h'')
      else show_int (n div (24 * Hour)) @ ''d'')"

text \<open>
  C35. For a duration that is not negative and below 1000 hours the floats of \<open>Duration.Seconds\<close>, \<open>Minutes\<close> and
  \<open>Hours\<close> do not show: the text is the one that integer division gives, with no unit lost or gained to
  rounding, just below a whole unit either.
\<close>

theorem formatRelativeDuration_whole:
  assumes "0 \<le> sint d" and "sint d < 1000 * Hour"
  shows "formatRelativeDuration d = whole_duration (sint d)"
proof -
  let ?n = "sint d"
  have units: "Hour = 3600000000000" "Minute = 60000000000" "Second = 1000000000"
    by (simp_all add: Hour_def Minute_def Second_def)
  have sec: "f_int (dur_Seconds d) = ?n div Second" if "?n < Minute"
    unfolding dur_Seconds_def by (rule f_int_in_units) (use assms(1) that in \<open>simp_all add: units\<close>)
  have min: "f_int (dur_Minutes d) = ?n div Minute" if "?n < 24 * Hour"
    unfolding dur_Minutes_def by (rule f_int_in_units) (use assms(1) that in \<open>simp_all add: units\<close>)
  have hour: "f_int (dur_Hours d) = ?n div Hour" if "?n < 24 * Hour"
    unfolding dur_Hours_def by (rule f_int_in_units) (use assms(1) that in \<open>simp_all add: units\<close>)
  have "0 \<le> ?n div Minute" using assms(1) by (simp add: units pos_imp_zdiv_nonneg_iff)
  then have "go_mod (?n div Minute) 60 = ?n div Minute mod 60" by (simp add: go_mod_def minus_mult_div_eq_mod)
  also have "\<dots> = ?n mod Hour div Minute"
    using zmod_zmult2_eq [of 60 ?n Minute] by (simp add: units)
  finally have "go_mod (?n div Minute) 60 = ?n mod Hour div Minute" .
  then show ?thesis using sec min hour f_int_days [OF assms]
    by (simp add: formatRelativeDuration_def whole_duration_def Let_def units)
qed

theorem formatRelativeDuration_whole_witness:
  "formatRelativeDuration (dur (59 * Second + 999999999)) = ''59s'' \<and> formatRelativeDuration (dur (25 * Hour)) = ''1d''"
proof -
  have n: "sint (dur (59 * Second + 999999999)) = 59999999999" "sint (dur (25 * Hour)) = 90000000000000"
    unfolding dur_def by (simp_all only: sint_word_of_int_range64 Hour_def Minute_def Second_def) simp_all
  have "formatRelativeDuration (dur (59 * Second + 999999999)) = whole_duration 59999999999"
    unfolding n(1) [symmetric] by (rule formatRelativeDuration_whole) (simp_all only: n, simp_all add: Hour_def Minute_def Second_def)
  moreover have "formatRelativeDuration (dur (25 * Hour)) = whole_duration 90000000000000"
    unfolding n(2) [symmetric] by (rule formatRelativeDuration_whole) (simp_all only: n, simp_all add: Hour_def Minute_def Second_def)
  moreover have "whole_duration 59999999999 = ''59s''" and "whole_duration 90000000000000 = ''1d''" by code_simp+
  ultimately show ?thesis by simp
qed

text \<open>
  A time more than 292 years ago is one \<open>int64\<close> cannot measure: its distance is the smallest duration, which is
  its own negation, and the page shows a negative number of seconds.
\<close>

lemma overdue_overflow:
  assumes "t - now \<le> - (2 ^ 63)"
  shows "- time_Sub t now = time_Sub t now" and "sint (time_Sub t now) < 0"
proof -
  have "time_Sub t now = word_of_int (- (2 ^ 63))" using assms by (simp add: time_Sub_def dur_def max_def min_def)
  then show "- time_Sub t now = time_Sub t now" and "sint (time_Sub t now) < 0" by simp_all
qed

end
