(* ===== verification/Migrations.thy ===== *)
theory Migrations
  imports Go_Prelude
begin

text \<open>
  \<^verbatim>\<open>migrations/migrations.go\<close>: the embedded SQL files in the order of their names. The embedded file system is
  a parameter: \<open>entries\<close> is the result of \<open>ReadDir(".")\<close>, a name and whether it is a directory, and
  \<open>read\<close> is \<open>ReadFile\<close>.
\<close>

definition sql_files :: "(string \<times> bool) list \<Rightarrow> string list" where
  "sql_files es = sort (map fst (filter (\<lambda>(name, dir). \<not> dir \<and> has_suffix name ''.sql'') es))"

definition ListMigrations :: "go_error + (string \<times> bool) list \<Rightarrow> go_error + string list" where
  "ListMigrations entries = (case entries of
      Inl err \<Rightarrow> Inl (ErrWrap ''failed to read migrations directory: '' err)
    | Inr es \<Rightarrow> Inr (sql_files es))"

definition GetMigrationSQL :: "(string \<Rightarrow> go_error + string) \<Rightarrow> string \<Rightarrow> go_error + string" where
  "GetMigrationSQL read filename = (case read filename of
      Inl err \<Rightarrow> Inl (ErrWrap (''failed to read migration file '' @ filename @ '': '') err)
    | Inr data \<Rightarrow> Inr data)"

definition blank_line :: string where "blank_line = [CHR 0x0A, CHR 0x0A]"

text \<open>The loop over the files, with the text built so far.\<close>

fun read_files :: "(string \<Rightarrow> go_error + string) \<Rightarrow> string list \<Rightarrow> string \<Rightarrow> go_error + string" where
  "read_files read [] builder = Inr builder"
| "read_files read (file # files) builder = (case read file of
      Inl err \<Rightarrow> Inl (ErrWrap (''failed to read migration file '' @ file @ '': '') err)
    | Inr data \<Rightarrow> read_files read files (builder @ data @ blank_line))"

definition GetAllSQL ::
  "go_error + (string \<times> bool) list \<Rightarrow> (string \<Rightarrow> go_error + string) \<Rightarrow> go_error + string" where
  "GetAllSQL entries read = (case entries of
      Inl err \<Rightarrow> Inl (ErrWrap ''failed to read migrations directory: '' err)
    | Inr es \<Rightarrow> read_files read (sql_files es) '''')"

text \<open>
  All migrations are the listed ones one after the other, each as \<open>GetMigrationSQL\<close> gives it; the first one
  that cannot be read is the error.
\<close>

lemma read_files_all:
  "(\<And>f. f \<in> set fs \<Longrightarrow> GetMigrationSQL read f = Inr (content f)) \<Longrightarrow>
    read_files read fs builder = Inr (builder @ concat (map (\<lambda>f. content f @ blank_line) fs))"
proof (induction fs arbitrary: builder)
  case (Cons f fs)
  from Cons.prems [of f] have "read f = Inr (content f)" by (simp add: GetMigrationSQL_def split: sum.splits)
  with Cons show ?case by simp
qed simp

lemma read_files_error:
  "(\<And>f. f \<in> set fs \<Longrightarrow> \<exists>s. GetMigrationSQL read f = Inr s) \<Longrightarrow> GetMigrationSQL read bad = Inl e \<Longrightarrow>
    read_files read (fs @ bad # rest) builder = Inl e"
proof (induction fs arbitrary: builder)
  case Nil
  then show ?case by (simp add: GetMigrationSQL_def split: sum.splits)
next
  case (Cons f fs)
  from Cons.prems(1) [of f] obtain s where "read f = Inr s" by (auto simp: GetMigrationSQL_def split: sum.splits)
  with Cons show ?case by simp
qed

lemma ListMigrations_sorted:
  assumes "ListMigrations entries = Inr fs"
  shows "sorted fs \<and> (\<exists>es. entries = Inr es \<and> (\<forall>f. f \<in> set fs \<longleftrightarrow> (f, False) \<in> set es \<and> has_suffix f ''.sql''))"
  using assms by (auto simp: ListMigrations_def sql_files_def image_iff split: sum.splits)

lemma GetAllSQL_concat:
  assumes "ListMigrations entries = Inr fs"
  shows "(\<forall>f \<in> set fs. GetMigrationSQL read f = Inr (content f)) \<longrightarrow>
      GetAllSQL entries read = Inr (concat (map (\<lambda>f. content f @ blank_line) fs))"
    and "fs = before @ bad # rest \<Longrightarrow> \<forall>f \<in> set before. \<exists>s. GetMigrationSQL read f = Inr s \<Longrightarrow>
      GetMigrationSQL read bad = Inl e \<Longrightarrow> GetAllSQL entries read = Inl e"
  using assms read_files_all [of fs read content "[]"] read_files_error [of before read bad e rest "[]"]
  by (auto simp: ListMigrations_def GetAllSQL_def split: sum.splits)

end
