(* ===== verification/Example_Safety.thy ===== *)
theory Example_Safety
  imports Example_Programs Ui_Routes Deployment
begin

text \<open>
  What the programs under \<^verbatim>\<open>examples/\<close> do with the library: their servers serve what their clients hand in,
  the scenario of \<^verbatim>\<open>production\<close> goes as announced, the one of \<^verbatim>\<open>crash-recovery\<close> does not, and \<^verbatim>\<open>monitor\<close>
  does not survive a missing database.
\<close>

section \<open>Every task has its handler and its queue\<close>

definition serves_job :: "'w Server \<Rightarrow> job \<Rightarrow> bool" where
  "serves_job s j \<longleftrightarrow> (case j of (ty, payload, opts) \<Rightarrow> mux_Handler (srv_mux s) ty \<noteq> None \<and>
     (\<forall>uuid created at. task_Queue (job_task uuid created at j) \<in> set (srv_queues s)))"

lemmas option_defs = task_option_defs server_option_defs Let_def

lemma register_mux:
  "register hs s = (case mux_register (map (\<lambda>(ty, h). (ty, Some h)) hs) (srv_mux s) of
     Panic msg \<Rightarrow> Panic msg | Ret m \<Rightarrow> Ret (s\<lparr>srv_mux := m\<rparr>))"
  by (induction hs arbitrary: s) (auto simp: server_Handle_def split: outcome.split)

text \<open>A server without handlers takes any list of handlers for different types, none of them empty.\<close>

lemma register_runs:
  assumes "distinct (map fst hs)" and "'''' \<notin> set (map fst hs)" and "\<forall>ty \<in> set (map fst hs). mux_Handler (srv_mux s) ty = None"
  shows "\<exists>m. register hs s = Ret (s\<lparr>srv_mux := m\<rparr>)"
  using assms
proof (induction hs arbitrary: s)
  case Nil
  then show ?case by (intro exI [of _ "srv_mux s"]) simp
next
  case (Cons x hs)
  obtain ty h where x: "x = (ty, h)" by (cases x)
  from Cons.prems x obtain m where m: "mux_Handle ty (Some h) (srv_mux s) = Ret m" by (auto simp: mux_Handle_Ret_iff)
  with Cons.prems x have "\<forall>ty \<in> set (map fst hs). mux_Handler m ty = None" by (auto simp: mux_Handle_lookup [OF m])
  with Cons.IH [of "s\<lparr>srv_mux := m\<rparr>"] Cons.prems m x show ?case by (simp add: server_Handle_def)
qed

lemma register_lookup:
  assumes "register hs s = Ret s'" and "srv_mux s = NewServeMux"
  shows "\<exists>m. s' = s\<lparr>srv_mux := m\<rparr> \<and> mux_Handler m = map_of hs"
proof -
  from assms(1) obtain m where m: "mux_register (map (\<lambda>(ty, h). (ty, Some h)) hs) (srv_mux s) = Ret m" and s': "s' = s\<lparr>srv_mux := m\<rparr>"
    by (auto simp: register_mux split: outcome.splits)
  have "mux_ok (srv_mux s)" by (simp add: assms(2) mux_ok_def NewServeMux_def gomap_ok_def)
  note look = mux_register_lookup [OF m this, THEN conjunct2, THEN conjunct2, THEN conjunct1, rule_format]
  have "mux_Handler m ty = map_of hs ty" for ty
    using look [of ty] by (cases "map_of hs ty") (simp_all add: map_of_map assms(2))
  with s' show ?thesis by blast
qed

text \<open>A new server has no handler, and its queues are the ones it was given.\<close>

lemma new_server_mux: "list_all server_option opts \<Longrightarrow> srv_mux (NewServer host pid b opts) = NewServeMux"
  using fold_server_options [of opts b "host @ ''-'' @ pid"]
  by (simp add: NewServer_def server_usable_def DefaultConcurrency_def DefaultSchedulerInterval_def DefaultSchedulerBatchSize_def
      dur_def Second_def)

lemma served:
  assumes "distinct (map fst hs)" and "'''' \<notin> set (map fst hs)" and "srv_mux s = NewServeMux"
    and "\<forall>j \<in> set jobs. fst j \<in> set (map fst hs) \<and> (\<forall>uuid created at. task_Queue (job_task uuid created at j) \<in> set (srv_queues s))"
  shows "\<exists>s'. register hs s = Ret s' \<and> list_all (serves_job s') jobs"
proof -
  obtain m where m: "register hs s = Ret (s\<lparr>srv_mux := m\<rparr>)" using register_runs [OF assms(1,2), of s] by (auto simp: assms(3))
  with register_lookup [OF this assms(3)] have "mux_Handler m = map_of hs" by (metis (no_types) Server.select_convs(3) Server.surjective Server.update_convs(3))
  then have "serves_job (s\<lparr>srv_mux := m\<rparr>) j" if "j \<in> set jobs" for j
    unfolding serves_job_def case_prod_unfold using assms(4) that by (simp add: map_of_eq_None_iff)
  with m show ?thesis by (simp add: list_all_iff)
qed

lemmas job_task_simps = job_task_def NewTaskFromBytes_def new_proto_def task_Queue_def option_defs options_or_zero_def quick_def
  in_seconds_def NewServer_def

lemma production_serves:
  "\<exists>s. production_server D host pid b st = Ret s \<and>
     list_all (serves_job s) (welcome_jobs @ newsletter_jobs @ order_jobs @ notification_jobs)"
  unfolding production_server_def
  by (rule served [OF _ _ new_server_mux]) (auto intro: server_option.intros simp: production_handlers_def welcome_jobs_def
      newsletter_jobs_def order_jobs_def notification_jobs_def job_task_simps)

lemma crash_serves: "\<exists>s. crash_server D recovery host pid b st = Ret s \<and> list_all (serves_job s) [crash_job]"
  unfolding crash_server_def
  by (rule served [OF _ _ new_server_mux]) (auto intro: server_option.intros simp: crash_job_def job_task_simps)

text \<open>
  Every example program runs its own tasks: its registrations do not panic, and for each task that it
  hands in its server has a handler for the type and takes messages from the task's queue.
\<close>

theorem examples_serve_their_tasks:
  "(\<exists>s. basic_server D host pid b = Ret s \<and> list_all (serves_job s) basic_jobs) \<and>
   (\<exists>s. postgres_server D host pid b st = Ret s \<and> list_all (serves_job s) postgres_jobs) \<and>
   (\<exists>s. production_server D host pid b st = Ret s \<and>
      list_all (serves_job s) (welcome_jobs @ newsletter_jobs @ order_jobs @ notification_jobs)) \<and>
   (\<exists>s. scheduled_server D host pid b st = Ret s \<and> list_all (serves_job s) scheduled_jobs) \<and>
   (\<exists>s. crash_server D recovery host pid b st = Ret s \<and> list_all (serves_job s) [crash_job])"
proof (intro conjI)
  note build = served [OF _ _ new_server_mux] and task_simps = job_task_simps
  show "\<exists>s. basic_server D host pid b = Ret s \<and> list_all (serves_job s) basic_jobs"
    unfolding basic_server_def
    by (rule build) (auto intro: server_option.intros simp: basic_jobs_def task_simps)
  show "\<exists>s. postgres_server D host pid b st = Ret s \<and> list_all (serves_job s) postgres_jobs"
    unfolding postgres_server_def
    by (rule build) (auto intro: server_option.intros simp: postgres_handlers_def postgres_jobs_def task_simps)
  show "\<exists>s. production_server D host pid b st = Ret s \<and>
      list_all (serves_job s) (welcome_jobs @ newsletter_jobs @ order_jobs @ notification_jobs)"
    by (rule production_serves)
  show "\<exists>s. scheduled_server D host pid b st = Ret s \<and> list_all (serves_job s) scheduled_jobs"
    unfolding scheduled_server_def
    by (rule build) (auto intro: server_option.intros simp: scheduled_jobs_def wave1_def wave2_def wave3_def wave4_def wave5_def
        task_simps split: prod.splits if_splits)
  show "\<exists>s. crash_server D recovery host pid b st = Ret s \<and> list_all (serves_job s) [crash_job]"
    by (rule crash_serves)
qed

section \<open>The scenario of examples/production\<close>

lemma work_handler_says: "8 \<le> length (ID t) \<Longrightarrow> fst (fst (work_handler D ms f d t w)) = Ret (f t)"
  by (simp add: work_handler_def handler_of_def short_id_def go_bind_lift_case go_return_def split: prod.split)

lemma work_handler_keeps:
  "work_handler D ms f d t w = ((res, t'), w') \<Longrightarrow> t' = t \<and> (w' = w \<or> (\<exists>p u. demo_sleep D p w = (u, w')))"
  by (auto simp: work_handler_def handler_of_def short_id_def go_bind_lift_case go_return_def go_panic_def go_bind_def
      go_lift_def split: prod.splits if_splits)

lemma production_handlers_work:
  "map_of (production_handlers D) ty = Some h \<Longrightarrow> \<exists>ms f. h = work_handler D ms f"
  by (auto simp: production_handlers_def handleWelcomeEmail_def handleNewsletterEmail_def handleOrderConfirm_def
      handleNotification_def split: if_splits)

text \<open>\<open>time.Sleep\<close> leaves the services alone.\<close>

definition sleeps_aside :: "'w demo \<Rightarrow> ('w \<Rightarrow> redis_db) \<Rightarrow> ('w \<Rightarrow> bool) \<Rightarrow> bool" where
  "sleeps_aside D db I \<longleftrightarrow> (\<forall>p w. aside db I w (snd (demo_sleep D p w)))"

lemma production_server_sel:
  assumes "production_server D host pid b st = Ret S"
  shows "srv_broker S = b \<and> srv_store S = Some st \<and> mux_Handler (srv_mux S) = map_of (production_handlers D)"
proof -
  note opts = server_option.intros
  from register_lookup [OF assms [unfolded production_server_def] new_server_mux]
  show ?thesis by (auto simp: opts) (simp_all add: NewServer_def option_defs)
qed

lemma production_deployed:
  assumes "deployment E db clk I Q tbl ts jsonb" and "sleeps_aside D db I"
    and "production_server D host pid (redis_broker E cfg) (history Q (clock E)) = Ret S"
  shows "deployed_server E db clk I Q tbl ts jsonb S cfg"
proof (intro deployed_server.intro deployed_server_axioms.intro assms(1), goal_cases)
  case 1
  show ?case using production_server_sel [OF assms(3)] by simp
next
  case 2
  show ?case using production_server_sel [OF assms(3)] by simp
next
  case (3 ty h d t w res t' w')
  then obtain ms f where "h = work_handler D ms f"
    using production_handlers_work production_server_sel [OF assms(3)] by metis
  with work_handler_keeps [of D ms f d t w res t' w'] 3(2) have "t' = t \<and> (w' = w \<or> (\<exists>p u. demo_sleep D p w = (u, w')))" by simp
  moreover have "db w' = db w \<and> (I w \<longrightarrow> I w')" if "demo_sleep D p w = (u, w')" for p u
    using assms(2) that unfolding sleeps_aside_def aside_def by (metis snd_conv)
  ultimately show ?case by auto
qed

text \<open>What is announced for the tasks of each phase, attempt by attempt.\<close>

definition announced :: "(job list \<times> go_error option list) list" where
  "announced =
    [(welcome_jobs, [None]),
     (newsletter_jobs, [Some ErrTaskRetried, None]),
     (order_jobs, [Some ErrTaskRetried, Some ErrTaskRetried, None]),
     (notification_jobs, [Some ErrTaskRetried, Some ErrTaskDead])]"

text \<open>A task on its way through its attempts: what the client made, with a number of retries used.\<close>

definition attempt :: "TaskProto \<Rightarrow> nat \<Rightarrow> TaskProto \<Rightarrow> bool" where
  "attempt u n t \<longleftrightarrow> ID t = ID u \<and> Type t = Type u \<and> Options t = Options u \<and> task_RetryCount t = int n"

definition production_says :: "TaskProto \<Rightarrow> go_error option" where
  "production_says t =
     (if Type t = ''email:newsletter'' then if task_RetryCount t = 0 then Some (ErrText ''SMTP connection timeout'') else None
      else if Type t = ''order:confirm'' then
        if task_RetryCount t < 2
        then Some (ErrText (''payment gateway timeout (attempt '' @ show_int (task_RetryCount t + 1) @ '')'')) else None
      else if Type t = ''notification:push'' then Some (ErrText ''FCM service unavailable'') else None)"

lemma production_handler_says:
  assumes "map_of (production_handlers D) (Type t) = Some h" and "8 \<le> length (ID t)"
  shows "fst (fst (h d t w)) = Ret (production_says t)"
  using assms
  by (auto simp: production_handlers_def handleWelcomeEmail_def handleNewsletterEmail_def handleOrderConfirm_def
      handleNotification_def production_says_def work_handler_says split: if_splits)

lemma task_count_sint: "task_RetryCount t = sint (RetryCount (metadata_or_zero t))"
  by (simp add: task_RetryCount_def metadata_or_zero_def zero_metadata_def split: option.split)

lemma gives_up_count:
  assumes "task_RetryCount t = int n" and "sint (max_retry t) = int k" and "n < 10"
  shows "gives_up t \<longleftrightarrow> k \<le> n + 1"
proof -
  have "RetryCount (metadata_or_zero t) = word_of_int (int n)" 
    unfolding assms(1) [symmetric] task_count_sint by simp
  moreover have "sint (word_of_int (int n) + 1 :: i32) = int n + 1"
  proof -
    have "word_of_int (int n) + 1 = (word_of_int (int n + 1) :: i32)" by simp
    then show ?thesis using assms(3) by (simp only: sint_sbintrunc') (simp add: signed_take_bit_int_eq_self)
  qed
  ultimately show ?thesis by (auto simp: gives_up_def assms(2))
qed

lemma phase_jobs:
  "j \<in> set welcome_jobs \<Longrightarrow> Type (job_task u c at j) = ''email:welcome'' \<and> sint (max_retry (job_task u c at j)) = 3 \<and>
    ID (job_task u c at j) = u"
  "j \<in> set newsletter_jobs \<Longrightarrow> Type (job_task u c at j) = ''email:newsletter'' \<and> sint (max_retry (job_task u c at j)) = 3 \<and>
    ID (job_task u c at j) = u"
  "j \<in> set order_jobs \<Longrightarrow> Type (job_task u c at j) = ''order:confirm'' \<and> sint (max_retry (job_task u c at j)) = 3 \<and>
    ID (job_task u c at j) = u"
  "j \<in> set notification_jobs \<Longrightarrow> Type (job_task u c at j) = ''notification:push'' \<and> sint (max_retry (job_task u c at j)) = 2 \<and>
    ID (job_task u c at j) = u"
  by (auto simp: welcome_jobs_def newsletter_jobs_def order_jobs_def notification_jobs_def job_task_def NewTaskFromBytes_def
      new_proto_def max_retry_def option_defs options_or_zero_def quick_def)

lemma announced_verdict:
  assumes "(jobs, outs) \<in> set announced" and "j \<in> set jobs" and "n < length outs" and "attempt (job_task u c at j) n t"
  shows "verdict t (production_says t) = outs ! n"
proof -
  let ?u = "job_task u c at j"
  from assms(4) have t: "Type t = Type ?u" "max_retry t = max_retry ?u" "task_RetryCount t = int n"
    by (simp_all add: attempt_def max_retry_def)
  have n: "n < 10" using assms(1,3) by (auto simp: announced_def)
  have up: "gives_up t \<longleftrightarrow> k \<le> n + 1" if "sint (max_retry ?u) = int k" for k
    using gives_up_count [OF t(3) _ n] that t(2) by simp
  from assms(1) consider "jobs = welcome_jobs" "outs = [None]"
    | "jobs = newsletter_jobs" "outs = [Some ErrTaskRetried, None]"
    | "jobs = order_jobs" "outs = [Some ErrTaskRetried, Some ErrTaskRetried, None]"
    | "jobs = notification_jobs" "outs = [Some ErrTaskRetried, Some ErrTaskDead]" by (auto simp: announced_def)
  then show ?thesis
  proof cases
    case 1
    with assms(2,3) phase_jobs(1) t show ?thesis by (simp add: production_says_def verdict_def)
  next
    case 2
    with assms(2) phase_jobs(2) t up [of 3] have "Type t = ''email:newsletter''" "gives_up t \<longleftrightarrow> 3 \<le> n + 1" by simp_all
    with 2 assms(3) t(3) show ?thesis by (auto simp: production_says_def verdict_def less_Suc_eq)
  next
    case 3
    with assms(2) phase_jobs(3) t up [of 3] have "Type t = ''order:confirm''" "gives_up t \<longleftrightarrow> 3 \<le> n + 1" by simp_all
    with 3 assms(3) t(3) show ?thesis by (auto simp: production_says_def verdict_def less_Suc_eq)
  next
    case 4
    with assms(2) phase_jobs(4) t up [of 2] have "Type t = ''notification:push''" "gives_up t \<longleftrightarrow> 2 \<le> n + 1" by simp_all
    with 4 assms(3) t(3) show ?thesis by (auto simp: production_says_def verdict_def less_Suc_eq)
  qed
qed

lemma announced_identity: "(jobs, outs) \<in> set announced \<Longrightarrow> j \<in> set jobs \<Longrightarrow> ID (job_task u c at j) = u"
  using phase_jobs [of j u c at] by (auto simp: announced_def)

lemma announced_type:
  assumes "(jobs, outs) \<in> set announced" and "j \<in> set jobs"
  shows "\<exists>h. map_of (production_handlers D) (Type (job_task u c at j)) = Some h"
  using assms phase_jobs [of j u c at] by (auto simp: announced_def production_handlers_def)

context deployed_server
begin

lemma announced_outcome:
  assumes "mux_Handler (srv_mux S) = map_of (production_handlers A)" and "(jobs, outs) \<in> set announced" and "j \<in> set jobs"
    and "n < length outs" and "attempt (job_task u c at j) n t" and "8 \<le> length u"
    and "I w" and "message_task msg = Some t" and "xm_ID msg \<noteq> ''''"
    and "should_process S (with_message_id (xm_ID msg) t) w = (Ret True, w1)"
  shows "\<exists>w'. processMessage E cfg (processTask (clock E) big S) (task_Queue t) msg w = (Ret (outs ! n), w') \<and> I w' \<and>
    message_settled (xm_ID msg) t (outs ! n) (view cfg (db w)) (view cfg (db w'))"
proof -
  have t: "ID t = u" "Type t = Type (job_task u c at j)" using assms(3,5)
    using announced_identity [OF assms(2)] by (simp_all add: attempt_def)
  obtain h where h: "map_of (production_handlers A) (Type t) = Some h" using announced_type [OF assms(2,3)] t(2) by metis
  have says: "fst (fst (h d ((with_message_id (xm_ID msg) t)\<lparr>Metadata := Some (active S at
      ((metadata_or_zero t)\<lparr>StreamMsgID := xm_ID msg\<rparr>))\<rparr>) v)) = Ret (production_says t)" for d at v
  proof -
    let ?a = "(with_message_id (xm_ID msg) t)\<lparr>Metadata := Some (active S at ((metadata_or_zero t)\<lparr>StreamMsgID := xm_ID msg\<rparr>))\<rparr>"
    have "Type ?a = Type t" "ID ?a = ID t" by simp_all
    moreover have "production_says ?a = production_says t"
      by (simp add: production_says_def task_count_sint active_def)
    ultimately show ?thesis using production_handler_says [of A ?a h d v] h assms(6) t(1) by simp
  qed
  show ?thesis
    using server.processMessage_verdict [OF server_broker assms(7-10), of h "production_says t" big] assms(1) h says
    unfolding announced_verdict [OF assms(2-5)] by simp
qed

end

text \<open>
  C38. The scenario of the production example goes as its log announces: for every task of every phase,
  handling the message of its attempt number \<open>n\<close> (the check for duplicates letting it through) returns what
  is announced: welcome mails succeed, newsletters are retried once, order confirmations twice, and
  notifications are retried once and then dead. The message is off its queue's stream each time.
\<close>

theorem production_goes_as_announced:
  assumes "deployment E db clk I Q tbl ts jsonb" and "sleeps_aside A db I"
    and "production_server A host pid (redis_broker E cfg) (history Q (clock E)) = Ret S"
    and "(jobs, outs) \<in> set announced" and "j \<in> set jobs" and "n < length outs"
    and "attempt (job_task uuid created at j) n t" and "8 \<le> length uuid"
    and "I w" and "message_task msg = Some t" and "xm_ID msg \<noteq> ''''"
    and "should_process S (with_message_id (xm_ID msg) t) w = (Ret True, w1)"
  shows "\<exists>w'. processMessage E cfg (processTask (clock E) big S) (task_Queue t) msg w = (Ret (outs ! n), w') \<and>
    message_settled (xm_ID msg) t (outs ! n) (view cfg (db w)) (view cfg (db w'))"
  using deployed_server.announced_outcome [OF production_deployed [OF assms(1-3)] _ assms(4-12), of A]
    production_server_sel [OF assms(3)] by blast

text \<open>The first order, two failures on, in memory, with a clock that stands still.\<close>

definition still_demo :: "mem_world demo" where
  "still_demo = \<lparr>new_uuid = (\<lambda>w. (demo_id, w)), demo_now = clock pair_env, demo_sleep = (\<lambda>p w. ((), w)),
     second_or_done = (\<lambda>w. (None, w))\<rparr>"

definition first_order :: job where "first_order = hd order_jobs"

definition third_attempt :: TaskProto where
  "third_attempt = (job_task demo_id 0 0 first_order)\<lparr>Metadata := Some (zero_metadata\<lparr>RetryCount := 2\<rparr>)\<rparr>"

definition third_message :: XMessage where
  "third_message = \<lparr>xm_ID = ''i'', xm_Values = [(''data'', JsonText (json_task third_attempt))]\<rparr>"

lemma third_attempt_options: "Options third_attempt = Some (zero_options\<lparr>Queue := ''critical'', MaxRetry := 3\<rparr>)"
  "Payload third_attempt = RawJson (JObj [(''order_id'', JStr (''ORD-'' @ show_nat 1001)), (''amount'', cents 4999)])"
  by (simp_all add: third_attempt_def first_order_def order_jobs_def job_task_def NewTaskFromBytes_def new_proto_def option_defs
      options_or_zero_def quick_def upt_conv_Cons)

lemma third_message_task: "message_task third_message = Some third_attempt"
proof -
  have m: "Metadata third_attempt = Some (zero_metadata\<lparr>RetryCount := 2\<rparr>)" by (simp add: third_attempt_def)
  have "unmarshal_task (JsonText (json_task third_attempt)) = Inr (norm_task third_attempt)"
    by (rule decode_json_task)
      (simp_all add: task_wf_def options_wf_def payload_valid_def times_printable_def m third_attempt_options zero_metadata_def
        zero_options_def time_printable_def)
  moreover have "map_option norm_options (Options third_attempt) = Options third_attempt"
    by (simp add: third_attempt_options norm_options_def zero_options_def)
  then have "norm_task third_attempt = third_attempt" by (simp add: norm_task_def)
  ultimately show ?thesis by (simp add: message_task_def third_message_def)
qed

lemma third_queue: "task_Queue third_attempt = ''critical''"
  by (simp add: task_Queue_def third_attempt_options)

lemma third_message_id: "xm_ID third_message = ''i''"
  by (simp add: third_message_def)

theorem production_goes_as_announced_witness:
  "\<exists>S w'. production_server still_demo ''host'' ''1'' (redis_broker pair_env DefaultConsumerConfig) (history pair_sql (clock pair_env)) = Ret S \<and>
    processMessage pair_env DefaultConsumerConfig (processTask (clock pair_env) 0 S) ''critical'' third_message pair_empty = (Ret None, w') \<and>
    message_settled ''i'' third_attempt None (view DefaultConsumerConfig (mem_db (fst pair_empty)))
      (view DefaultConsumerConfig (mem_db (fst w')))"
proof -
  obtain S where S: "production_server still_demo ''host'' ''1'' (redis_broker pair_env DefaultConsumerConfig) (history pair_sql (clock pair_env)) = Ret S"
    using production_serves by blast
  have announced: "(order_jobs, [Some ErrTaskRetried, Some ErrTaskRetried, None]) \<in> set announced" by (simp add: announced_def)
  have job: "first_order \<in> set order_jobs" by (simp add: first_order_def order_jobs_def upt_conv_Cons)
  have attempt: "attempt (job_task demo_id 0 0 first_order) 2 third_attempt"
    by (simp add: attempt_def third_attempt_def task_RetryCount_def)
  have check: "should_process S (with_message_id (xm_ID third_message) third_attempt) pair_empty = (Ret True, pair_empty)"
    by (simp add: should_process_def task_count_sint go_return_def) (simp add: third_attempt_def zero_metadata_def)
  have sleep: "sleeps_aside still_demo (\<lambda>w. mem_db (fst w)) (\<lambda>w. steady_mem (fst w))"
    by (simp add: sleeps_aside_def still_demo_def aside_def)
  have steady: "steady_mem (fst pair_empty)" by (simp add: pair_empty_def steady_empty)
  have small: "8 \<le> length demo_id" by (simp add: demo_id_def)
  from production_goes_as_announced [OF pair.deployment_axioms sleep S announced job _ attempt small steady third_message_task _ check, of 0]
  show ?thesis using S by (simp add: third_queue third_message_id)
qed

section \<open>The crash of examples/crash-recovery\<close>

lemma crash_server_sel:
  assumes "crash_server D recovery host pid b st = Ret S"
  shows "srv_broker S = b \<and> srv_processedTTL S = dur (24 * Hour) \<and> mux_Handler (srv_mux S) = [''slow:task'' \<mapsto> slow_handler D recovery]"
proof -
  from register_lookup [OF assms [unfolded crash_server_def] new_server_mux]
  show ?thesis by (auto simp: server_option.intros) (simp_all add: NewServer_def option_defs)
qed

text \<open>
  C39. The recovery that the crash example announces does not happen. The first run has won the marker of
  its task and dies while it works on it. When the message of that first attempt reaches the second run
  within a day, it is acknowledged without a second of work, and the task has left its queue: it waits for
  no other attempt, is not dead, and nothing else has changed.
\<close>

theorem crash_demo_loses_task:
  assumes "redis_server E db clk" and "crash_server D True host pid (redis_broker E cfg) st = Ret S"
    and "attempt (job_task uuid created at crash_job) 0 t" and "message_task msg = Some t"
    and "SetProcessed E uuid (dur (24 * Hour)) w = (Ret (Inr True), w1)"
    and "strings (db w2) (processedPrefix @ uuid) = strings (db w1) (processedPrefix @ uuid)"
    and "SetProcessed E uuid (dur (24 * Hour)) w2 = (Ret (Inr b), w3)" and "clk w3 < clk w + 24 * Hour"
    and "Ack E cfg ''crash-test'' (xm_ID msg) w3 = (Ret None, w4)"
  shows "processMessage E cfg (processTask now big S) ''crash-test'' msg w2 = (Ret None, w4) \<and>
    view cfg (db w4) = (view cfg (db w2))(''crash-test'' := drop_message (xm_ID msg) (view cfg (db w2) ''crash-test''))"
proof -
  have S: "srv_broker S = redis_broker E cfg" "srv_processedTTL S = dur (24 * Hour)"
    using crash_server_sel [OF assms(2)] by simp_all
  have t: "ID t = uuid" "task_RetryCount t = 0"
    using assms(3) by (simp_all add: attempt_def crash_job_def job_task_simps)
  have ttl: "sint (dur (24 * Hour)) div Millisecond * Millisecond = 24 * Hour"
    by (simp add: dur_def Hour_def Minute_def Second_def Millisecond_def)
  from marked_message_acked [OF assms(1) S(1) _ _ assms(4) t(2), of w w1 w2 b w3 now big "''crash-test''"]
  have "processMessage E cfg (processTask now big S) ''crash-test'' msg w2 = Ack E cfg ''crash-test'' (xm_ID msg) w3 \<and> db w3 = db w2"
    using assms(5-8) by (simp add: S(2) t(1) ttl)
  with redis_server.Ack_refines [OF assms(1,9)] assms(9) show ?thesis by simp
qed

text \<open>The same in memory, with the marker of the first run in place.\<close>

definition crash_task :: TaskProto where
  "crash_task = job_task ''t1'' 0 0 crash_job"

definition crash_message :: XMessage where
  "crash_message = \<lparr>xm_ID = ''i'', xm_Values = [(''data'', JsonText (json_task crash_task))]\<rparr>"

lemma crash_message_task: "message_task crash_message = Some crash_task"
proof -
  have o: "Options crash_task = Some (zero_options\<lparr>Queue := ''crash-test'', MaxRetry := 3\<rparr>)"
    "Metadata crash_task = Some (zero_metadata\<lparr>State := TaskStatePending, CreatedAt := Some 0\<rparr>)"
    "Payload crash_task = RawJson (JObj [(''task_num'', jint 1)])"
    by (simp_all add: crash_task_def crash_job_def job_task_simps)
  have "unmarshal_task (JsonText (json_task crash_task)) = Inr (norm_task crash_task)"
    by (rule decode_json_task)
      (simp_all add: task_wf_def options_wf_def payload_valid_def times_printable_def o zero_metadata_def
        zero_options_def time_printable_def unix_def Second_def)
  moreover have "map_option norm_options (Options crash_task) = Options crash_task"
    by (simp add: o norm_options_def zero_options_def)
  then have "norm_task crash_task = crash_task" by (simp add: norm_task_def)
  ultimately show ?thesis by (simp add: message_task_def crash_message_def)
qed

definition quiet_demo :: "mem demo" where
  "quiet_demo = \<lparr>new_uuid = (\<lambda>m. (''t1'', m)), demo_now = clock mem_env, demo_sleep = (\<lambda>p m. ((), m)), second_or_done = (\<lambda>m. (None, m))\<rparr>"

theorem crash_demo_loses_task_witness:
  "\<exists>S w4. crash_server quiet_demo True ''host'' ''2'' (redis_broker mem_env DefaultConsumerConfig) demo_store = Ret S \<and>
    processMessage mem_env DefaultConsumerConfig (processTask (clock mem_env) 0 S) ''crash-test'' crash_message marked_mem = (Ret None, w4) \<and>
    view DefaultConsumerConfig (mem_db w4) = (view DefaultConsumerConfig (mem_db marked_mem))
      (''crash-test'' := drop_message ''i'' (view DefaultConsumerConfig (mem_db marked_mem) ''crash-test''))"
proof -
  obtain S where S: "crash_server quiet_demo True ''host'' ''2'' (redis_broker mem_env DefaultConsumerConfig) demo_store = Ret S"
    using crash_serves by blast
  have attempt: "attempt (job_task ''t1'' 0 0 crash_job) 0 crash_task"
    by (simp add: attempt_def crash_task_def task_RetryCount_def crash_job_def job_task_simps zero_metadata_def)
  have clock: "m_now marked_mem < m_now empty_mem + 24 * Hour"
    by (simp add: marked_mem_def empty_mem_def Hour_def Minute_def Second_def)
  obtain w4 where ack: "Ack mem_env DefaultConsumerConfig ''crash-test'' (xm_ID crash_message) marked_mem = (Ret None, w4)"
    by (simp add: Ack_def go_lift_def mem_pipe_def marked_mem_def empty_mem_def)
  from crash_demo_loses_task [OF mem.redis_server_axioms S attempt crash_message_task demo_SetProcessed(1) refl demo_SetProcessed(2)
      clock ack, of "clock mem_env" 0] S
  show ?thesis by (auto simp: crash_message_def)
qed

section \<open>The dashboard of examples/monitor\<close>

lemma dashboard_needs_stats:
  fixes u :: "'w Ui"
  assumes "ui_store u = Some st" and "\<And>v. st_GetStats st v = (Panic msg, v)"
  shows "handleDashboard ord u r w \<noteq> (Ret (Render name data), w')"
proof
  assume run: "handleDashboard ord u r w = (Ret (Render name data), w')"
  have no_stats: "go_bind (st_GetStats st) f v \<noteq> (Ret x, v')" for f :: "go_error + Stats \<Rightarrow> ('w, page_row) go" and x v v'
    by (simp add: assms go_bind_def)
  from run obtain queues w1 where "op_GetQueues (ui_broker u) w = (Ret (Inr queues), w1)"
    unfolding handleDashboard_def by (elim go_bind_Ret_E) (auto simp: failed_queues_def go_return_def split: sum.splits)
  with run show False
    unfolding handleDashboard_def Let_def by (simp add: go_bind_Ret) (elim go_bind_Ret_E, simp add: assms(1) no_stats)
qed

text \<open>
  C40. When PostgreSQL cannot be reached the monitor says that the task history is disabled and goes on, but
  its user interface then holds a nil store that is not nil as an interface: no request of its pages on
  tasks and no request for statistics is answered with the message for a missing store, each panics, and
  the dashboard is never rendered.
\<close>

theorem monitor_without_store:
  "ui_serve static ord (monitor_ui b (Inl err)) ''GET'' [''tasks''] r w = (Panic nil_dereference, w) \<and>
    ui_serve static ord (monitor_ui b (Inl err)) ''GET'' [''api'', ''tasks''] r w = (Panic nil_dereference, w) \<and>
    ui_serve static ord (monitor_ui b (Inl err)) ''GET'' [''api'', ''stats''] r w = (Panic nil_dereference, w) \<and>
    \<not> (\<exists>data. fst (ui_serve static ord (monitor_ui b (Inl err)) ''GET'' [''''] r w) = Ret (Render ''layout.html'' data))"
proof -
  have routes: "ui_route ''GET'' [''tasks''] = Endpoint Tasks []" "ui_route ''GET'' [''api'', ''tasks''] = Endpoint APITasks []"
    "ui_route ''GET'' [''api'', ''stats''] = Endpoint APIStats []" "ui_route ''GET'' [''''] = Endpoint Dashboard []"
    by (simp_all add: ui_route_def candidates_def ui_routes_def serves_def most_specific_def to_slash_def inexact_def)
  show ?thesis
    using dashboard_needs_stats [of "monitor_ui b (Inl err)" nil_store nil_dereference]
    by (simp add: ui_serve_def routes handleTasks_def handleAPITasks_def handleAPIStats_def monitor_ui_def nil_store_def
        go_bind_def go_panic_def Let_def) (metis prod.collapse)
qed

section \<open>Setting up and migrating\<close>

lemma connect_redis_Inr: "connect_redis E rest w = (Ret (Inr x), w') \<Longrightarrow> \<exists>w1. ping E w = (None, w1) \<and> rest w1 = (Ret (Inr x), w')"
  by (auto simp: connect_redis_def go_bind_lift_case go_return_def split: prod.splits option.splits)

lemma connect_postgres_Inr:
  "connect_postgres E drv rest w = (Ret (Inr x), w') \<Longrightarrow>
   \<exists>Q p w1. store_New drv example_pg w = (Ret (Inr (Q, p)), w1) \<and> rest (postgres_store Q (clock E)) w1 = (Ret (Inr x), w')"
  unfolding connect_postgres_def by (elim go_bind_Ret_E) (auto simp: go_return_def split: sum.splits prod.splits)

text \<open>What the production example runs is the client and the server of a deployment.\<close>

lemma production_main_deploys:
  assumes "production_main E drv D host pid w = (Ret (Inr prog), w')"
  shows "\<exists>Q. prog_client prog = deployed_client E (example_broker host pid production_config) Q \<and>
    production_server D host pid (redis_broker E (example_broker host pid production_config)) (history Q (clock E)) =
      Ret (prog_server prog)"
proof -
  let ?b = "redis_broker E (example_broker host pid production_config)"
  from assms obtain Q w1 where "(let h = store_ops.truncate (postgres_store Q (clock E))
     in started (NewClient ?b [WithStore (Some h)]) (production_server D host pid ?b h)
       \<lparr>ui_broker = ?b, ui_store = Some (postgres_store Q (clock E))\<rparr>) w1 = (Ret (Inr prog), w')"
    unfolding production_main_def Let_def by (blast dest: connect_redis_Inr connect_postgres_Inr)
  then show ?thesis
    by (intro exI [of _ Q]) (auto simp: started_def Let_def go_return_def go_panic_def history_def deployed_client_def
        split: outcome.splits)
qed

text \<open>A migration that succeeds was executed and committed, and the database was left alone by every step that failed.\<close>

lemma runMigration_commits:
  assumes "runMigration M dsn s w = (Ret None, w')"
  shows "\<exists>w1 w2 w3 w4. mig_open M dsn w = (None, w1) \<and> mig_ping M w1 = (None, w2) \<and> mig_begin M w2 = (None, w3) \<and>
    mig_exec M s w3 = (None, w4) \<and> mig_commit M w4 = (None, w')"
  using assms unfolding runMigration_def
  by (auto simp: go_bind_lift_case go_return_def split: prod.splits option.splits)

end
